(* ===== verification/Zp_Prelude.thy ===== *)
theory Zp_Prelude
  imports Main "HOL-Library.Word"
begin

text \<open>
  Shared vocabulary of the development: the fixed-width integer types of the C++ code, slices of
  byte sequences (\<open>std::span\<close>), \<open>memcpy\<close> into a byte array, and the generic lemmas on lists
  and words that the component theories use.
\<close>

unbundle bit_operations_syntax

named_theorems slice_simps \<open>rewriting of slices and stores of byte sequences\<close>

type_synonym u8 = "8 word"
type_synonym u16 = "16 word"
type_synonym u32 = "32 word"
type_synonym u64 = "64 word"

text \<open>A signed 32-bit integer is a word that is read with \<open>sint\<close>.\<close>

type_synonym s32 = "32 word"

text \<open>\<open>static_cast<std::size_t>\<close> of a signed 32-bit value: sign extension, then unsigned.\<close>

definition size_of_s32 :: "s32 \<Rightarrow> nat" where
  "size_of_s32 r = unat (scast r :: u64)"

section \<open>Slices and stores\<close>

definition slice_of :: "nat \<Rightarrow> nat \<Rightarrow> 'a list \<Rightarrow> 'a list" where
  "slice_of off n xs = take n (drop off xs)"

definition store_at :: "nat \<Rightarrow> 'a list \<Rightarrow> 'a list \<Rightarrow> 'a list" where
  "store_at off ys xs = take off xs @ ys @ drop (off + length ys) xs"

lemma length_slice_of [simp]: "length (slice_of off n xs) = min n (length xs - off)"
  by (simp add: slice_of_def)

lemma slice_of_0 [simp]: "slice_of off 0 xs = []"
  by (simp add: slice_of_def)

lemma slice_of_whole: "n = length xs \<Longrightarrow> slice_of 0 n xs = xs"
  by (simp add: slice_of_def)

lemma slice_of_add: "slice_of off (m + n) xs = slice_of off m xs @ slice_of (off + m) n xs"
  by (simp add: slice_of_def take_add add.commute)

lemma take_slice_of [slice_simps]: "take m (slice_of off n xs) = slice_of off (min m n) xs"
  by (simp add: slice_of_def min.commute)

lemma drop_slice_of [slice_simps]: "drop m (slice_of off n xs) = slice_of (off + m) (n - m) xs"
  by (simp add: slice_of_def drop_take add.commute)

lemma length_store_at: "off + length ys \<le> length xs \<Longrightarrow> length (store_at off ys xs) = length xs"
  by (simp add: store_at_def)

lemma slice_of_store_at_same:
  assumes "off + length ys \<le> length xs" and "n = length ys"
  shows "slice_of off n (store_at off ys xs) = ys"
  using assms by (simp add: slice_of_def store_at_def)

lemma slice_of_store_at_before:
  "off \<le> length xs \<Longrightarrow> a + n \<le> off \<Longrightarrow> slice_of a n (store_at off ys xs) = slice_of a n xs"
  by (simp add: slice_of_def store_at_def take_drop)

lemma slice_of_store_at_after:
  assumes "off + length ys \<le> length xs" and "off + length ys \<le> a"
  shows "slice_of a n (store_at off ys xs) = slice_of a n xs"
proof -
  have "drop a (take off xs @ ys @ drop (off + length ys) xs) = drop a xs"
    using assms by (simp add: drop_append)
  then show ?thesis
    by (simp add: slice_of_def store_at_def)
qed

lemma slice_of_store_at_disjoint:
  assumes "off + length ys \<le> length xs" and "a + n \<le> off \<or> off + length ys \<le> a"
  shows "slice_of a n (store_at off ys xs) = slice_of a n xs"
  using assms slice_of_store_at_before [of off xs a n ys] slice_of_store_at_after [of off ys xs a n]
  by auto

lemma take_store_at:
  assumes "off + length ys \<le> length xs"
  shows "take (off + length ys) (store_at off ys xs) = take off xs @ ys"
  using assms by (simp add: store_at_def)

lemma store_at_full: "length ys = length xs \<Longrightarrow> store_at 0 ys xs = ys"
  by (simp add: store_at_def)

section \<open>Words\<close>

lemma unat_less_pow: "unat (w :: 'a::len word) < 2 ^ LENGTH('a)"
  by (rule unsigned_less)

lemma unat_of_nat_eq: "n < 2 ^ LENGTH('a) \<Longrightarrow> unat (of_nat n :: 'a::len word) = n"
  by (simp add: unat_of_nat take_bit_nat_eq_self)

lemma of_nat_eq_0_word: "n < 2 ^ LENGTH('a) \<Longrightarrow> (of_nat n :: 'a::len word) = 0 \<longleftrightarrow> n = 0"
  by (auto simp flip: unat_eq_0 simp: unat_of_nat_eq)

lemma sint_of_nat32: "n < 2 ^ 31 \<Longrightarrow> sint (of_nat n :: s32) = int n"
  by (simp add: signed_of_nat signed_take_bit_int_eq_self)

lemma size_of_s32_int: "0 \<le> sint r \<Longrightarrow> size_of_s32 r = n \<longleftrightarrow> sint r = int n"
proof -
  assume a: "0 \<le> sint r"
  have b: "sint r < 2 ^ 31"
    using sint_lt [of r] by simp
  have "uint (word_of_int (sint r) :: u64) = take_bit 64 (sint r)"
    by (subst unsigned_of_int) simp
  also have "\<dots> = sint r"
    using a b by (intro take_bit_int_eq_self) auto
  finally have "uint (scast r :: u64) = sint r"
    by (simp only: scast_eq)
  then have "size_of_s32 r = nat (sint r)"
    by (simp only: size_of_s32_def unat_eq_nat_uint)
  with a show ?thesis
    by linarith
qed

end
