(* ===== verification/Zp_Error.thy ===== *)
theory Zp_Error
  imports Zp_Prelude
begin

text \<open>
  The error values of the program (\<open>include/zportal/tools/error.hpp\<close>, \<open>src/tools/error.cpp\<close>):
  the \<open>ErrorCode\<close> enumeration with its numeric values, the \<open>Error\<close> object, the domain of an
  error and its printed form. \<open>Result<T>\<close> is the sum \<open>error + 'a\<close>. The source location of an
  \<open>Error\<close> is debug information and is left out; \<open>to_string\<close> is the release build's.
\<close>

section \<open>Codes and domains\<close>

text \<open>\<open>None\<close> is a constructor of options here, so the codes and domains of that name carry a prefix.\<close>

datatype error_domain = Dom_None | Dom_Protocol | Dom_Socket | Dom_Tun | Dom_IoUring
  | Dom_Resource | Dom_Internal | Dom_Socks | Dom_Resolve

datatype (plugins only: code size) error_code =
    EC_None
  | InvalidMagic
  | InvalidSize
  | FrameCrcMismatch
  | PeerClosed
  | SocketCreateFailed
  | InvalidSocketFamily
  | ConnectFailed
  | BindFailed
  | ListenFailed
  | AcceptFailed
  | SendFailed
  | RecvFailed
  | SetSockOptFailed
  | GetSockNameFailed
  | GetPeerNameFailed
  | SendReturnedZero
  | SocketPairFailed
  | InetPtonFailed
  | InetNtopFailed
  | TunOpenFailed
  | TunReadFailed
  | TunWriteFailed
  | TunPartialWrite
  | TunIoctlFailed
  | TunNameToIndexFailed
  | TunIpConfigFailed
  | NetlinkError
  | RingSubmitFailed
  | RingWaitFailed
  | RingCreateQueueFailed
  | RingBufferRingSetupFailed
  | RingProbeNotSupported
  | RingRegisterBufRingFailed
  | NotEnoughMemory
  | NotEnoughSqe
  | PosixMemalignFailed
  | SysConfFailed
  | RecvParserError
  | RecvCqeMissingBid
  | ReadCqeMissingBid
  | SendCqeWithoutFrame
  | WriteUnknownFrame
  | AddressParseFailed
  | RingInvalid
  | InvalidSocket
  | InvalidBid
  | InvalidBgid
  | InvalidArgument
  | InvalidBufferGroup
  | WrongOperationType
  | InvalidTransmitter
  | InvalidReceiver
  | InvalidState
  | InvalidEnumValue
  | SocksHostnameTooLong
  | SocksConnectFailed
  | SocksUnsupportedTargetFamily
  | SocksAuthMethodUnsupported
  | ResolveNotFound
  | ResolveInvalidRequest
  | ResolveSystemError
  | ResolveTemporaryFailure
  | ResolveFailed

primrec code_value :: "error_code \<Rightarrow> u16" where
  "code_value EC_None = 0x0"
| "code_value InvalidMagic = 0x100"
| "code_value InvalidSize = 0x101"
| "code_value FrameCrcMismatch = 0x102"
| "code_value PeerClosed = 0x200"
| "code_value SocketCreateFailed = 0x201"
| "code_value InvalidSocketFamily = 0x202"
| "code_value ConnectFailed = 0x203"
| "code_value BindFailed = 0x204"
| "code_value ListenFailed = 0x205"
| "code_value AcceptFailed = 0x206"
| "code_value SendFailed = 0x207"
| "code_value RecvFailed = 0x208"
| "code_value SetSockOptFailed = 0x209"
| "code_value GetSockNameFailed = 0x20A"
| "code_value GetPeerNameFailed = 0x20B"
| "code_value SendReturnedZero = 0x20C"
| "code_value SocketPairFailed = 0x20D"
| "code_value InetPtonFailed = 0x20E"
| "code_value InetNtopFailed = 0x20F"
| "code_value TunOpenFailed = 0x300"
| "code_value TunReadFailed = 0x301"
| "code_value TunWriteFailed = 0x302"
| "code_value TunPartialWrite = 0x303"
| "code_value TunIoctlFailed = 0x304"
| "code_value TunNameToIndexFailed = 0x305"
| "code_value TunIpConfigFailed = 0x306"
| "code_value NetlinkError = 0x307"
| "code_value RingSubmitFailed = 0x400"
| "code_value RingWaitFailed = 0x401"
| "code_value RingCreateQueueFailed = 0x402"
| "code_value RingBufferRingSetupFailed = 0x403"
| "code_value RingProbeNotSupported = 0x404"
| "code_value RingRegisterBufRingFailed = 0x405"
| "code_value NotEnoughMemory = 0x500"
| "code_value NotEnoughSqe = 0x501"
| "code_value PosixMemalignFailed = 0x502"
| "code_value SysConfFailed = 0x503"
| "code_value RecvParserError = 0x600"
| "code_value RecvCqeMissingBid = 0x601"
| "code_value ReadCqeMissingBid = 0x602"
| "code_value SendCqeWithoutFrame = 0x603"
| "code_value WriteUnknownFrame = 0x604"
| "code_value AddressParseFailed = 0x605"
| "code_value RingInvalid = 0x606"
| "code_value InvalidSocket = 0x607"
| "code_value InvalidBid = 0x608"
| "code_value InvalidBgid = 0x609"
| "code_value InvalidArgument = 0x60A"
| "code_value InvalidBufferGroup = 0x60B"
| "code_value WrongOperationType = 0x60C"
| "code_value InvalidTransmitter = 0x60D"
| "code_value InvalidReceiver = 0x60E"
| "code_value InvalidState = 0x60F"
| "code_value InvalidEnumValue = 0x610"
| "code_value SocksHostnameTooLong = 0x700"
| "code_value SocksConnectFailed = 0x701"
| "code_value SocksUnsupportedTargetFamily = 0x702"
| "code_value SocksAuthMethodUnsupported = 0x703"
| "code_value ResolveNotFound = 0x800"
| "code_value ResolveInvalidRequest = 0x801"
| "code_value ResolveSystemError = 0x802"
| "code_value ResolveTemporaryFailure = 0x803"
| "code_value ResolveFailed = 0x804"

text \<open>The section of the header under whose comment a code is declared.\<close>

primrec declared_section :: "error_code \<Rightarrow> error_domain" where
  "declared_section EC_None = Dom_None"
| "declared_section InvalidMagic = Dom_Protocol"
| "declared_section InvalidSize = Dom_Protocol"
| "declared_section FrameCrcMismatch = Dom_Protocol"
| "declared_section PeerClosed = Dom_Socket"
| "declared_section SocketCreateFailed = Dom_Socket"
| "declared_section InvalidSocketFamily = Dom_Socket"
| "declared_section ConnectFailed = Dom_Socket"
| "declared_section BindFailed = Dom_Socket"
| "declared_section ListenFailed = Dom_Socket"
| "declared_section AcceptFailed = Dom_Socket"
| "declared_section SendFailed = Dom_Socket"
| "declared_section RecvFailed = Dom_Socket"
| "declared_section SetSockOptFailed = Dom_Socket"
| "declared_section GetSockNameFailed = Dom_Socket"
| "declared_section GetPeerNameFailed = Dom_Socket"
| "declared_section SendReturnedZero = Dom_Socket"
| "declared_section SocketPairFailed = Dom_Socket"
| "declared_section InetPtonFailed = Dom_Socket"
| "declared_section InetNtopFailed = Dom_Socket"
| "declared_section TunOpenFailed = Dom_Tun"
| "declared_section TunReadFailed = Dom_Tun"
| "declared_section TunWriteFailed = Dom_Tun"
| "declared_section TunPartialWrite = Dom_Tun"
| "declared_section TunIoctlFailed = Dom_Tun"
| "declared_section TunNameToIndexFailed = Dom_Tun"
| "declared_section TunIpConfigFailed = Dom_Tun"
| "declared_section NetlinkError = Dom_Tun"
| "declared_section RingSubmitFailed = Dom_IoUring"
| "declared_section RingWaitFailed = Dom_IoUring"
| "declared_section RingCreateQueueFailed = Dom_IoUring"
| "declared_section RingBufferRingSetupFailed = Dom_IoUring"
| "declared_section RingProbeNotSupported = Dom_IoUring"
| "declared_section RingRegisterBufRingFailed = Dom_IoUring"
| "declared_section NotEnoughMemory = Dom_Resource"
| "declared_section NotEnoughSqe = Dom_Resource"
| "declared_section PosixMemalignFailed = Dom_Resource"
| "declared_section SysConfFailed = Dom_Resource"
| "declared_section RecvParserError = Dom_Internal"
| "declared_section RecvCqeMissingBid = Dom_Internal"
| "declared_section ReadCqeMissingBid = Dom_Internal"
| "declared_section SendCqeWithoutFrame = Dom_Internal"
| "declared_section WriteUnknownFrame = Dom_Internal"
| "declared_section AddressParseFailed = Dom_Internal"
| "declared_section RingInvalid = Dom_Internal"
| "declared_section InvalidSocket = Dom_Internal"
| "declared_section InvalidBid = Dom_Internal"
| "declared_section InvalidBgid = Dom_Internal"
| "declared_section InvalidArgument = Dom_Internal"
| "declared_section InvalidBufferGroup = Dom_Internal"
| "declared_section WrongOperationType = Dom_Internal"
| "declared_section InvalidTransmitter = Dom_Internal"
| "declared_section InvalidReceiver = Dom_Internal"
| "declared_section InvalidState = Dom_Internal"
| "declared_section InvalidEnumValue = Dom_Internal"
| "declared_section SocksHostnameTooLong = Dom_Socks"
| "declared_section SocksConnectFailed = Dom_Socks"
| "declared_section SocksUnsupportedTargetFamily = Dom_Socks"
| "declared_section SocksAuthMethodUnsupported = Dom_Socks"
| "declared_section ResolveNotFound = Dom_Resolve"
| "declared_section ResolveInvalidRequest = Dom_Resolve"
| "declared_section ResolveSystemError = Dom_Resolve"
| "declared_section ResolveTemporaryFailure = Dom_Resolve"
| "declared_section ResolveFailed = Dom_Resolve"

definition all_error_codes :: "error_code list" where
  "all_error_codes = [EC_None, InvalidMagic, InvalidSize, FrameCrcMismatch,
     PeerClosed, SocketCreateFailed, InvalidSocketFamily, ConnectFailed,
     BindFailed, ListenFailed, AcceptFailed, SendFailed,
     RecvFailed, SetSockOptFailed, GetSockNameFailed, GetPeerNameFailed,
     SendReturnedZero, SocketPairFailed, InetPtonFailed, InetNtopFailed,
     TunOpenFailed, TunReadFailed, TunWriteFailed, TunPartialWrite,
     TunIoctlFailed, TunNameToIndexFailed, TunIpConfigFailed, NetlinkError,
     RingSubmitFailed, RingWaitFailed, RingCreateQueueFailed, RingBufferRingSetupFailed,
     RingProbeNotSupported, RingRegisterBufRingFailed, NotEnoughMemory, NotEnoughSqe,
     PosixMemalignFailed, SysConfFailed, RecvParserError, RecvCqeMissingBid,
     ReadCqeMissingBid, SendCqeWithoutFrame, WriteUnknownFrame, AddressParseFailed,
     RingInvalid, InvalidSocket, InvalidBid, InvalidBgid,
     InvalidArgument, InvalidBufferGroup, WrongOperationType, InvalidTransmitter,
     InvalidReceiver, InvalidState, InvalidEnumValue, SocksHostnameTooLong,
     SocksConnectFailed, SocksUnsupportedTargetFamily, SocksAuthMethodUnsupported, ResolveNotFound,
     ResolveInvalidRequest, ResolveSystemError, ResolveTemporaryFailure, ResolveFailed]"
section \<open>The Error object\<close>

record error =
  err_code :: error_code
  err_message :: "string option"
  err_errno :: int

type_synonym 'a result = "error + 'a"

text \<open>The constructor with its defaulted arguments, as the code calls it.\<close>

definition Error :: "error_code \<Rightarrow> error" where
  "Error c = \<lparr>err_code = c, err_message = None, err_errno = 0\<rparr>"

definition Error_no :: "error_code \<Rightarrow> int \<Rightarrow> error" where
  "Error_no c n = \<lparr>err_code = c, err_message = None, err_errno = n\<rparr>"

definition Error_msg :: "error_code \<Rightarrow> int \<Rightarrow> string \<Rightarrow> error" where
  "Error_msg c n m = \<lparr>err_code = c, err_message = Some m, err_errno = n\<rparr>"

definition domain_of :: "error \<Rightarrow> error_domain" where
  "domain_of e =
     (let d = (ucast (code_value (err_code e)) :: u32) AND 0xF00
      in if d = 0x000 then Dom_None
         else if d = 0x100 then Dom_Protocol
         else if d = 0x200 then Dom_Socket
         else if d = 0x300 then Dom_Tun
         else if d = 0x400 then Dom_IoUring
         else if d = 0x500 then Dom_Resource
         else if d = 0x600 then Dom_Internal
         else if d = 0x700 then Dom_Socks
         else if d = 0x800 then Dom_Resolve
         else Dom_Internal)"

definition ok_of :: "error \<Rightarrow> bool" where
  "ok_of e \<longleftrightarrow> err_code e = EC_None"

definition error_eq :: "error \<Rightarrow> error \<Rightarrow> bool" where
  "error_eq a b \<longleftrightarrow> err_code a = err_code b"

definition error_is :: "error \<Rightarrow> error_code \<Rightarrow> bool" where
  "error_is e c \<longleftrightarrow> err_code e = c"

text \<open>Decimal output of an unsigned number, as an output stream prints it.\<close>

fun decimal :: "nat \<Rightarrow> string" where
  "decimal n = (if n < 10 then [char_of (48 + n)] else decimal (n div 10) @ [char_of (48 + n mod 10)])"

declare decimal.simps [simp del]

primrec domain_label :: "error_domain \<Rightarrow> string" where
  "domain_label Dom_Protocol = ''Protocol''"
| "domain_label Dom_Socket = ''Socket''"
| "domain_label Dom_Tun = ''TUN device''"
| "domain_label Dom_IoUring = ''io_uring''"
| "domain_label Dom_Resource = ''Resources''"
| "domain_label Dom_Internal = ''Internal''"
| "domain_label Dom_Socks = ''Socks5''"
| "domain_label Dom_Resolve = ''DNS resolving''"
| "domain_label Dom_None = []"

definition error_to_string :: "error \<Rightarrow> string" where
  "error_to_string e =
     (if ok_of e then ''OK''
      else ''Domain: '' @ domain_label (domain_of e) @ '' Code: '' @ decimal (unat (code_value (err_code e)))
        @ (if err_errno e > 0 then '' Errno: '' @ decimal (nat (err_errno e)) else []))
     @ (case err_message e of None \<Rightarrow> [] | Some m \<Rightarrow> if m = [] then [] else '' Message:'' @ m)"

section \<open>Properties\<close>

lemma set_all_error_codes: "c \<in> set all_error_codes"
  by (cases c) (simp_all add: all_error_codes_def)

lemma distinct_code_values: "distinct (map code_value all_error_codes)"
  by (simp add: all_error_codes_def)

text \<open>
  The numeric values of the error codes identify them: no two codes of the enumeration have
  the same value, although the header writes some in hexadecimal and most in decimal.
\<close>

theorem code_value_inj: "code_value a = code_value b \<longleftrightarrow> a = b"
  using distinct_code_values set_all_error_codes [of a] set_all_error_codes [of b]
  by (auto simp: distinct_map inj_on_def)

text \<open>
  The domain that \<open>Error::domain\<close> computes by masking the numeric code is, for every code,
  the section of the header that declares it; the default branch is never taken.
\<close>

theorem domain_of_declared: "domain_of e = declared_section (err_code e)"
  by (cases "err_code e") (simp_all add: domain_of_def)

lemma Error_code [simp]: "err_code (Error c) = c" "err_code (Error_no c n) = c" "err_code (Error_msg c n m) = c"
  by (simp_all add: Error_def Error_no_def Error_msg_def)

end
