(* ===== verification/Operation.thy ===== *)
theory Operation
  imports Zp_Error
begin

text \<open>
  The operation tag carried in the \<open>user_data\<close> of a completion
  (\<open>include/zportal/session/operation.hpp\<close>, \<open>operation.inl\<close>). The enumeration has the underlying
  type \<open>std::uint8_t\<close>, so a byte that names no enumerator is still a value of the type; it is kept
  as \<open>Unnamed_type\<close>.
\<close>

datatype operation_type = NONE | RECV | SEND | READ | WRITE | SIGNAL | TIMEOUT | Unnamed_type u8

fun optype_byte :: "operation_type \<Rightarrow> u8" where
  "optype_byte NONE = 0"
| "optype_byte RECV = 1"
| "optype_byte SEND = 2"
| "optype_byte READ = 3"
| "optype_byte WRITE = 4"
| "optype_byte SIGNAL = 5"
| "optype_byte TIMEOUT = 6"
| "optype_byte (Unnamed_type b) = b"

definition optype_of_byte :: "u8 \<Rightarrow> operation_type" where
  "optype_of_byte b =
     (if b = 0 then NONE else if b = 1 then RECV else if b = 2 then SEND else if b = 3 then READ
      else if b = 4 then WRITE else if b = 5 then SIGNAL else if b = 6 then TIMEOUT
      else Unnamed_type b)"

record operation =
  op_type :: operation_type

definition new_operation :: operation where
  "new_operation = \<lparr>op_type = NONE\<rparr>"

definition set_type :: "operation_type \<Rightarrow> operation \<Rightarrow> operation" where
  "set_type t p = p\<lparr>op_type := t\<rparr>"

definition parse_operation :: "u64 \<Rightarrow> operation \<Rightarrow> operation" where
  "parse_operation serialized p = p\<lparr>op_type := optype_of_byte (ucast (serialized AND 0xFF))\<rparr>"

definition operation_of_u64 :: "u64 \<Rightarrow> operation" where
  "operation_of_u64 serialized = parse_operation serialized new_operation"

definition serialize :: "operation \<Rightarrow> u64" where
  "serialize p = ucast (optype_byte (op_type p))"

section \<open>Properties\<close>

text \<open>The values of the enumeration type, each written in one way.\<close>

definition wf_optype :: "operation_type \<Rightarrow> bool" where
  "wf_optype t \<longleftrightarrow> (case t of Unnamed_type b \<Rightarrow> 6 < b | _ \<Rightarrow> True)"

lemma optype_byte_of_byte [simp]: "optype_byte (optype_of_byte b) = b"
  by (simp add: optype_of_byte_def)

lemma byte_cases_7:
  fixes b :: u8
  assumes "\<not> 6 < b"
  shows "b \<in> {0, 1, 2, 3, 4, 5, 6}"
proof -
  have "unat b \<le> 6"
    using assms by (simp add: not_less word_le_nat_alt)
  then have "unat b \<in> {0, 1, 2, 3, 4, 5, 6}"
    by auto
  then show ?thesis
    by (auto simp: unat_arith_simps)
qed

lemma wf_optype_of_byte: "wf_optype (optype_of_byte b)"
  using byte_cases_7 [of b] by (auto simp: optype_of_byte_def wf_optype_def)

lemma optype_of_byte_byte: "wf_optype t \<Longrightarrow> optype_of_byte (optype_byte t) = t"
  by (cases t) (auto simp: optype_of_byte_def wf_optype_def)

text \<open>Parsing reads the low byte only.\<close>

lemma ucast_low_byte: "ucast ((v :: u64) AND 0xFF) = (ucast v :: u8)"
proof -
  have "(0xFF :: u64) = mask 8"
    by (simp add: mask_eq_exp_minus_1)
  then show ?thesis
    unfolding \<open>(0xFF :: u64) = mask 8\<close> by (intro bit_word_eqI) (simp add: bit_simps del: mask_numeral)
qed

lemma ucast_ucast_byte [simp]: "(ucast (ucast (b :: u8) :: u64) :: u8) = b"
  by (rule bit_word_eqI) (simp add: bit_simps)

lemma op_type_of_u64: "op_type (operation_of_u64 v) = optype_of_byte (ucast v)"
  by (simp add: operation_of_u64_def parse_operation_def ucast_low_byte)

text \<open>
  The operation tag survives the trip through the 64-bit \<open>user_data\<close> of a completion, and
  the seven unused upper bytes of the datagram do not matter: whatever is in them, parsing gives
  the type that was serialized into the low byte.
\<close>

theorem operation_roundtrip:
  assumes "wf_optype (op_type p)"
  shows "operation_of_u64 (serialize p OR push_bit 8 junk) = p"
proof -
  have "ucast (serialize p OR push_bit 8 junk) = optype_byte (op_type p)"
    by (rule bit_word_eqI) (auto simp: serialize_def bit_simps)
  then show ?thesis
    using assms optype_of_byte_byte [of "op_type p"]
    by (intro operation.equality) (simp_all add: op_type_of_u64)
qed

theorem operation_roundtrip_witness:
  "operation_of_u64 (serialize \<lparr>op_type = RECV\<rparr> OR push_bit 8 0x123456) = \<lparr>op_type = RECV\<rparr>"
  using operation_roundtrip [of "\<lparr>op_type = RECV\<rparr>" "0x123456"] by (simp add: wf_optype_def)

lemma op_type_serialized [simp]:
  "op_type (operation_of_u64 (serialize (set_type t p))) = optype_of_byte (optype_byte t)"
  by (simp add: op_type_of_u64 serialize_def set_type_def)

end
