(* ===== verification/Cqe.thy ===== *)
theory Cqe
  imports Operation
begin

text \<open>
  Completion entries (\<open>include/zportal/iouring/cqe.hpp\<close>, \<open>cqe.inl\<close>): the copy of an
  \<open>io_uring_cqe\<close> that the handlers work on. The three constants are the ones of the kernel's
  \<open>io_uring\<close> interface that the code names.
\<close>

definition IORING_CQE_F_BUFFER :: u32 where "IORING_CQE_F_BUFFER = 1"
definition IORING_CQE_F_MORE :: u32 where "IORING_CQE_F_MORE = 2"
definition IORING_CQE_BUFFER_SHIFT :: nat where "IORING_CQE_BUFFER_SHIFT = 16"

text \<open>The kernel's entry, and the program's copy of it.\<close>

record io_uring_cqe =
  user_data :: u64
  res :: s32
  flags :: u32

record cqe =
  cqe_operation :: operation
  cqe_result :: s32
  cqe_flags :: u32

definition cqe_of :: "io_uring_cqe \<Rightarrow> cqe" where
  "cqe_of c = \<lparr>cqe_operation = operation_of_u64 (user_data c), cqe_result = res c, cqe_flags = flags c\<rparr>"

definition cqe_type :: "cqe \<Rightarrow> operation_type" where
  "cqe_type c = op_type (cqe_operation c)"

definition cqe_bid :: "cqe \<Rightarrow> u16 option" where
  "cqe_bid c =
     (if cqe_flags c AND IORING_CQE_F_BUFFER \<noteq> 0
      then Some (ucast (drop_bit IORING_CQE_BUFFER_SHIFT (cqe_flags c))) else None)"

definition cqe_more :: "cqe \<Rightarrow> bool" where
  "cqe_more c \<longleftrightarrow> cqe_flags c AND IORING_CQE_F_MORE \<noteq> 0"

definition cqe_ok :: "cqe \<Rightarrow> bool" where
  "cqe_ok c \<longleftrightarrow> sint (cqe_result c) \<ge> 0"

definition cqe_error :: "cqe \<Rightarrow> s32" where
  "cqe_error c = (if cqe_ok c then 0 else - cqe_result c)"

section \<open>Completions as the kernel encodes them\<close>

text \<open>
  The entry of a request tagged \<open>t\<close>: result \<open>r\<close>, the selected buffer if any, and whether more
  completions of the same request follow.
\<close>

definition mk_flags :: "u16 option \<Rightarrow> bool \<Rightarrow> u32" where
  "mk_flags b m = (case b of None \<Rightarrow> 0 | Some bid \<Rightarrow> push_bit 16 (ucast bid) OR IORING_CQE_F_BUFFER)
                  OR (if m then IORING_CQE_F_MORE else 0)"

definition mk_cqe :: "operation_type \<Rightarrow> s32 \<Rightarrow> u16 option \<Rightarrow> bool \<Rightarrow> cqe" where
  "mk_cqe t r b m =
     cqe_of \<lparr>user_data = serialize (set_type t new_operation), res = r, flags = mk_flags b m\<rparr>"

lemma and_1_neq_0: "(w :: u32) AND 1 \<noteq> 0 \<longleftrightarrow> bit w 0"
  by (simp add: and_one_eq even_iff_mod_2_eq_zero [symmetric] bit_0)

lemma and_2_neq_0: "(w :: u32) AND 2 \<noteq> 0 \<longleftrightarrow> bit w 1"
  by (auto simp: bit_eq_iff [where 'a = "32 word"] bit_simps bit_2_iff)

lemma mk_cqe_bid [simp]: "cqe_bid (mk_cqe t r b m) = b"
proof (cases b)
  case None
  then show ?thesis
    by (simp add: cqe_bid_def mk_cqe_def cqe_of_def mk_flags_def IORING_CQE_F_BUFFER_def
        IORING_CQE_F_MORE_def)
next
  case (Some bid)
  have buf: "mk_flags b m AND IORING_CQE_F_BUFFER \<noteq> 0"
    using Some by (simp add: mk_flags_def IORING_CQE_F_BUFFER_def IORING_CQE_F_MORE_def and_1_neq_0
        bit_simps)
  have "ucast (drop_bit 16 (mk_flags b m)) = bid"
    using Some by (intro bit_word_eqI)
      (auto simp: mk_flags_def IORING_CQE_F_BUFFER_def IORING_CQE_F_MORE_def bit_simps bit_numeral_rec)
  with buf Some show ?thesis
    by (simp add: cqe_bid_def mk_cqe_def cqe_of_def IORING_CQE_BUFFER_SHIFT_def)
qed

lemma mk_cqe_more [simp]: "cqe_more (mk_cqe t r b m) = m"
  by (cases b) (auto simp: cqe_more_def mk_cqe_def cqe_of_def mk_flags_def IORING_CQE_F_BUFFER_def
      IORING_CQE_F_MORE_def and_2_neq_0 bit_simps)

lemma mk_cqe_result [simp]: "cqe_result (mk_cqe t r b m) = r"
  by (simp add: mk_cqe_def cqe_of_def)

lemma mk_cqe_type: "wf_optype t \<Longrightarrow> cqe_type (mk_cqe t r b m) = t"
  by (simp add: cqe_type_def mk_cqe_def cqe_of_def optype_of_byte_byte)

lemma mk_cqe_types [simp]:
  "cqe_type (mk_cqe RECV r b m) = RECV" "cqe_type (mk_cqe SEND r b m) = SEND"
  "cqe_type (mk_cqe READ r b m) = READ" "cqe_type (mk_cqe WRITE r b m) = WRITE"
  "cqe_type (mk_cqe TIMEOUT r b m) = TIMEOUT" "cqe_type (mk_cqe NONE r b m) = NONE"
  by (simp_all add: mk_cqe_type wf_optype_def)

lemma mk_cqe_ok [simp]: "cqe_ok (mk_cqe t r b m) \<longleftrightarrow> 0 \<le> sint r"
  by (simp add: cqe_ok_def)

text \<open>
  The accessors of a completion entry recover what the kernel put into it: the buffer id in
  the upper half of the flags word when the buffer flag is set and none otherwise, the more flag,
  and the result, with the error number the negated result of a failed completion.
\<close>

theorem cqe_fields:
  "cqe_bid (mk_cqe t r b m) = b \<and> cqe_more (mk_cqe t r b m) = m \<and>
   (cqe_ok (mk_cqe t r b m) = (0 \<le> sint r)) \<and>
   cqe_error (mk_cqe t r b m) = (if 0 \<le> sint r then 0 else - r)"
  by (simp add: cqe_error_def)

end
