(* ===== verification/Frame_Header.thy ===== *)
theory Frame_Header
  imports Zp_Error
begin

text \<open>
  The 16-byte frame header (\<open>include/zportal/session/frame_header.hpp\<close>, \<open>frame_header.inl\<close>).
  The fields are stored with \<open>htobe32\<close> and \<open>memcpy\<close>, so the model has the byte order of the host
  as a parameter; the wire format does not depend on it (C6).
\<close>

section \<open>Words in memory\<close>

primrec le_bytes :: "nat \<Rightarrow> 'a::len word \<Rightarrow> u8 list" where
  "le_bytes 0 w = []"
| "le_bytes (Suc n) w = ucast w # le_bytes n (drop_bit 8 w)"

primrec le_val :: "u8 list \<Rightarrow> 'a::len word" where
  "le_val [] = 0"
| "le_val (b # bs) = ucast b OR push_bit 8 (le_val bs)"

datatype endian = Little_endian | Big_endian

definition load32 :: "endian \<Rightarrow> u8 list \<Rightarrow> u32" where
  "load32 e bs = (case e of Little_endian \<Rightarrow> le_val bs | Big_endian \<Rightarrow> le_val (rev bs))"

definition store32 :: "endian \<Rightarrow> u32 \<Rightarrow> u8 list" where
  "store32 e v = (case e of Little_endian \<Rightarrow> le_bytes 4 v | Big_endian \<Rightarrow> rev (le_bytes 4 v))"

definition swap32 :: "u32 \<Rightarrow> u32" where
  "swap32 v = le_val (rev (le_bytes 4 v))"

definition be32toh :: "endian \<Rightarrow> u32 \<Rightarrow> u32" where
  "be32toh e v = (case e of Little_endian \<Rightarrow> swap32 v | Big_endian \<Rightarrow> v)"

definition htobe32 :: "endian \<Rightarrow> u32 \<Rightarrow> u32" where
  "htobe32 e v = (case e of Little_endian \<Rightarrow> swap32 v | Big_endian \<Rightarrow> v)"

section \<open>The header object\<close>

definition magic_number :: u32 where "magic_number = 0x5A505254"
definition wire_size :: nat where "wire_size = 16"

record frame_header =
  hdr_data :: "u8 list"

definition get_u32 :: "endian \<Rightarrow> nat \<Rightarrow> frame_header \<Rightarrow> u32" where
  "get_u32 e off h = be32toh e (load32 e (slice_of off 4 (hdr_data h)))"

definition set_u32 :: "endian \<Rightarrow> nat \<Rightarrow> u32 \<Rightarrow> frame_header \<Rightarrow> frame_header" where
  "set_u32 e off v h = h\<lparr>hdr_data := store_at off (store32 e (htobe32 e v)) (hdr_data h)\<rparr>"

definition new_header :: "endian \<Rightarrow> frame_header" where
  "new_header e = set_u32 e 0 magic_number \<lparr>hdr_data = replicate wire_size 0\<rparr>"

definition is_magic_valid :: "endian \<Rightarrow> frame_header \<Rightarrow> bool" where
  "is_magic_valid e h \<longleftrightarrow> get_u32 e 0 h = magic_number"

definition get_flags :: "endian \<Rightarrow> frame_header \<Rightarrow> u32" where "get_flags e h = get_u32 e 4 h"
definition set_flags :: "endian \<Rightarrow> u32 \<Rightarrow> frame_header \<Rightarrow> frame_header" where
  "set_flags e v h = set_u32 e 4 v h"
definition get_size :: "endian \<Rightarrow> frame_header \<Rightarrow> u32" where "get_size e h = get_u32 e 8 h"
definition set_size :: "endian \<Rightarrow> u32 \<Rightarrow> frame_header \<Rightarrow> frame_header" where
  "set_size e v h = set_u32 e 8 v h"
definition get_crc :: "endian \<Rightarrow> frame_header \<Rightarrow> u32" where "get_crc e h = get_u32 e 12 h"
definition set_crc :: "endian \<Rightarrow> u32 \<Rightarrow> frame_header \<Rightarrow> frame_header" where
  "set_crc e v h = set_u32 e 12 v h"

section \<open>Bytes and words\<close>

lemma length_le_bytes [simp]: "length (le_bytes n w) = n"
  by (induction n arbitrary: w) simp_all

lemma bit_le_val: "bit (le_val bs :: 'a::len word) n \<longleftrightarrow>
    n < LENGTH('a) \<and> n div 8 < length bs \<and> bit (bs ! (n div 8)) (n mod 8)"
proof (induction bs arbitrary: n)
  case Nil
  then show ?case by simp
next
  case (Cons b bs)
  show ?case
  proof (cases "n < 8")
    case True
    then show ?thesis by (auto simp: bit_simps)
  next
    case False
    then have "n div 8 = Suc ((n - 8) div 8)" "n mod 8 = (n - 8) mod 8"
      using le_div_geq [of 8 n] le_mod_geq [of 8 n] by simp_all
    moreover have "\<not> bit b n"
      using False bit_imp_le_length [of b n] by auto
    ultimately show ?thesis
      using False Cons.IH [of "n - 8"] by (auto simp: bit_simps)
  qed
qed

lemma nth_le_bytes: "i < n \<Longrightarrow> le_bytes n w ! i = ucast (drop_bit (8 * i) w)"
proof (induction n arbitrary: w i)
  case 0
  then show ?case by simp
next
  case (Suc n)
  then show ?case
    by (cases i) (auto simp: drop_bit_drop_bit add.commute)
qed

lemma le_val_bytes: "LENGTH('a) \<le> 8 * n \<Longrightarrow> le_val (le_bytes n (w :: 'a::len word)) = w"
  by (rule bit_word_eqI) (auto simp: bit_le_val nth_le_bytes bit_simps)

lemma le_bytes_val:
  assumes "8 * length bs \<le> LENGTH('a)" and "n = length bs"
  shows "le_bytes n (le_val bs :: 'a::len word) = bs"
proof (rule nth_equalityI)
  show "length (le_bytes n (le_val bs :: 'a word)) = length bs"
    using assms by simp
  fix i
  assume "i < length (le_bytes n (le_val bs :: 'a word))"
  then have i: "i < length bs"
    using assms by simp
  show "le_bytes n (le_val bs :: 'a word) ! i = bs ! i"
    using assms i by (intro bit_word_eqI) (auto simp: nth_le_bytes bit_simps bit_le_val)
qed

lemma swap32_swap32 [simp]: "swap32 (swap32 v) = v"
proof -
  have "le_bytes 4 (swap32 v) = rev (le_bytes 4 v)"
    by (simp add: swap32_def le_bytes_val)
  then have "swap32 (swap32 v) = le_val (le_bytes 4 v)"
    by (simp add: swap32_def)
  then show ?thesis
    by (simp add: le_val_bytes)
qed

text \<open>The big-endian reading of four bytes, and its inverse: what the wire format specifies.\<close>

definition be_val :: "u8 list \<Rightarrow> u32" where "be_val bs = le_val (rev bs)"
definition be_bytes :: "u32 \<Rightarrow> u8 list" where "be_bytes v = rev (le_bytes 4 v)"

lemma length_be_bytes [simp]: "length (be_bytes v) = 4"
  by (simp add: be_bytes_def)

lemma be_val_bytes [simp]: "be_val (be_bytes v) = v"
  by (simp add: be_val_def be_bytes_def le_val_bytes)

lemma be_bytes_val: "length bs = 4 \<Longrightarrow> be_bytes (be_val bs) = bs"
  by (simp add: be_val_def be_bytes_def le_bytes_val)

lemma store32_htobe32 [simp]: "store32 e (htobe32 e v) = be_bytes v"
  by (cases e) (simp_all add: store32_def htobe32_def be_bytes_def swap32_def le_bytes_val)

lemma be32toh_load32: "length bs = 4 \<Longrightarrow> be32toh e (load32 e bs) = be_val bs"
  by (cases e) (simp_all add: be32toh_def load32_def be_val_def swap32_def le_bytes_val)

section \<open>Properties\<close>

definition wf_header :: "frame_header \<Rightarrow> bool" where
  "wf_header h \<longleftrightarrow> length (hdr_data h) = wire_size"

lemma get_u32_be: "wf_header h \<Longrightarrow> off + 4 \<le> wire_size \<Longrightarrow>
    get_u32 e off h = be_val (slice_of off 4 (hdr_data h))"
  by (simp add: get_u32_def wf_header_def be32toh_load32)

lemma set_u32_be: "set_u32 e off v h = h\<lparr>hdr_data := store_at off (be_bytes v) (hdr_data h)\<rparr>"
  by (simp add: set_u32_def)

lemma wf_set_u32: "wf_header h \<Longrightarrow> off + 4 \<le> wire_size \<Longrightarrow> wf_header (set_u32 e off v h)"
  by (simp add: wf_header_def set_u32_be length_store_at)

lemma get_set_u32_same: "wf_header h \<Longrightarrow> off + 4 \<le> wire_size \<Longrightarrow> get_u32 e off (set_u32 e' off v h) = v"
  by (simp add: get_u32_be wf_set_u32)
    (simp add: set_u32_be slice_of_store_at_same wf_header_def)

lemma get_set_u32_other: "wf_header h \<Longrightarrow> a + 4 \<le> wire_size \<Longrightarrow> b + 4 \<le> wire_size \<Longrightarrow>
    a + 4 \<le> b \<or> b + 4 \<le> a \<Longrightarrow> get_u32 e a (set_u32 e' b v h) = get_u32 e a h"
  by (simp add: get_u32_be wf_set_u32)
    (simp add: set_u32_be slice_of_store_at_disjoint wf_header_def)

lemma wf_new_header: "wf_header (new_header e)"
  by (simp add: new_header_def wf_header_def wire_size_def set_u32_be length_store_at)

text \<open>The header that the transmitter builds, and the bytes it puts on the wire.\<close>

definition make_header :: "endian \<Rightarrow> u32 \<Rightarrow> u32 \<Rightarrow> frame_header" where
  "make_header e sz crc = set_crc e crc (set_size e sz (new_header e))"

definition wire_header :: "u32 \<Rightarrow> u32 \<Rightarrow> u8 list" where
  "wire_header sz crc = be_bytes magic_number @ be_bytes 0 @ be_bytes sz @ be_bytes crc"

lemma length_wire_header [simp]: "length (wire_header sz crc) = wire_size"
  by (simp add: wire_header_def wire_size_def)

lemma be_bytes_0: "be_bytes 0 = [0, 0, 0, 0]"
  by (simp add: be_bytes_def numeral_eq_Suc)

lemma make_header_data: "hdr_data (make_header e sz crc) = wire_header sz crc"
  by (simp add: make_header_def new_header_def set_crc_def set_size_def set_u32_be store_at_def
      wire_header_def wire_size_def be_bytes_0 numeral_eq_Suc)

text \<open>
  A header built as the transmitter builds it is the four big-endian fields of the documented
  wire format in order, is accepted by the magic check, and gives back the size and the checksum
  that were set, with the flags word zero.
\<close>

theorem make_header_fields:
  "hdr_data (make_header e sz crc) = wire_header sz crc \<and>
   is_magic_valid e (make_header e sz crc) \<and> get_flags e (make_header e sz crc) = 0 \<and>
   get_size e (make_header e sz crc) = sz \<and> get_crc e (make_header e sz crc) = crc"
proof -
  have "wf_header (make_header e sz crc)"
    by (simp add: wf_header_def make_header_data)
  moreover have "be_val [0, 0, 0, 0] = 0"
    using be_val_bytes [of 0] by (simp add: be_bytes_0)
  ultimately show ?thesis
    by (simp add: is_magic_valid_def get_flags_def get_size_def get_crc_def get_u32_be
        make_header_data wire_size_def)
      (simp add: wire_header_def slice_of_def be_bytes_0)
qed

text \<open>
  The wire format does not depend on the byte order of the host: on any sixteen bytes, hosts
  of both byte orders read the same fields, and setting a field writes the same bytes.
\<close>

theorem header_host_independent:
  assumes "length (hdr_data h) = wire_size"
  shows "is_magic_valid e h = is_magic_valid e' h \<and> get_flags e h = get_flags e' h \<and>
    get_size e h = get_size e' h \<and> get_crc e h = get_crc e' h \<and>
    set_flags e v h = set_flags e' v h \<and> set_size e v h = set_size e' v h \<and>
    set_crc e v h = set_crc e' v h"
  using assms
  by (simp add: is_magic_valid_def get_flags_def get_size_def get_crc_def set_flags_def set_size_def
      set_crc_def get_u32_be wf_header_def wire_size_def set_u32_be)

theorem header_host_independent_witness:
  "get_size Little_endian (new_header Big_endian) = get_size Big_endian (new_header Big_endian)"
  using header_host_independent [of "new_header Big_endian" Little_endian Big_endian 0] wf_new_header
  by (simp add: wf_header_def)

end
