(* ===== verification/Crc32c.thy ===== *)
theory Crc32c
  imports Frame_Header
begin

text \<open>
  The checksum of a frame's payload (\<open>src/tools/crc.cpp\<close>): the portable bitwise loop, the
  SSE4.2 routine with its alignment prologue and its 8-, 4- and 1-byte loops, and the three
  overloads that choose between them. The intrinsics are the processor's: they are fields of
  \<^theory_text>\<open>cpu\<close>, and the locale \<^theory_text>\<open>crc32_instruction\<close> states what the instruction set manual
  documents about them, the remainder of a polynomial division over GF(2).
\<close>

section \<open>The portable routine\<close>

definition poly :: u32 where "poly = 0x82F63B78"

definition crc_bit :: "u32 \<Rightarrow> u32" where
  "crc_bit crc = (let mask = - (crc AND 1) in drop_bit 1 crc XOR (poly AND mask))"

primrec crc_bits :: "nat \<Rightarrow> u32 \<Rightarrow> u32" where
  "crc_bits 0 crc = crc"
| "crc_bits (Suc i) crc = crc_bits i (crc_bit crc)"

definition crc_byte :: "u32 \<Rightarrow> u8 \<Rightarrow> u32" where
  "crc_byte crc b = crc_bits 8 (crc XOR ucast b)"

definition crc32c_software :: "u32 \<Rightarrow> u8 list \<Rightarrow> u32" where
  "crc32c_software crc data = foldl crc_byte crc data"

section \<open>The SSE4.2 routine\<close>

record cpu =
  mm_crc32_u8 :: "u32 \<Rightarrow> u8 \<Rightarrow> u32"
  mm_crc32_u32 :: "u32 \<Rightarrow> u32 \<Rightarrow> u32"
  mm_crc32_u64 :: "u64 \<Rightarrow> u64 \<Rightarrow> u64"
  is_x86 :: bool
  is_x86_64 :: bool
  cpuid_sse42 :: bool

text \<open>A span of memory: the address of its first byte, and its bytes.\<close>

type_synonym span = "u64 \<times> u8 list"

fun hw_align :: "cpu \<Rightarrow> u64 \<Rightarrow> u32 \<Rightarrow> u8 list \<Rightarrow> u32 \<times> u8 list" where
  "hw_align M ptr crc [] = (crc, [])"
| "hw_align M ptr crc (b # bs) =
     (if ptr AND 7 \<noteq> 0 then hw_align M (ptr + 1) (mm_crc32_u8 M crc b) bs else (crc, b # bs))"

function hw_words64 :: "cpu \<Rightarrow> u64 \<Rightarrow> u8 list \<Rightarrow> u64 \<times> u8 list" where
  "hw_words64 M c64 data =
     (if length data \<ge> 8 then hw_words64 M (mm_crc32_u64 M c64 (le_val (take 8 data))) (drop 8 data)
      else (c64, data))"
  by pat_completeness auto
termination
  by (relation "measure (\<lambda>(M, c, data). length data)") auto

function hw_words32 :: "cpu \<Rightarrow> u32 \<Rightarrow> u8 list \<Rightarrow> u32 \<times> u8 list" where
  "hw_words32 M crc data =
     (if length data \<ge> 4 then hw_words32 M (mm_crc32_u32 M crc (le_val (take 4 data))) (drop 4 data)
      else (crc, data))"
  by pat_completeness auto
termination
  by (relation "measure (\<lambda>(M, c, data). length data)") auto

declare hw_words64.simps [simp del] hw_words32.simps [simp del]

definition crc32c_hardware :: "cpu \<Rightarrow> u32 \<Rightarrow> span \<Rightarrow> u32" where
  "crc32c_hardware M crc sp =
     (let (crc, data) =
        (if is_x86_64 M
         then (let (crc, data) = hw_align M (fst sp) crc (snd sp);
                   (c64, data) = hw_words64 M (ucast crc) data
               in (ucast c64, data))
         else (crc, snd sp));
        (crc, data) = hw_words32 M crc data
      in foldl (mm_crc32_u8 M) crc data)"

section \<open>The overloads\<close>

definition crc_segment :: "cpu \<Rightarrow> u32 \<Rightarrow> span \<Rightarrow> u32" where
  "crc_segment M crc sp =
     (if is_x86 M \<and> cpuid_sse42 M then crc32c_hardware M crc sp else crc32c_software crc (snd sp))"

definition crc32c_span :: "cpu \<Rightarrow> span \<Rightarrow> u32" where
  "crc32c_span M sp = crc_segment M 0xFFFFFFFF sp XOR 0xFFFFFFFF"

definition crc32c_spans :: "cpu \<Rightarrow> span list \<Rightarrow> u32" where
  "crc32c_spans M sps = foldl (crc_segment M) 0xFFFFFFFF sps XOR 0xFFFFFFFF"

text \<open>The checksum as a function of the bytes alone.\<close>

definition crc32c_of :: "u8 list \<Rightarrow> u32" where
  "crc32c_of bs = crc32c_software 0xFFFFFFFF bs XOR 0xFFFFFFFF"

section \<open>What the instruction computes\<close>

text \<open>
  Remainder by the Castagnoli polynomial \<open>11EDC6F41h\<close>: long division over GF(2) of a dividend
  with \<open>32 + n\<close> bits, from the leading bit down.
\<close>

definition castagnoli :: "96 word" where "castagnoli = 0x11EDC6F41"

definition div_step :: "nat \<Rightarrow> 96 word \<Rightarrow> 96 word" where
  "div_step k d = (if bit d (32 + k) then d XOR push_bit k castagnoli else d)"

primrec gf2_mod :: "nat \<Rightarrow> 96 word \<Rightarrow> 96 word" where
  "gf2_mod 0 d = d"
| "gf2_mod (Suc k) d = gf2_mod k (div_step k d)"

definition reflected_mod :: "nat \<Rightarrow> 96 word \<Rightarrow> u32" where
  "reflected_mod n d = word_reverse (ucast (gf2_mod n d))"

definition crc32_u8 :: "u32 \<Rightarrow> u8 \<Rightarrow> u32" where
  "crc32_u8 c v =
     reflected_mod 8 (push_bit 32 (ucast (word_reverse v)) XOR push_bit 8 (ucast (word_reverse c)))"

definition crc32_u32 :: "u32 \<Rightarrow> u32 \<Rightarrow> u32" where
  "crc32_u32 c v =
     reflected_mod 32 (push_bit 32 (ucast (word_reverse v)) XOR push_bit 32 (ucast (word_reverse c)))"

definition crc32_u64 :: "u64 \<Rightarrow> u64 \<Rightarrow> u64" where
  "crc32_u64 c v = ucast (reflected_mod 64
     (push_bit 32 (ucast (word_reverse v)) XOR push_bit 64 (ucast (word_reverse (ucast c :: u32)))))"

section \<open>The bitwise loop is polynomial division\<close>

lemma crc_bit_alt: "crc_bit c = drop_bit 1 c XOR (if bit c 0 then poly else 0)"
  by (cases "bit c 0") (simp_all add: crc_bit_def Let_def and_one_eq bit_0 odd_iff_mod_2_eq_one
      even_iff_mod_2_eq_zero)

text \<open>One step of the register that shifts left, as the unreflected definition has it.\<close>

definition left_step :: "u32 \<Rightarrow> u32" where
  "left_step r = push_bit 1 r XOR (if bit r 31 then 0x1EDC6F41 else 0)"

lemma word_reverse_poly: "word_reverse poly = 0x1EDC6F41"
  by code_simp

lemma word_reverse_xor: "word_reverse (a XOR b) = word_reverse a XOR word_reverse (b :: 'a::len word)"
  by (rule bit_word_eqI) (simp add: bit_simps)

lemma word_reverse_0 [simp]: "word_reverse (0 :: 'a::len word) = 0"
  by (rule bit_word_eqI) (simp add: bit_simps)

lemma bit_u32_less: "bit (c :: u32) n \<Longrightarrow> n < 32"
  using bit_imp_le_length [of c n] by simp

lemma bit_u32_below_31: "bit (c :: u32) (n - Suc 0) \<Longrightarrow> \<not> bit c 31 \<Longrightarrow> n < 32"
  using bit_u32_less [of c "n - Suc 0"] by (cases "n = 32") auto

lemma left_step_reverse: "left_step (word_reverse c) = word_reverse (crc_bit c)"
proof -
  have "push_bit 1 (word_reverse c) = word_reverse (drop_bit 1 c)"
  proof (rule bit_word_eqI)
    fix n
    assume n: "n < LENGTH(32)"
    show "bit (push_bit 1 (word_reverse c)) n = bit (word_reverse (drop_bit 1 c)) n"
    proof (cases n)
      case 0
      then show ?thesis
        by (auto simp: bit_simps simp del: push_bit_Suc dest: bit_u32_less)
    next
      case (Suc m)
      then have "Suc (30 - m) = 31 - m"
        using n by simp
      with Suc n show ?thesis
        by (auto simp: bit_simps simp del: push_bit_Suc)
    qed
  qed
  moreover have "bit (word_reverse c) 31 = bit c 0"
    by (simp add: bit_simps)
  ultimately show ?thesis
    by (simp add: left_step_def crc_bit_alt word_reverse_xor word_reverse_poly del: push_bit_Suc)
qed

lemma div_step_0: "div_step 0 (push_bit 1 (ucast r)) = ucast (left_step r)"
proof -
  have c: "castagnoli = push_bit 32 1 XOR ucast (0x1EDC6F41 :: u32)"
    by (simp add: castagnoli_def)
  have s: "push_bit 1 (ucast r :: 96 word) =
      ucast (push_bit 1 r) XOR (if bit r 31 then push_bit 32 1 else 0)"
    by (rule bit_word_eqI) (auto simp: bit_simps less_Suc_eq simp del: push_bit_of_1 push_bit_Suc dest: bit_u32_less bit_u32_below_31)
  have u: "ucast (a XOR b) = (ucast a XOR ucast b :: 96 word)" for a b :: u32
    by (rule bit_word_eqI) (auto simp: bit_simps)
  have "bit (push_bit 1 (ucast r :: 96 word)) 32 = bit r 31"
    by (simp add: bit_simps del: push_bit_Suc)
  then show ?thesis
    unfolding div_step_def s
    by (auto simp: c left_step_def u xor.assoc xor.left_commute simp del: push_bit_of_1 push_bit_Suc)
qed

text \<open>Reducing the \<open>j\<close> leading bits above position \<open>32 + k\<close>.\<close>

primrec reduce :: "nat \<Rightarrow> nat \<Rightarrow> 96 word \<Rightarrow> 96 word" where
  "reduce 0 k d = d"
| "reduce (Suc j) k d = reduce j k (div_step (j + k) d)"

lemma gf2_mod_reduce: "gf2_mod n d = reduce n 0 d"
  by (induction n arbitrary: d) simp_all

lemma reduce_add: "reduce (j + i) k d = reduce i k (reduce j (i + k) d)"
  by (induction j arbitrary: d) (simp_all add: add.assoc)

lemma div_step_push: "32 + k + m < 96 \<Longrightarrow> div_step (k + m) (push_bit m d) = push_bit m (div_step k d)"
  by (auto simp: div_step_def push_bit_xor push_bit_push_bit bit_push_bit_iff add.commute add.left_commute)

lemma reduce_push: "32 + j + k + m \<le> 96 \<Longrightarrow> reduce j (k + m) (push_bit m d) = push_bit m (reduce j k d)"
  by (induction j arbitrary: d) (simp_all add: div_step_push add.assoc [symmetric])

lemma reduce_xor:
  assumes "\<And>i. bit u i \<Longrightarrow> i < 32 + k"
  shows "reduce j k (d XOR u) = reduce j k d XOR u"
proof (induction j arbitrary: d)
  case 0
  then show ?case by simp
next
  case (Suc j)
  have "\<not> bit u (32 + (j + k))"
    using assms [of "32 + (j + k)"] by auto
  then have "div_step (j + k) (d XOR u) = div_step (j + k) d XOR u"
    by (auto simp: div_step_def bit_xor_iff xor.assoc xor.commute xor.left_commute)
  then show ?case
    by (simp add: Suc.IH)
qed

lemma reduce_left_steps: "n \<le> 64 \<Longrightarrow> reduce n 0 (push_bit n (ucast r)) = ucast ((left_step ^^ n) r)"
proof (induction n arbitrary: r)
  case 0
  then show ?case by simp
next
  case (Suc n)
  have "div_step n (push_bit (Suc n) (ucast r)) = push_bit n (div_step 0 (push_bit 1 (ucast r)))"
    using div_step_push [of 0 n "push_bit 1 (ucast r)"] Suc.prems
    by (simp add: push_bit_push_bit del: push_bit_Suc)
  with Suc show ?case
    by (simp add: div_step_0 [unfolded One_nat_def] funpow_Suc_right del: push_bit_Suc funpow.simps)
qed

lemma left_steps_reverse: "(left_step ^^ n) (word_reverse c) = word_reverse (crc_bits n c)"
  by (induction n arbitrary: c) (simp_all add: funpow_Suc_right left_step_reverse del: funpow.simps(2))

lemma reflected_mod_bits:
  assumes "n \<le> 64"
  shows "reflected_mod n (push_bit n (ucast (word_reverse c))) = crc_bits n c"
proof -
  have "word_reverse (ucast (ucast (word_reverse (crc_bits n c)) :: 96 word)) = crc_bits n c"
    by (rule bit_word_eqI) (auto simp: bit_simps)
  then show ?thesis
    using assms
    by (simp add: reflected_mod_def gf2_mod_reduce reduce_left_steps left_steps_reverse)
qed

text \<open>The register after \<open>n\<close> steps, when the dividend's low part has not entered it yet.\<close>

lemma crc_bit_xor: "\<not> bit z 0 \<Longrightarrow> crc_bit (c XOR z) = crc_bit c XOR drop_bit 1 z"
  by (simp add: crc_bit_alt bit_xor_iff drop_bit_xor xor.assoc xor.commute xor.left_commute)

lemma crc_bits_xor: "take_bit n z = 0 \<Longrightarrow> crc_bits n (c XOR z) = crc_bits n c XOR drop_bit n z"
proof (induction n arbitrary: c z)
  case 0
  then show ?case by simp
next
  case (Suc n)
  have "\<not> bit (take_bit (Suc n) z) 0"
    using Suc.prems by simp
  then have "\<not> bit z 0"
    by (simp add: bit_take_bit_iff)
  moreover have "take_bit n (drop_bit 1 z) = drop_bit 1 (take_bit (Suc n) z)"
    by (simp add: drop_bit_take_bit)
  ultimately show ?case
    using Suc by (simp add: crc_bit_xor del: take_bit_Suc)
qed

lemma crc_bits_add: "crc_bits (m + n) c = crc_bits n (crc_bits m c)"
  by (induction m arbitrary: c) simp_all

lemma crc_bits_bytes:
  "crc_bits (8 * k) (c XOR v) = foldl crc_byte c (le_bytes k v) XOR drop_bit (8 * k) v"
proof (induction k arbitrary: c v)
  case 0
  then show ?case by simp
next
  case (Suc k)
  let ?low = "ucast (ucast v :: u8) :: u32"
  define z where "z = v XOR ?low"
  have z: "take_bit 8 z = 0" "drop_bit 8 z = drop_bit 8 v" "c XOR v = (c XOR ?low) XOR z"
    by (auto intro!: bit_word_eqI simp: z_def bit_simps)
  have "crc_bits 8 (c XOR v) = crc_byte c (ucast v) XOR drop_bit 8 v"
    using z by (simp add: crc_bits_xor crc_byte_def)
  then have "crc_bits (8 * Suc k) (c XOR v) = crc_bits (8 * k) (crc_byte c (ucast v) XOR drop_bit 8 v)"
    using crc_bits_add [of 8 "8 * k"] by simp
  then show ?case
    by (simp add: Suc.IH add.commute)
qed

lemma reverse_byte:
  "push_bit 32 (ucast (word_reverse (v :: u8))) = (push_bit 8 (ucast (word_reverse (ucast v :: u32))) :: 96 word)"
proof (rule bit_word_eqI)
  fix n
  assume "n < LENGTH(96)"
  have v: "bit v i \<Longrightarrow> i < 8" for i
    using bit_imp_le_length [of v i] by simp
  show "bit (push_bit 32 (ucast (word_reverse v)) :: 96 word) n =
      bit (push_bit 8 (ucast (word_reverse (ucast v :: u32))) :: 96 word) n"
  proof (cases "n < 32")
    case True
    then show ?thesis
      using v [of "39 - n"] by (auto simp: bit_simps)
  next
    case False
    then have "39 - n = 7 - (n - 32)"
      by simp
    with False show ?thesis
      by (auto simp: bit_simps)
  qed
qed

lemma ucast_xor_96: "ucast (a XOR b) = (ucast a XOR ucast b :: 96 word)"
  for a b :: u32
  by (rule bit_word_eqI) (auto simp: bit_simps)

lemma crc32_u8_byte: "crc32_u8 c v = crc_byte c v"
proof -
  have "push_bit 32 (ucast (word_reverse v)) XOR push_bit 8 (ucast (word_reverse c)) =
      (push_bit 8 (ucast (word_reverse (c XOR ucast v))) :: 96 word)"
    by (simp only: reverse_byte word_reverse_xor ucast_xor_96 push_bit_xor xor.commute)
  then show ?thesis
    by (simp add: crc32_u8_def crc_byte_def reflected_mod_bits)
qed

lemma crc32_u32_bytes: "crc32_u32 c v = foldl crc_byte c (le_bytes 4 v)"
proof -
  have "push_bit 32 (ucast (word_reverse v)) XOR push_bit 32 (ucast (word_reverse c)) =
      push_bit 32 (ucast (word_reverse (c XOR v)) :: 96 word)"
    by (rule bit_word_eqI) (auto simp: bit_simps)
  moreover have "drop_bit 32 v = 0"
    by (rule bit_word_eqI) (simp add: bit_simps)
  ultimately show ?thesis
    using crc_bits_bytes [of 4 c v] by (simp add: crc32_u32_def reflected_mod_bits)
qed

lemma crc32_u32_bits: "crc32_u32 c v = crc_bits 32 (c XOR v)"
proof -
  have "push_bit 32 (ucast (word_reverse v)) XOR push_bit 32 (ucast (word_reverse c)) =
      push_bit 32 (ucast (word_reverse (c XOR v)) :: 96 word)"
    by (rule bit_word_eqI) (auto simp: bit_simps)
  then show ?thesis
    by (simp add: crc32_u32_def reflected_mod_bits)
qed

lemma reverse_u64:
  "(ucast (word_reverse (v :: u64)) :: 96 word) =
     push_bit 32 (ucast (word_reverse (ucast v :: u32))) XOR ucast (word_reverse (ucast (drop_bit 32 v) :: u32))"
proof (rule bit_word_eqI)
  fix n
  assume "n < LENGTH(96)"
  show "bit (ucast (word_reverse v) :: 96 word) n = bit (push_bit 32 (ucast (word_reverse (ucast v :: u32)))
      XOR ucast (word_reverse (ucast (drop_bit 32 v) :: u32)) :: 96 word) n"
  proof (cases "n < 32")
    case True
    then have "32 + (31 - n) = 63 - n"
      by simp
    with True show ?thesis
      by (auto simp: bit_simps)
  next
    case False
    then have "31 - (n - 32) = 63 - n"
      by simp
    with False show ?thesis
      by (auto simp: bit_simps)
  qed
qed

lemma crc32_u64_halves:
  "crc32_u64 c v = ucast (crc32_u32 (crc32_u32 (ucast c) (ucast v)) (ucast (drop_bit 32 v)))"
proof -
  let ?c = "ucast c :: u32" and ?lo = "ucast v :: u32" and ?hi = "ucast (drop_bit 32 v) :: u32"
  let ?A = "ucast (word_reverse (?c XOR ?lo)) :: 96 word"
  let ?u = "push_bit 32 (ucast (word_reverse ?hi)) :: 96 word"
  let ?X = "crc_bits 32 (?c XOR ?lo)"
  have D: "push_bit 32 (ucast (word_reverse v)) XOR push_bit 64 (ucast (word_reverse ?c)) =
      push_bit 32 (push_bit 32 ?A) XOR ?u"
    by (simp only: reverse_u64 word_reverse_xor ucast_xor_96 push_bit_xor push_bit_push_bit
        xor.commute xor.left_commute) (simp add: ac_simps)
  have "reduce 32 32 (push_bit 32 (push_bit 32 ?A) XOR ?u) = reduce 32 32 (push_bit 32 (push_bit 32 ?A)) XOR ?u"
    by (rule reduce_xor) (auto simp: bit_simps)
  also have "reduce 32 32 (push_bit 32 (push_bit 32 ?A)) = push_bit 32 (ucast (word_reverse ?X))"
    using reduce_push [of 32 0 32 "push_bit 32 ?A"]
    by (simp add: reduce_left_steps left_steps_reverse)
  also have "\<dots> XOR ?u = push_bit 32 (ucast (word_reverse (?X XOR ?hi)))"
    by (simp only: word_reverse_xor ucast_xor_96 push_bit_xor)
  finally have "gf2_mod 64 (push_bit 32 (push_bit 32 ?A) XOR ?u) =
      gf2_mod 32 (push_bit 32 (ucast (word_reverse (?X XOR ?hi))))"
    using reduce_add [of 32 32 0 "push_bit 32 (push_bit 32 ?A) XOR ?u"] by (simp add: gf2_mod_reduce)
  then have "reflected_mod 64 (push_bit 32 (push_bit 32 ?A) XOR ?u) = crc_bits 32 (?X XOR ?hi)"
    using reflected_mod_bits [of 32 "?X XOR ?hi"] by (simp add: reflected_mod_def)
  then show ?thesis
    by (simp only: crc32_u64_def D crc32_u32_bits)
qed

lemma le_bytes_add: "le_bytes (m + n) w = le_bytes m w @ le_bytes n (drop_bit (8 * m) w)"
  by (induction m arbitrary: w) (simp_all add: drop_bit_drop_bit add.commute)

lemma le_bytes_ucast: "8 * n \<le> LENGTH('b) \<Longrightarrow> 8 * n \<le> LENGTH('a) \<Longrightarrow>
    le_bytes n (ucast (w :: 'a::len word) :: 'b::len word) = le_bytes n w"
  by (rule nth_equalityI) (auto simp: nth_le_bytes intro!: bit_word_eqI simp: bit_simps)

lemma crc32_u64_bytes: "ucast (crc32_u64 c v) = foldl crc_byte (ucast c) (le_bytes 8 v)"
proof -
  have "le_bytes 8 v = le_bytes 4 (ucast v :: u32) @ le_bytes 4 (ucast (drop_bit 32 v) :: u32)"
    using le_bytes_add [of 4 4 v] by (simp add: le_bytes_ucast)
  moreover have "ucast (ucast x :: u64) = (x :: u32)" for x
    by (rule bit_word_eqI) (simp add: bit_simps)
  ultimately show ?thesis
    by (simp add: crc32_u64_halves crc32_u32_bytes)
qed

section \<open>The instruction as an interface\<close>

text \<open>
  The laws that the hardware routine relies on: the documented result of each instruction. The
  routine's lemma is proved from them alone.
\<close>

locale crc32_instruction =
  fixes i8 :: "u32 \<Rightarrow> u8 \<Rightarrow> u32"
    and i32 :: "u32 \<Rightarrow> u32 \<Rightarrow> u32"
    and i64 :: "u64 \<Rightarrow> u64 \<Rightarrow> u64"
  assumes i8_documented: "i8 c b = crc32_u8 c b"
    and i32_documented: "i32 c v = crc32_u32 c v"
    and i64_documented: "i64 c64 v64 = crc32_u64 c64 v64"
begin

lemma i8_fold: "foldl i8 c bs = crc32c_software c bs"
  by (induction bs arbitrary: c) (simp_all add: i8_documented crc32_u8_byte crc32c_software_def)

lemma i32_load: "length bs = 4 \<Longrightarrow> i32 c (le_val bs) = crc32c_software c bs"
  by (simp add: i32_documented crc32_u32_bytes le_bytes_val crc32c_software_def)

lemma i64_load: "length bs = 8 \<Longrightarrow> ucast (i64 c (le_val bs)) = crc32c_software (ucast c) bs"
  by (simp add: i64_documented crc32_u64_bytes le_bytes_val crc32c_software_def)

end

definition wf_cpu :: "cpu \<Rightarrow> bool" where
  "wf_cpu M \<longleftrightarrow> crc32_instruction (mm_crc32_u8 M) (mm_crc32_u32 M) (mm_crc32_u64 M)"

text \<open>A processor whose instructions are the documented ones.\<close>

definition sse42_cpu :: cpu where
  "sse42_cpu = \<lparr>mm_crc32_u8 = crc32_u8, mm_crc32_u32 = crc32_u32, mm_crc32_u64 = crc32_u64,
                is_x86 = True, is_x86_64 = True, cpuid_sse42 = True\<rparr>"

interpretation documented: crc32_instruction crc32_u8 crc32_u32 crc32_u64
  by unfold_locales simp_all

lemma wf_sse42_cpu: "wf_cpu sse42_cpu"
  by (simp add: wf_cpu_def sse42_cpu_def documented.crc32_instruction_axioms)

section \<open>The routines agree\<close>

lemma crc32c_software_append: "crc32c_software c (xs @ ys) = crc32c_software (crc32c_software c xs) ys"
  by (simp add: crc32c_software_def)

lemma hw_align_software:
  assumes "wf_cpu M" and "hw_align M ptr c bs = (c', bs')"
  shows "crc32c_software c' bs' = crc32c_software c bs"
  using assms
proof (induction M ptr c bs rule: hw_align.induct)
  case (1 M ptr crc)
  then show ?case by simp
next
  case (2 M ptr crc b bs)
  then show ?case
    by (auto simp: crc32c_software_def wf_cpu_def crc32_instruction.i8_documented crc32_u8_byte
        split: if_splits)
qed

lemma hw_words64_software:
  assumes "wf_cpu M" and "hw_words64 M c bs = (c', bs')"
  shows "crc32c_software (ucast c') bs' = crc32c_software (ucast c) bs"
  using assms
proof (induction M c bs rule: hw_words64.induct)
  case (1 M c bs)
  show ?case
  proof (cases "8 \<le> length bs")
    case True
    have "ucast (mm_crc32_u64 M c (le_val (take 8 bs))) = crc32c_software (ucast c) (take 8 bs)"
      using "1.prems"(1) True by (simp add: wf_cpu_def crc32_instruction.i64_load)
    then show ?thesis
      using 1 True crc32c_software_append [of "ucast c" "take 8 bs" "drop 8 bs"]
      by (simp add: hw_words64.simps [of M c bs])
  next
    case False
    then show ?thesis
      using 1 by (simp add: hw_words64.simps [of M c bs])
  qed
qed

lemma hw_words32_software:
  assumes "wf_cpu M" and "hw_words32 M c bs = (c', bs')"
  shows "crc32c_software c' bs' = crc32c_software c bs"
  using assms
proof (induction M c bs rule: hw_words32.induct)
  case (1 M c bs)
  show ?case
  proof (cases "4 \<le> length bs")
    case True
    have "mm_crc32_u32 M c (le_val (take 4 bs)) = crc32c_software c (take 4 bs)"
      using "1.prems"(1) True by (simp add: wf_cpu_def crc32_instruction.i32_load)
    then show ?thesis
      using 1 True crc32c_software_append [of c "take 4 bs" "drop 4 bs"]
      by (simp add: hw_words32.simps [of M c bs])
  next
    case False
    then show ?thesis
      using 1 by (simp add: hw_words32.simps [of M c bs])
  qed
qed

lemma hardware_eq_software':
  assumes "wf_cpu M"
  shows "crc32c_hardware M crc sp = crc32c_software crc (snd sp)"
proof -
  have u: "ucast (ucast x :: u64) = (x :: u32)" for x
    by (rule bit_word_eqI) (simp add: bit_simps)
  obtain c1 d1 where al: "hw_align M (fst sp) crc (snd sp) = (c1, d1)"
    by fastforce
  obtain c2 d2 where w64: "hw_words64 M (ucast c1) d1 = (c2, d2)"
    by fastforce
  define c3 d3 where "c3 = (if is_x86_64 M then ucast c2 else crc)" and "d3 = (if is_x86_64 M then d2 else snd sp)"
  obtain c4 d4 where w32: "hw_words32 M c3 d3 = (c4, d4)"
    by fastforce
  have "crc32c_software c4 d4 = crc32c_software c3 d3"
    using hw_words32_software [OF assms w32] .
  also have "\<dots> = crc32c_software crc (snd sp)"
    using hw_words64_software [OF assms w64] hw_align_software [OF assms al]
    by (simp add: c3_def d3_def u)
  finally show ?thesis
    using al w64 w32 crc32_instruction.i8_fold [OF assms [unfolded wf_cpu_def]]
    by (auto simp: crc32c_hardware_def Let_def c3_def d3_def split: if_splits)
qed

text \<open>
  C25: on every buffer, at every alignment and on both x86 targets, the SSE4.2 routine computes
  the same register as the portable bit loop, given the documented instruction (polynomial
  division by the Castagnoli polynomial). Two peers may therefore choose either routine.
\<close>

theorem hardware_eq_software:
  assumes "wf_cpu M"
  shows "crc32c_hardware M crc sp = crc32c_software crc (snd sp)"
  using assms by (rule hardware_eq_software')

theorem hardware_eq_software_witness:
  "wf_cpu sse42_cpu \<and>
   crc32c_hardware sse42_cpu 0xFFFFFFFF (3, [1, 2, 3]) = crc32c_software 0xFFFFFFFF [1, 2, 3]"
  using hardware_eq_software [OF wf_sse42_cpu, of "0xFFFFFFFF" "(3, [1, 2, 3])"] wf_sse42_cpu by simp

lemma crc_segment_software [simp]: "wf_cpu M \<Longrightarrow> crc_segment M c sp = crc32c_software c (snd sp)"
  by (simp add: crc_segment_def hardware_eq_software')

lemma foldl_crc_segment:
  "wf_cpu M \<Longrightarrow> foldl (crc_segment M) c sps = crc32c_software c (concat (map snd sps))"
  by (induction sps arbitrary: c) (simp_all add: crc32c_software_append, simp add: crc32c_software_def)

lemma crc32c_spans_of: "wf_cpu M \<Longrightarrow> crc32c_spans M sps = crc32c_of (concat (map snd sps))"
  by (simp add: crc32c_spans_def crc32c_of_def foldl_crc_segment)

lemma crc32c_span_of: "wf_cpu M \<Longrightarrow> crc32c_span M sp = crc32c_of (snd sp)"
  by (simp add: crc32c_span_def crc32c_of_def)

text \<open>
  C26: the three overloads agree: the checksum of a list of segments is the checksum of their
  concatenation, however the bytes are cut into segments and wherever these lie in memory; empty
  segments do not matter. This is what lets the receiver check a frame that arrived in pieces
  against the checksum that the transmitter computed over one buffer.
\<close>

theorem crc32c_segments:
  assumes "wf_cpu M"
  shows "crc32c_spans M sps = crc32c_of (concat (map snd sps)) \<and>
    crc32c_span M (ptr, concat (map snd sps)) = crc32c_of (concat (map snd sps))"
  using assms by (simp add: crc32c_spans_of crc32c_span_of)

theorem crc32c_segments_witness:
  "wf_cpu sse42_cpu \<and>
   crc32c_spans sse42_cpu [(5, [1]), (64, []), (9, [2, 3])] = crc32c_of [1, 2, 3]"
  using crc32c_segments [OF wf_sse42_cpu, of "[(5, [1]), (64, []), (9, [2, 3])]"] wf_sse42_cpu by simp

section \<open>Error detection\<close>

lemma xor_right_cancel_word: "a XOR z = b XOR z \<longleftrightarrow> a = (b :: 'a::len word)"
proof
  assume "a XOR z = b XOR z"
  then have "(a XOR z) XOR z = (b XOR z) XOR z"
    by simp
  then show "a = b"
    by (simp add: xor.assoc)
qed simp

lemma xor_left_cancel_word: "z XOR a = z XOR b \<longleftrightarrow> a = (b :: 'a::len word)"
  using xor_right_cancel_word [of a z b] by (simp add: xor.commute)

lemma crc_bit_msb: "bit (crc_bit c) 31 = bit c 0"
proof -
  have "bit poly 31"
    by (simp add: poly_def)
  then show ?thesis
    using bit_u32_less [of c 32] by (auto simp: crc_bit_alt bit_simps)
qed

lemma crc_bit_inj: "crc_bit a = crc_bit b \<Longrightarrow> a = b"
proof (rule bit_word_eqI)
  fix n
  assume eq: "crc_bit a = crc_bit b" and "n < LENGTH(32)"
  have zero: "bit a 0 = bit b 0"
    using eq by (metis crc_bit_msb)
  then have "drop_bit 1 a = drop_bit 1 b"
    using eq by (auto simp: crc_bit_alt xor_right_cancel_word split: if_splits)
  then have "bit (drop_bit 1 a) (n - 1) = bit (drop_bit 1 b) (n - 1)"
    by simp
  then show "bit a n = bit b n"
    using zero by (cases n) (simp_all add: bit_drop_bit_eq)
qed

lemma crc_bits_inj: "crc_bits n a = crc_bits n b \<Longrightarrow> a = b"
  by (induction n arbitrary: a b) (auto dest: crc_bit_inj)

lemma crc_byte_inj: "crc_byte a v = crc_byte b v \<Longrightarrow> a = b"
  by (auto simp: crc_byte_def xor_right_cancel_word dest!: crc_bits_inj)

lemma crc32c_software_inj: "crc32c_software a bs = crc32c_software b bs \<Longrightarrow> a = b"
  by (induction bs arbitrary: a b) (auto simp: crc32c_software_def dest!: crc_byte_inj)

lemma crc32c_software_short:
  assumes "length zs \<le> 4"
  shows "crc32c_software c zs = crc_bits (8 * length zs) (c XOR le_val zs)"
proof -
  have "drop_bit (8 * length zs) (le_val zs :: u32) = 0"
    by (rule bit_word_eqI) (auto simp: bit_simps bit_le_val)
  moreover have "le_bytes (length zs) (le_val zs :: u32) = zs"
    using assms by (simp add: le_bytes_val)
  ultimately show ?thesis
    by (simp only: crc_bits_bytes crc32c_software_def xor.right_neutral)
qed

lemma le_val_inj:
  assumes "length xs = length ys" and "length xs \<le> 4" and "le_val xs = (le_val ys :: u32)"
  shows "xs = ys"
proof -
  have "8 * length xs \<le> LENGTH(32)"
    using assms(2) by simp
  then have "le_bytes (length xs) (le_val xs :: u32) = xs"
    by (rule le_bytes_val) simp
  moreover have "le_bytes (length ys) (le_val ys :: u32) = ys"
    using \<open>8 * length xs \<le> LENGTH(32)\<close> by (intro le_bytes_val) (simp_all only: assms(1))
  ultimately show ?thesis
    by (metis assms(1,3))
qed

lemma crc32c_software_burst:
  assumes "length xs = length ys" and "length xs \<le> 4"
    and "crc32c_software c xs = crc32c_software c ys"
  shows "xs = ys"
proof (rule le_val_inj [OF assms(1,2)])
  have "crc_bits (8 * length xs) (c XOR le_val xs) = crc_bits (8 * length xs) (c XOR le_val ys)"
    using assms by (simp add: crc32c_software_short)
  then show "le_val xs = (le_val ys :: u32)"
    by (auto simp: xor_left_cancel_word dest: crc_bits_inj)
qed

text \<open>
  C31: the checksum detects every burst error of up to four consecutive bytes: two payloads that
  differ only inside such a window never have the same checksum.
\<close>

theorem crc32c_detects_burst:
  assumes "length xs = length ys" and "length xs \<le> 4" and "xs \<noteq> ys"
  shows "crc32c_of (pre @ xs @ post) \<noteq> crc32c_of (pre @ ys @ post)"
proof
  assume "crc32c_of (pre @ xs @ post) = crc32c_of (pre @ ys @ post)"
  then have "crc32c_software 0xFFFFFFFF (pre @ xs @ post) = crc32c_software 0xFFFFFFFF (pre @ ys @ post)"
    by (simp add: crc32c_of_def xor_right_cancel_word)
  then have "crc32c_software (crc32c_software 0xFFFFFFFF pre) xs = crc32c_software (crc32c_software 0xFFFFFFFF pre) ys"
    by (auto simp: crc32c_software_append dest: crc32c_software_inj)
  then show False
    using assms crc32c_software_burst by blast
qed

theorem crc32c_detects_burst_witness:
  "crc32c_of ([7] @ [1, 2] @ [9]) \<noteq> crc32c_of ([7] @ [1, 3] @ [9])"
  by (rule crc32c_detects_burst) simp_all

end
