(* ===== verification/Address.thy ===== *)
theory Address
  imports Zp_Error Frame_Header "HOL-Library.Char_ord"
begin

text \<open>
  Socket addresses and host names (\<open>include/zportal/net/address.hpp\<close>, \<open>src/net/address/address.cpp\<close>).
  A \<open>sockaddr_storage\<close> is its family and the 126 bytes after it, in the layouts of \<open>sockaddr_in\<close>,
  \<open>sockaddr_in6\<close> and \<open>sockaddr_un\<close>. The conversions of the system's library are parameters.
\<close>

section \<open>Exceptions\<close>

datatype cpp_exception =
    Invalid_argument string
  | Logic_error string
  | Runtime_error string
  | System_error string
  | Out_of_range string

type_synonym 'a throws = "cpp_exception + 'a"

section \<open>Characters\<close>

definition byte_of_char :: "char \<Rightarrow> u8" where "byte_of_char c = of_nat (of_char c)"
definition char_of_byte :: "u8 \<Rightarrow> char" where "char_of_byte b = char_of (unat b)"

lemma char_of_byte_of_char [simp]: "char_of_byte (byte_of_char c) = c"
  by (simp add: char_of_byte_def byte_of_char_def unat_of_nat)

lemma byte_of_char_of_byte [simp]: "byte_of_char (char_of_byte b) = b"
  using unat_less_pow [of b] by (simp add: char_of_byte_def byte_of_char_def)

text \<open>\<open>std::isprint\<close> in the \<open>"C"\<close> locale.\<close>

definition is_print :: "u8 \<Rightarrow> bool" where
  "is_print b \<longleftrightarrow> 0x20 \<le> b \<and> b \<le> 0x7E"

definition is_binary :: "u8 list \<Rightarrow> bool" where
  "is_binary data \<longleftrightarrow> (\<exists>b \<in> set data. \<not> is_print b)"

definition hex_digit :: "u8 \<Rightarrow> char" where
  "hex_digit v = ''0123456789ABCDEF'' ! unat v"

definition to_hex :: "u8 list \<Rightarrow> string" where
  "to_hex data = concat (map (\<lambda>b. [hex_digit (drop_bit 4 b AND 0xF), hex_digit (b AND 0xF)]) data)"

text \<open>A string as the C functions see it: up to the first zero.\<close>

definition c_str :: "string \<Rightarrow> string" where
  "c_str s = takeWhile (\<lambda>c. byte_of_char c \<noteq> 0) s"

section \<open>The system's address formats\<close>

definition AF_UNSPEC :: u16 where "AF_UNSPEC = 0"
definition AF_UNIX :: u16 where "AF_UNIX = 1"
definition AF_INET :: u16 where "AF_INET = 2"
definition AF_INET6 :: u16 where "AF_INET6 = 10"

lemmas families = AF_UNSPEC_def AF_UNIX_def AF_INET_def AF_INET6_def

definition sizeof_sockaddr_in :: nat where "sizeof_sockaddr_in = 16"
definition sizeof_sockaddr_in6 :: nat where "sizeof_sockaddr_in6 = 28"
definition sizeof_sockaddr_un :: nat where "sizeof_sockaddr_un = 110"
definition sizeof_sockaddr_storage :: nat where "sizeof_sockaddr_storage = 128"
definition offset_sun_path :: nat where "offset_sun_path = 2"
definition sizeof_sun_path :: nat where "sizeof_sun_path = 108"

lemmas sockaddr_sizes = sizeof_sockaddr_in_def sizeof_sockaddr_in6_def sizeof_sockaddr_un_def
  sizeof_sockaddr_storage_def offset_sun_path_def sizeof_sun_path_def

text \<open>A \<open>sockaddr\<close> in the memory of the system: its family and the bytes after it.\<close>

record raw_sockaddr =
  rs_family :: u16
  rs_data :: "u8 list"

record addrinfo =
  ai_family :: int
  ai_addr :: "raw_sockaddr option"
  ai_addrlen :: nat

record net_lib =
  inet_pton4 :: "string \<Rightarrow> int \<times> u8 list"
  inet_ntop :: "u16 \<Rightarrow> u8 list \<Rightarrow> string option"
  numeric_host6 :: "string \<Rightarrow> int \<times> addrinfo option"
  if_indextoname :: "u32 \<Rightarrow> string option"
  gai_strerror :: "int \<Rightarrow> string"
  host_order :: endian

section \<open>SockAddress\<close>

record sock_address =
  ss_family :: u16
  ss_data :: "u8 list"
  sa_length :: nat

definition empty_address :: sock_address where
  "empty_address = \<lparr>ss_family = AF_UNSPEC, ss_data = replicate 126 0, sa_length = 0\<rparr>"

text \<open>Fields of the layouts: \<open>sin_port\<close> and \<open>sin6_port\<close>, the addresses, the scope id.\<close>

definition port_bytes :: "sock_address \<Rightarrow> u8 list" where "port_bytes a = slice_of 0 2 (ss_data a)"
definition ip4_bytes :: "sock_address \<Rightarrow> u8 list" where "ip4_bytes a = slice_of 2 4 (ss_data a)"
definition ip6_bytes :: "sock_address \<Rightarrow> u8 list" where "ip6_bytes a = slice_of 6 16 (ss_data a)"
definition scope_bytes :: "sock_address \<Rightarrow> u8 list" where "scope_bytes a = slice_of 22 4 (ss_data a)"

definition ntohs :: "u8 list \<Rightarrow> nat" where "ntohs bs = unat (be_val bs)"
definition htons :: "u16 \<Rightarrow> u8 list" where "htons v = rev (le_bytes 2 v)"

definition sun_path :: "sock_address \<Rightarrow> u8 list" where "sun_path a = take sizeof_sun_path (ss_data a)"

definition is_abstract :: "sock_address \<Rightarrow> bool" where "is_abstract a \<longleftrightarrow> sun_path a ! 0 = 0"

definition is_valid :: "sock_address \<Rightarrow> bool" where
  "is_valid a =
     (if ss_family a = AF_INET then sa_length a = sizeof_sockaddr_in
      else if ss_family a = AF_INET6 then sa_length a = sizeof_sockaddr_in6
      else if ss_family a = AF_UNIX then
        (if sa_length a < offset_sun_path + 1 then False
         else if sa_length a > sizeof_sockaddr_un then False
         else if \<not> is_abstract a \<and> sa_length a < offset_sun_path + 2 then False
         else True)
      else False)"

definition is_link_local :: "u8 list \<Rightarrow> bool" where
  "is_link_local b \<longleftrightarrow> b ! 0 = 0xFE \<and> b ! 1 AND 0xC0 = 0x80"

definition is_connectable :: "sock_address \<Rightarrow> bool" where
  "is_connectable a =
     (if \<not> is_valid a then False
      else if ss_family a = AF_INET then ip4_bytes a \<noteq> replicate 4 0 \<and> port_bytes a \<noteq> replicate 2 0
      else if ss_family a = AF_INET6 then
        ip6_bytes a \<noteq> replicate 16 0 \<and> ip6_bytes a ! 0 \<noteq> 0xFF \<and> port_bytes a \<noteq> replicate 2 0
        \<and> (\<not> is_link_local (ip6_bytes a) \<or> scope_bytes a \<noteq> replicate 4 0)
      else if ss_family a = AF_UNIX then True
      else False)"

definition is_bindable :: "sock_address \<Rightarrow> bool" where "is_bindable a = is_valid a"

definition is_ip :: "sock_address \<Rightarrow> bool" where
  "is_ip a \<longleftrightarrow> is_valid a \<and> (ss_family a = AF_INET \<or> ss_family a = AF_INET6)"

definition is_unix :: "sock_address \<Rightarrow> bool" where
  "is_unix a \<longleftrightarrow> is_valid a \<and> ss_family a = AF_UNIX"

definition address_get :: "sock_address \<Rightarrow> sock_address throws" where
  "address_get a = (if \<not> is_valid a then Inl (Logic_error ''invalid address'') else Inr a)"

section \<open>Printing\<close>

definition str_ip4 :: "net_lib \<Rightarrow> bool \<Rightarrow> sock_address \<Rightarrow> string throws" where
  "str_ip4 N extended a =
     (case inet_ntop N AF_INET (ip4_bytes a) of
        None \<Rightarrow> Inl (System_error ''inet_ntop'')
      | Some ip \<Rightarrow> Inr (if \<not> extended then ip else ip @ '':'' @ decimal (ntohs (port_bytes a))))"

definition str_ip6 :: "net_lib \<Rightarrow> bool \<Rightarrow> sock_address \<Rightarrow> string throws" where
  "str_ip6 N extended a =
     (case inet_ntop N AF_INET6 (ip6_bytes a) of
        None \<Rightarrow> Inl (System_error ''inet_ntop'')
      | Some ip \<Rightarrow>
         (let scope = load32 (host_order N) (scope_bytes a);
              buffer = (if extended then ''['' else []) @ ip;
              buffer = (if is_link_local (ip6_bytes a) \<and> scope \<noteq> 0
                        then buffer @ ''%'' @ (case if_indextoname N scope of
                               None \<Rightarrow> decimal (unat scope) | Some name \<Rightarrow> name)
                        else buffer)
          in Inr (if \<not> extended then buffer else buffer @ '']:'' @ decimal (ntohs (port_bytes a)))))"

definition str_unix :: "bool \<Rightarrow> sock_address \<Rightarrow> string throws" where
  "str_unix extended a =
     (let abstract = is_abstract a;
          size = sa_length a - 1 - offset_sun_path;
          data = slice_of (if abstract then 1 else 0) size (sun_path a);
          binary = is_binary data
      in if \<not> abstract \<and> binary then Inl (Logic_error ''invalid address'')
         else Inr ((if extended then (if abstract then ''unixa:'' else ''unix:'') else [])
                   @ (if binary then to_hex data else map char_of_byte data)))"

definition address_str :: "net_lib \<Rightarrow> bool \<Rightarrow> sock_address \<Rightarrow> string throws" where
  "address_str N extended a =
     (if \<not> is_valid a then Inl (Logic_error ''unspecified address'')
      else if ss_family a = AF_INET then str_ip4 N extended a
      else if ss_family a = AF_INET6 then str_ip6 N extended a
      else if ss_family a = AF_UNIX then str_unix extended a
      else Inl (Runtime_error (''unsupported address family: '' @ decimal (unat (ss_family a)))))"

section \<open>Making addresses\<close>

definition is_supported_family :: "u16 \<Rightarrow> bool" where
  "is_supported_family f \<longleftrightarrow> f = AF_INET \<or> f = AF_INET6 \<or> f = AF_UNIX"

text \<open>
  \<open>memcpy\<close> of \<open>len\<close> bytes into an empty \<open>sockaddr_storage\<close>. A single byte is the first byte of the
  family.
\<close>

definition copy_sockaddr :: "endian \<Rightarrow> raw_sockaddr \<Rightarrow> nat \<Rightarrow> sock_address" where
  "copy_sockaddr e s len =
     \<lparr>ss_family = (if len \<ge> 2 then rs_family s
                   else case e of Little_endian \<Rightarrow> rs_family s AND 0xFF | Big_endian \<Rightarrow> rs_family s AND 0xFF00),
      ss_data = take (len - 2) (rs_data s) @ replicate (126 - (len - 2)) 0, sa_length = len\<rparr>"

definition from_sockaddr :: "endian \<Rightarrow> raw_sockaddr option \<Rightarrow> nat \<Rightarrow> sock_address throws" where
  "from_sockaddr e s len =
     (case s of
        None \<Rightarrow> Inl (Invalid_argument ''addr is null'')
      | Some s \<Rightarrow>
         if len = 0 \<or> len > sizeof_sockaddr_storage then Inl (Invalid_argument ''invalid socklen'')
         else if \<not> is_supported_family (rs_family s) then Inl (Invalid_argument ''unsupported family'')
         else if rs_family s = AF_INET \<and> len \<noteq> sizeof_sockaddr_in then Inl (Invalid_argument ''invalid socklen'')
         else if rs_family s = AF_INET6 \<and> len \<noteq> sizeof_sockaddr_in6 then Inl (Invalid_argument ''invalid socklen'')
         else Inr (copy_sockaddr e s len))"

definition ip4_numeric :: "net_lib \<Rightarrow> string \<Rightarrow> u16 \<Rightarrow> sock_address throws" where
  "ip4_numeric N numeric port =
     (let (result, ip) = inet_pton4 N (c_str numeric)
      in if result = - 1 then Inl (System_error ''inet_pton'')
         else if result = 0 then Inl (Runtime_error ''invalid IP4 presentation'')
         else Inr \<lparr>ss_family = AF_INET, ss_data = htons port @ ip @ replicate (126 - 2 - length ip) 0,
                   sa_length = sizeof_sockaddr_in\<rparr>)"

definition ip6_numeric :: "net_lib \<Rightarrow> string \<Rightarrow> u16 \<Rightarrow> sock_address throws" where
  "ip6_numeric N numeric port =
     (let (gai_result, result) = numeric_host6 N (c_str numeric)
      in if gai_result \<noteq> 0 then Inl (Runtime_error (''getaddrinfo() error: '' @ gai_strerror N gai_result))
         else (case result of
            None \<Rightarrow> Inl (Runtime_error ''unexpected behaviour from getaddrinfo()'')
          | Some r \<Rightarrow>
             (case ai_addr r of
                None \<Rightarrow> Inl (Runtime_error ''unexpected behaviour from getaddrinfo()'')
              | Some s \<Rightarrow>
                 if ai_family r \<noteq> uint AF_INET6 \<or> ai_addrlen r \<noteq> sizeof_sockaddr_in6
                 then Inl (Runtime_error ''unexpected behaviour from getaddrinfo()'')
                 else (let buffer = copy_sockaddr (host_order N) s (ai_addrlen r)
                       in Inr (buffer\<lparr>ss_data := store_at 0 (htons port) (ss_data buffer), sa_length := ai_addrlen r\<rparr>)))))"

definition unix_path :: "string \<Rightarrow> sock_address throws" where
  "unix_path path =
     (let bytes = map byte_of_char path
      in if length path > sizeof_sun_path - 1 then Inl (Invalid_argument ''unix path size is too long'')
         else if is_binary bytes then Inl (Invalid_argument ''unix path contains invalid characters'')
         else Inr \<lparr>ss_family = AF_UNIX, ss_data = store_at 0 (bytes @ [0]) (replicate 126 0),
                   sa_length = offset_sun_path + length path + 1\<rparr>)"

definition unix_abstract :: "u8 list \<Rightarrow> sock_address throws" where
  "unix_abstract name =
     (if length name > sizeof_sun_path - 1 then Inl (Invalid_argument ''unix name size is too long'')
      else Inr \<lparr>ss_family = AF_UNIX, ss_data = store_at 1 name (store_at 0 [0] (replicate 126 0)),
                sa_length = offset_sun_path + 1 + length name\<rparr>)"

definition unix_abstract_string :: "string \<Rightarrow> sock_address throws" where
  "unix_abstract_string name = unix_abstract (map byte_of_char name)"

section \<open>Host names\<close>

record host_pair =
  hp_hostname :: string
  hp_port :: u16

datatype address = Sock_address sock_address | Host_pair host_pair

definition host_pair_str :: "bool \<Rightarrow> host_pair \<Rightarrow> string" where
  "host_pair_str extended h =
     (if extended then hp_hostname h @ '':'' @ decimal (unat (hp_port h)) else hp_hostname h)"

definition address_to_string :: "net_lib \<Rightarrow> bool \<Rightarrow> address \<Rightarrow> string throws" where
  "address_to_string N extended a =
     (case a of Sock_address s \<Rightarrow> address_str N extended s | Host_pair h \<Rightarrow> Inr (host_pair_str extended h))"

section \<open>Addresses that the program makes\<close>

definition wf_address :: "sock_address \<Rightarrow> bool" where
  "wf_address a \<longleftrightarrow> length (ss_data a) = 126 \<and> sa_length a \<le> sizeof_sockaddr_storage"

text \<open>What the system's conversions are documented to do: an IPv4 address has four bytes.\<close>

definition wf_net_lib :: "net_lib \<Rightarrow> bool" where
  "wf_net_lib N \<longleftrightarrow> (\<forall>s. fst (inet_pton4 N s) \<in> {-1, 0, 1} \<and> length (snd (inet_pton4 N s)) = 4) \<and>
     (\<forall>s g r a. numeric_host6 N s = (g, Some r) \<longrightarrow> ai_addr r = Some a \<longrightarrow>
        rs_family a = word_of_int (ai_family r) \<and> length (rs_data a) + 2 = ai_addrlen r)"

lemma is_binary_append [simp]: "is_binary (xs @ ys) \<longleftrightarrow> is_binary xs \<or> is_binary ys"
  by (auto simp: is_binary_def)

lemma not_binary_zero: "\<not> is_binary bs \<Longrightarrow> 0 \<notin> set bs"
  by (auto simp: is_binary_def is_print_def)

lemma length_htons [simp]: "length (htons p) = 2"
  by (simp add: htons_def)

lemma unix_path_cases:
  assumes "unix_path p = Inr a"
  shows "wf_address a" "ss_family a = AF_UNIX" "sa_length a = length p + 3" "\<not> is_binary (map byte_of_char p)"
    "length p \<le> 107" "take (length p + 1) (sun_path a) = map byte_of_char p @ [0]"
  using assms by (auto simp: unix_path_def Let_def wf_address_def sockaddr_sizes store_at_def sun_path_def min_def split: if_splits)

lemma unix_abstract_cases:
  assumes "unix_abstract name = Inr a"
  shows "wf_address a" "ss_family a = AF_UNIX" "sa_length a = length name + 3" "length name \<le> 107"
    "take (length name + 1) (sun_path a) = 0 # name"
  using assms by (auto simp: unix_abstract_def wf_address_def sockaddr_sizes store_at_def sun_path_def min_def split: if_splits)

lemma is_abstract_nth: "n > 0 \<Longrightarrow> is_abstract a \<longleftrightarrow> take n (sun_path a) ! 0 = 0"
  by (simp add: is_abstract_def)

lemma unix_path_valid:
  assumes "unix_path p = Inr a" and "p \<noteq> []"
  shows "is_valid a" "\<not> is_abstract a"
proof -
  note u = unix_path_cases [OF assms(1)]
  show "\<not> is_abstract a"
    using u(6) assms(2) not_binary_zero [OF u(4)] is_abstract_nth [of "length p + 1" a]
    by (cases p) auto
  then show "is_valid a"
    using u assms(2) by (auto simp: is_valid_def families sockaddr_sizes Suc_le_eq)
qed

lemma unix_abstract_valid:
  assumes "unix_abstract name = Inr a"
  shows "is_valid a" "is_abstract a"
proof -
  note u = unix_abstract_cases [OF assms]
  show "is_abstract a"
    using u(5) is_abstract_nth [of "length name + 1" a] by auto
  then show "is_valid a"
    using u by (auto simp: is_valid_def families sockaddr_sizes)
qed

text \<open>Printing gives back the path or the name.\<close>

lemma str_unix_path:
  assumes "unix_path p = Inr a" and "p \<noteq> []"
  shows "address_str N extended a = Inr ((if extended then ''unix:'' else []) @ p)"
proof -
  note u = unix_path_cases [OF assms(1)] and v = unix_path_valid [OF assms]
  have "slice_of 0 (length p) (sun_path a) = map byte_of_char p"
    using arg_cong [OF u(6), of "take (length p)"] by (simp add: slice_of_def)
  then show ?thesis
    using u v by (simp add: address_str_def str_unix_def families sockaddr_sizes comp_def Let_def)
qed

lemma str_unix_abstract:
  assumes "unix_abstract name = Inr a"
  shows "address_str N extended a =
    Inr ((if extended then ''unixa:'' else []) @ (if is_binary name then to_hex name else map char_of_byte name))"
proof -
  note u = unix_abstract_cases [OF assms] and v = unix_abstract_valid [OF assms]
  have "slice_of 1 (length name) (sun_path a) = name"
    using arg_cong [OF u(5), of "drop 1"] by (simp add: slice_of_def drop_take)
  then show ?thesis
    using u v by (simp add: address_str_def str_unix_def families sockaddr_sizes Let_def)
qed

lemma ip4_numeric_cases:
  assumes "ip4_numeric N s p = Inr a" and "wf_net_lib N"
  shows "wf_address a" "is_valid a" "ss_family a = AF_INET" "ip4_bytes a = snd (inet_pton4 N (c_str s))" "port_bytes a = htons p"
proof -
  have "length (snd (inet_pton4 N (c_str s))) = 4"
    using assms(2) by (simp add: wf_net_lib_def)
  then show "wf_address a" "is_valid a" "ss_family a = AF_INET" "ip4_bytes a = snd (inet_pton4 N (c_str s))" "port_bytes a = htons p"
    using assms(1)
    by (auto simp: ip4_numeric_def wf_address_def is_valid_def families sockaddr_sizes ip4_bytes_def port_bytes_def
        slice_of_def split: if_splits prod.splits)
qed

lemma ip6_numeric_cases:
  assumes "ip6_numeric N s p = Inr a" and "wf_net_lib N"
  shows "wf_address a" "is_valid a" "ss_family a = AF_INET6" "port_bytes a = htons p"
proof -
  obtain gr r sa where r: "numeric_host6 N (c_str s) = (gr, Some r)" "ai_addr r = Some sa"
    "ai_family r = uint AF_INET6" "ai_addrlen r = sizeof_sockaddr_in6"
    and a: "a = (copy_sockaddr (host_order N) sa (ai_addrlen r))
        \<lparr>ss_data := store_at 0 (htons p) (ss_data (copy_sockaddr (host_order N) sa (ai_addrlen r))), sa_length := ai_addrlen r\<rparr>"
    using assms(1) by (auto simp: ip6_numeric_def Let_def split: if_splits prod.splits option.splits)
  have "rs_family sa = word_of_int (ai_family r)" "length (rs_data sa) + 2 = ai_addrlen r"
    using assms(2) r(1,2) unfolding wf_net_lib_def by blast+
  then have "rs_family sa = AF_INET6" "length (rs_data sa) = 26"
    using r(3,4) by (simp_all add: sockaddr_sizes)
  then show "wf_address a" "is_valid a" "ss_family a = AF_INET6" "port_bytes a = htons p"
    using r(4) by (auto simp: a wf_address_def is_valid_def families sockaddr_sizes copy_sockaddr_def port_bytes_def
        store_at_def slice_of_def min_def)
qed

lemma from_sockaddr_cases:
  assumes "from_sockaddr e s len = Inr a"
  shows "sa_length a = len" "0 < len" "len \<le> sizeof_sockaddr_storage"
    "len \<ge> 2 \<Longrightarrow> is_supported_family (ss_family a)"
    "len \<ge> 2 \<Longrightarrow> ss_family a = AF_INET \<Longrightarrow> len = sizeof_sockaddr_in"
    "len \<ge> 2 \<Longrightarrow> ss_family a = AF_INET6 \<Longrightarrow> len = sizeof_sockaddr_in6"
  using assms by (auto simp: from_sockaddr_def copy_sockaddr_def split: option.splits if_splits)

end
