(* ===== verification/Platform.thy ===== *)
theory Platform
  imports Cqe Crc32c Address
begin

text \<open>
  What the program runs on: the calls it makes to liburing, the system and the allocator, and the
  answers it gets. A call is recorded in the trace of the world, and its result is a function of
  the trace up to and including the call. Every function of this type is one possible behaviour
  of the outside, so a statement about all platforms is a statement about all of them. The calls
  themselves have no semantics here; what a theorem needs to know of them it states.
\<close>

section \<open>Memory that the kernel is pointed at\<close>

text \<open>
  The base of an \<open>iovec\<close>: an offset into the header of the frame in transmission, or an offset
  into the data of a buffer group.
\<close>

datatype mem_ptr = Header_mem nat | Buffer_mem nat

record iovec =
  iov_base :: mem_ptr
  iov_len :: nat

section \<open>Calls\<close>

datatype lib_call =
    Alloc
  | Io_uring_queue_init nat
  | Io_uring_queue_exit
  | Io_uring_get_sqe
  | Sqe_set_data64 u64
  | Sqe_prep_recv int
  | Sqe_prep_recv_multishot int
  | Sqe_prep_read int
  | Sqe_prep_read_multishot int u16
  | Sqe_prep_sendmsg int "iovec list"
  | Sqe_prep_writev int "iovec list"
  | Sqe_prep_timeout nat nat bool
  | Sqe_buffer_select u16
  | Io_uring_submit
  | Io_uring_wait_cqe
  | Io_uring_cqe_seen
  | Setup_buf_ring nat u16
  | Free_buf_ring nat u16
  | Posix_memalign nat nat
  | Buf_ring_init
  | Register_buf_ring nat u16
  | Unregister_buf_ring u16
  | Std_free
  | Buf_ring_mask nat
  | Buf_ring_add u16 nat nat u16 int int
  | Buf_ring_advance u16 nat
  | Sysconf_pagesize
  | Get_probe
  | Opcode_supported
  | Free_probe
  | Socketpair
  | Send_byte int
  | Close_fd int
  | Write_stdout string
  | Write_stderr string
  | Sys_socket u16 int int
  | Sys_connect int sock_address
  | Sys_bind int sock_address
  | Sys_listen int int
  | Sys_accept int int
  | Sys_reuseaddr int
  | Sys_getsockname int
  | Sys_getpeername int
  | Sys_send int "u8 list" int
  | Sys_recv int nat int
  | Sys_getaddrinfo string string
  | Sys_freeaddrinfo
  | Open_tun
  | Ioctl_tunsetiff int string
  | If_nametoindex string
  | Bind_netlink int
  | Sendmsg_netlink int "u8 list"
  | Std_terminate
  | Undefined_behaviour

text \<open>
  The answers: the result of a call; the entry that a wait returns; the bytes, the address or the
  name that a call writes to memory; the content of memory that was never initialised (a pointer
  being non-null, a buffer) and of an error object that holds none.
  \<open>errno_of\<close> is the value of \<open>errno\<close> after a failed call. The flags are the build's macros.
\<close>

record platform =
  sys :: "lib_call list \<Rightarrow> int"
  errno_of :: "lib_call list \<Rightarrow> int"
  sys_cqe :: "lib_call list \<Rightarrow> io_uring_cqe"
  new_fd :: "lib_call list \<Rightarrow> nat"
  pair_fd :: "lib_call list \<Rightarrow> nat \<times> nat"
  data_address :: "lib_call list \<Rightarrow> u64"
  indeterminate :: "lib_call list \<Rightarrow> bool"
  garbage_error :: "lib_call list \<Rightarrow> error"
  answer_bytes :: "lib_call list \<Rightarrow> u8 list"
  answer_address :: "lib_call list \<Rightarrow> raw_sockaddr \<times> nat"
  answer_name :: "lib_call list \<Rightarrow> string"
  answer_addrinfo :: "lib_call list \<Rightarrow> addrinfo option"
  stale_bytes :: "lib_call list \<Rightarrow> u8 list"
  net :: net_lib
  sizeof_stats64 :: nat
  sizeof_stats32 :: nat
  byte_order :: endian
  processor :: cpu
  HAVE_SETUP_BUF_RING :: bool
  HAVE_BUF_RING_INIT :: bool
  HAVE_PREP_READ_MULTISHOT :: bool
  HAVE_PREP_RECV_MULTISHOT :: bool
  HAVE_OP_READ_MULTISHOT :: bool
  HAVE_TIMEOUT_MULTISHOT :: bool

text \<open>The world: the calls made so far, and the static variables of the program.\<close>

record world =
  trace :: "lib_call list"
  read_multishot_cache :: "bool option"
  recv_multishot_cache :: "bool option"
  nl_seq :: u32
  monitor_device :: "nat option"

definition initial_world :: world where
  "initial_world = \<lparr>trace = [], read_multishot_cache = None, recv_multishot_cache = None,
     nl_seq = 1, monitor_device = None\<rparr>"

definition log_call :: "lib_call \<Rightarrow> world \<Rightarrow> world" where
  "log_call c w = w\<lparr>trace := trace w @ [c]\<rparr>"

definition call :: "platform \<Rightarrow> lib_call \<Rightarrow> world \<Rightarrow> int \<times> world" where
  "call P c w = (sys P (trace w @ [c]), log_call c w)"

text \<open>An allocation of a standard container; the result is false when it throws \<open>std::bad_alloc\<close>.\<close>

definition alloc :: "platform \<Rightarrow> world \<Rightarrow> bool \<times> world" where
  "alloc P w = (let (r, w) = call P Alloc w in (r = 0, w))"

text \<open>
  An exception that leaves a function that is \<open>noexcept\<close>: the process ends, which the trace records;
  the value that comes with it is never seen.
\<close>

definition terminated :: error where
  "terminated = Error EC_None"

definition terminate :: "world \<Rightarrow> 'a result \<times> world" where
  "terminate w = (Inl terminated, log_call Std_terminate w)"

text \<open>A read outside of an object, recorded in the same way.\<close>

definition undefined_behaviour :: "world \<Rightarrow> 'a result \<times> world" where
  "undefined_behaviour w = (Inl terminated, log_call Undefined_behaviour w)"

section \<open>Reading the trace\<close>

text \<open>The calls that an operation has added, and what they say about a buffer ring.\<close>

definition calls_since :: "world \<Rightarrow> world \<Rightarrow> lib_call list" where
  "calls_since w w' = drop (length (trace w)) (trace w')"

fun added_bid :: "u16 \<Rightarrow> lib_call \<Rightarrow> u16 list" where
  "added_bid g (Buf_ring_add g' off len bid msk slot) = (if g = g' then [bid] else [])"
| "added_bid g _ = []"

text \<open>The buffers given to the kernel through the ring of group \<open>g\<close>, in order.\<close>

definition returned_bids :: "u16 \<Rightarrow> lib_call list \<Rightarrow> u16 list" where
  "returned_bids g tr = concat (map (added_bid g) tr)"

lemma returned_bids_append [simp]: "returned_bids g (xs @ ys) = returned_bids g xs @ returned_bids g ys"
  by (simp add: returned_bids_def)

lemma returned_bids_Nil [simp]: "returned_bids g [] = []"
  by (simp add: returned_bids_def)

lemma returned_bids_Cons [simp]: "returned_bids g (c # tr) = added_bid g c @ returned_bids g tr"
  by (simp add: returned_bids_def)

text \<open>The trace only grows.\<close>

definition extends :: "world \<Rightarrow> world \<Rightarrow> bool" where
  "extends w w' \<longleftrightarrow> (\<exists>cs. trace w' = trace w @ cs)"

lemma extends_refl [simp, intro]: "extends w w"
  by (simp add: extends_def)

lemma extends_trans [trans]: "extends w w' \<Longrightarrow> extends w' w'' \<Longrightarrow> extends w w''"
  by (auto simp: extends_def)

lemma trace_log_call [simp]: "trace (log_call c w) = trace w @ [c]"
  by (simp add: log_call_def)

lemma call_simps [simp]: "fst (call P c w) = sys P (trace w @ [c])" "snd (call P c w) = log_call c w"
  by (simp_all add: call_def)

section \<open>A platform on which every call succeeds\<close>

text \<open>
  Used in witnesses: allocations succeed, pointers that calls return are non-null, counts are 1,
  and the processor is the documented one.
\<close>

definition friendly_sys :: "lib_call list \<Rightarrow> int" where
  "friendly_sys tr = (case last tr of Alloc \<Rightarrow> 0 | Posix_memalign a n \<Rightarrow> 0 | Sysconf_pagesize \<Rightarrow> 4096 | _ \<Rightarrow> 1)"

definition quiet_net :: net_lib where
  "quiet_net = \<lparr>inet_pton4 = (\<lambda>_. (0, [0, 0, 0, 0])), inet_ntop = (\<lambda>_ _. None), numeric_host6 = (\<lambda>_. (-2, None)),
     if_indextoname = (\<lambda>_. None), gai_strerror = (\<lambda>_. ''unknown''), host_order = Little_endian\<rparr>"

definition friendly :: platform where
  "friendly = \<lparr>sys = friendly_sys, errno_of = (\<lambda>_. 0),
     sys_cqe = (\<lambda>_. \<lparr>user_data = 0, res = 0, flags = 0\<rparr>), new_fd = (\<lambda>_. 3), pair_fd = (\<lambda>_. (4, 5)),
     data_address = (\<lambda>_. 4096), indeterminate = (\<lambda>_. False), garbage_error = (\<lambda>_. Error EC_None),
     answer_bytes = (\<lambda>_. []), answer_address = (\<lambda>_. (\<lparr>rs_family = AF_INET, rs_data = replicate 126 0\<rparr>, 16)),
     answer_name = (\<lambda>_. ''tun0''), answer_addrinfo = (\<lambda>_. None), stale_bytes = (\<lambda>_. []), net = quiet_net,
     sizeof_stats64 = 200, sizeof_stats32 = 96,
     byte_order = Little_endian, processor = sse42_cpu,
     HAVE_SETUP_BUF_RING = True, HAVE_BUF_RING_INIT = True, HAVE_PREP_READ_MULTISHOT = True,
     HAVE_PREP_RECV_MULTISHOT = True, HAVE_OP_READ_MULTISHOT = True, HAVE_TIMEOUT_MULTISHOT = True\<rparr>"

lemma friendly_fields [simp]:
  "sys friendly = friendly_sys" "byte_order friendly = Little_endian" "processor friendly = sse42_cpu"
  by (simp_all add: friendly_def)

end
