(* ===== verification/Buffer_Group.thy ===== *)
theory Buffer_Group
  imports Platform
begin

text \<open>
  Provided-buffer groups (\<open>include/zportal/iouring/buffer_group.hpp\<close>, \<open>src/iouring/buffer_group.cpp\<close>).
  A group owns one block of memory, cut into \<open>buffer_count_\<close> buffers of \<open>buffer_size_\<close> bytes, and a
  ring through which buffers are given to the kernel. Returning a buffer is two liburing calls,
  which appear in the trace.
\<close>

text \<open>Addresses of objects; \<open>None\<close> is the null pointer where a pointer can be null.\<close>

type_synonym addr = nat

record buffer_group =
  bg_ring :: addr
  bg_br :: bool
  bg_mask :: int
  bg_data :: "u8 list"
  bg_data_addr :: u64
  bg_size :: nat
  bg_bgid :: u16
  bg_buffer_count :: u16
  bg_buffer_size :: u32

text \<open>A span of bytes of the group's memory.\<close>

record buf_span =
  sp_off :: nat
  sp_len :: nat

definition bg_is_valid :: "buffer_group \<Rightarrow> bool" where
  "bg_is_valid g \<longleftrightarrow> bg_br g"

definition get_buffer_count :: "buffer_group \<Rightarrow> nat" where
  "get_buffer_count g = unat (bg_buffer_count g)"

definition get_buffer_size :: "buffer_group \<Rightarrow> u32" where
  "get_buffer_size g = bg_buffer_size g"

definition get_bgid :: "buffer_group \<Rightarrow> u16" where
  "get_bgid g = bg_bgid g"

definition get_buffer :: "buffer_group \<Rightarrow> u16 \<Rightarrow> u32 option \<Rightarrow> buf_span result" where
  "get_buffer g bid sz =
     (if \<not> bg_is_valid g then Inl (Error InvalidBufferGroup)
      else if bid \<ge> bg_buffer_count g then Inl (Error InvalidBid)
      else if (case sz of Some n \<Rightarrow> n > bg_buffer_size g | None \<Rightarrow> False) then Inl (Error InvalidSize)
      else Inr \<lparr>sp_off = unat bid * unat (bg_buffer_size g),
                sp_len = unat (case sz of Some n \<Rightarrow> n | None \<Rightarrow> bg_buffer_size g)\<rparr>)"

definition return_buffer :: "platform \<Rightarrow> buffer_group \<Rightarrow> u16 \<Rightarrow> world \<Rightarrow> unit result \<times> world" where
  "return_buffer P g bid w =
     (if \<not> bg_is_valid g then (Inl (Error InvalidBufferGroup), w)
      else if bid \<ge> bg_buffer_count g then (Inl (Error InvalidBid), w)
      else case get_buffer g bid None of
             Inl e \<Rightarrow> (Inl e, w)
           | Inr b \<Rightarrow>
               (let w = log_call (Buf_ring_add (bg_bgid g) (sp_off b) (sp_len b) bid (bg_mask g) 0) w;
                    w = log_call (Buf_ring_advance (bg_bgid g) 1) w
                in (Inr (), w)))"

text \<open>The destructor: a valid group gives its ring back.\<close>

definition destroy_group :: "platform \<Rightarrow> buffer_group \<Rightarrow> world \<Rightarrow> world" where
  "destroy_group P g w =
     (if \<not> bg_is_valid g then w
      else if HAVE_SETUP_BUF_RING P then log_call (Free_buf_ring (unat (bg_buffer_count g)) (bg_bgid g)) w
      else log_call Std_free (log_call (Unregister_buf_ring (bg_bgid g)) w))"

section \<open>The memory of a group\<close>

text \<open>Reading a span, and what the kernel does when it fills the front of a buffer.\<close>

definition span_bytes :: "buffer_group \<Rightarrow> nat \<Rightarrow> nat \<Rightarrow> u8 list" where
  "span_bytes g off n = slice_of off n (bg_data g)"

definition buffer_offset :: "buffer_group \<Rightarrow> u16 \<Rightarrow> nat" where
  "buffer_offset g bid = unat bid * unat (bg_buffer_size g)"

definition fill_buffer :: "u16 \<Rightarrow> u8 list \<Rightarrow> buffer_group \<Rightarrow> buffer_group" where
  "fill_buffer bid bs g = g\<lparr>bg_data := store_at (buffer_offset g bid) bs (bg_data g)\<rparr>"

text \<open>The shape that construction gives a group: memory for all its buffers, and a valid ring.\<close>

definition wf_group :: "buffer_group \<Rightarrow> bool" where
  "wf_group g \<longleftrightarrow> bg_br g \<and> length (bg_data g) = bg_size g \<and>
     bg_size g = unat (bg_buffer_count g) * unat (bg_buffer_size g)"

lemma get_buffer_Inr:
  "wf_group g \<Longrightarrow> bid < bg_buffer_count g \<Longrightarrow> n \<le> bg_buffer_size g \<Longrightarrow>
   get_buffer g bid (Some n) = Inr \<lparr>sp_off = buffer_offset g bid, sp_len = unat n\<rparr>"
  by (simp add: get_buffer_def wf_group_def bg_is_valid_def buffer_offset_def not_le [symmetric])

lemma get_buffer_InrD: "get_buffer g bid (Some n) = Inr b \<Longrightarrow>
   bid < bg_buffer_count g \<and> n \<le> bg_buffer_size g \<and> sp_off b = buffer_offset g bid \<and> sp_len b = unat n"
  by (auto simp: get_buffer_def buffer_offset_def not_le [symmetric] split: if_splits)

lemma buffer_in_data:
  assumes "wf_group g" and "bid < bg_buffer_count g"
  shows "buffer_offset g bid + unat (bg_buffer_size g) \<le> length (bg_data g)"
proof -
  have "Suc (unat bid) \<le> unat (bg_buffer_count g)"
    using assms(2) by (simp add: word_less_nat_alt)
  then have "Suc (unat bid) * unat (bg_buffer_size g) \<le> unat (bg_buffer_count g) * unat (bg_buffer_size g)"
    by (rule mult_le_mono1)
  then show ?thesis
    using assms(1) by (simp add: wf_group_def buffer_offset_def add.commute)
qed

lemma buffers_disjoint:
  assumes "a \<noteq> b"
  shows "buffer_offset g a + unat (bg_buffer_size g) \<le> buffer_offset g b \<or>
    buffer_offset g b + unat (bg_buffer_size g) \<le> buffer_offset g a"
proof -
  have "unat a \<noteq> unat b"
    using assms by (simp add: word_unat_eq_iff)
  then consider "Suc (unat a) \<le> unat b" | "Suc (unat b) \<le> unat a"
    by linarith
  then show ?thesis
  proof cases
    case 1
    then have "Suc (unat a) * unat (bg_buffer_size g) \<le> unat b * unat (bg_buffer_size g)"
      by (rule mult_le_mono1)
    then show ?thesis by (simp add: buffer_offset_def add.commute)
  next
    case 2
    then have "Suc (unat b) * unat (bg_buffer_size g) \<le> unat a * unat (bg_buffer_size g)"
      by (rule mult_le_mono1)
    then show ?thesis by (simp add: buffer_offset_def add.commute)
  qed
qed

lemma fill_buffer_fields [simp]:
  "bg_br (fill_buffer bid bs g) = bg_br g" "bg_buffer_count (fill_buffer bid bs g) = bg_buffer_count g"
  "bg_buffer_size (fill_buffer bid bs g) = bg_buffer_size g" "bg_bgid (fill_buffer bid bs g) = bg_bgid g"
  "bg_size (fill_buffer bid bs g) = bg_size g" "bg_data_addr (fill_buffer bid bs g) = bg_data_addr g"
  "buffer_offset (fill_buffer bid bs g) = buffer_offset g" "bg_mask (fill_buffer bid bs g) = bg_mask g"
  by (simp_all add: fill_buffer_def buffer_offset_def fun_eq_iff)

lemma get_buffer_fill [simp]: "get_buffer (fill_buffer bid bs g) = get_buffer g"
  by (intro ext) (auto simp: get_buffer_def bg_is_valid_def split: option.splits)

lemma wf_fill_buffer:
  assumes "wf_group g" and "bid < bg_buffer_count g" and "length bs \<le> unat (bg_buffer_size g)"
  shows "wf_group (fill_buffer bid bs g)"
  using assms buffer_in_data [OF assms(1,2)]
  by (simp add: wf_group_def fill_buffer_def length_store_at)

lemma span_bytes_fill_same:
  assumes "wf_group g" and "bid < bg_buffer_count g" and "length bs \<le> unat (bg_buffer_size g)"
  shows "span_bytes (fill_buffer bid bs g) (buffer_offset g bid) (length bs) = bs"
  using assms buffer_in_data [OF assms(1,2)]
  by (simp add: span_bytes_def fill_buffer_def slice_of_store_at_same)

lemma span_bytes_fill_other:
  assumes "wf_group g" and "bid < bg_buffer_count g" and "length bs \<le> unat (bg_buffer_size g)"
    and "bid' \<noteq> bid" and "off + n \<le> unat (bg_buffer_size g)"
  shows "span_bytes (fill_buffer bid bs g) (buffer_offset g bid' + off) n =
    span_bytes g (buffer_offset g bid' + off) n"
proof -
  have "buffer_offset g bid' + off + n \<le> buffer_offset g bid \<or>
      buffer_offset g bid + length bs \<le> buffer_offset g bid' + off"
    using buffers_disjoint [OF assms(4), of g] assms(3,5) by linarith
  then show ?thesis
    using assms(3) buffer_in_data [OF assms(1,2)]
    by (simp add: span_bytes_def fill_buffer_def slice_of_store_at_disjoint)
qed

section \<open>Returning a buffer\<close>

lemma return_buffer_Inr:
  assumes "wf_group g" and "bid < bg_buffer_count g"
  shows "return_buffer P g bid w = (Inr (), log_call (Buf_ring_advance (bg_bgid g) 1)
    (log_call (Buf_ring_add (bg_bgid g) (buffer_offset g bid) (unat (bg_buffer_size g)) bid (bg_mask g) 0) w))"
  using assms
  by (simp add: return_buffer_def get_buffer_def bg_is_valid_def wf_group_def buffer_offset_def
      not_le [symmetric] Let_def)

text \<open>
  C29: the span that \<open>get_buffer\<close> hands out lies inside the group's memory and two buffers never
  overlap; it refuses exactly the requests that would not: an invalid group, a buffer id out of
  range, a size above the buffer size.
\<close>

theorem get_buffer_in_bounds:
  assumes "wf_group g"
  shows "(case get_buffer g bid sz of
            Inr b \<Rightarrow> bid < bg_buffer_count g \<and> sp_off b + sp_len b \<le> length (bg_data g) \<and>
              (\<forall>bid'. bid' \<noteq> bid \<longrightarrow> (case get_buffer g bid' None of
                 Inr b' \<Rightarrow> sp_off b + sp_len b \<le> sp_off b' \<or> sp_off b' + sp_len b' \<le> sp_off b
               | Inl e \<Rightarrow> bid' \<ge> bg_buffer_count g))
          | Inl e \<Rightarrow> bid \<ge> bg_buffer_count g \<or> (\<exists>n. sz = Some n \<and> n > bg_buffer_size g))"
proof (cases "get_buffer g bid sz")
  case (Inl e)
  then show ?thesis
    using assms by (auto simp: get_buffer_def wf_group_def bg_is_valid_def split: if_splits option.splits)
next
  case (Inr b)
  then have b: "bid < bg_buffer_count g" "sp_off b = buffer_offset g bid"
      "sp_len b \<le> unat (bg_buffer_size g)"
    by (auto simp: get_buffer_def buffer_offset_def not_le not_less word_le_nat_alt word_less_nat_alt
        split: if_splits option.splits)
  have "sp_off b + sp_len b \<le> length (bg_data g)"
    using b buffer_in_data [OF assms b(1)] by simp
  moreover have "case get_buffer g bid' None of
        Inr b' \<Rightarrow> sp_off b + sp_len b \<le> sp_off b' \<or> sp_off b' + sp_len b' \<le> sp_off b
      | Inl e \<Rightarrow> bid' \<ge> bg_buffer_count g" if "bid' \<noteq> bid" for bid'
    using buffers_disjoint [of bid' bid g] that b assms
    by (auto simp: get_buffer_def buffer_offset_def wf_group_def bg_is_valid_def)
  ultimately show ?thesis
    using Inr b(1) by simp
qed

definition example_group :: buffer_group where
  "example_group = \<lparr>bg_ring = 1, bg_br = True, bg_mask = 1, bg_data = replicate 8 0, bg_data_addr = 0,
     bg_size = 8, bg_bgid = 0, bg_buffer_count = 2, bg_buffer_size = 4\<rparr>"

lemma wf_example_group: "wf_group example_group"
  by (simp add: wf_group_def example_group_def)

theorem get_buffer_in_bounds_witness:
  "wf_group example_group \<and> get_buffer example_group 1 (Some 3) = Inr \<lparr>sp_off = 4, sp_len = 3\<rparr> \<and>
   4 + 3 \<le> length (bg_data example_group)"
proof -
  have e: "get_buffer example_group 1 (Some 3) = Inr \<lparr>sp_off = 4, sp_len = 3\<rparr>"
    by code_simp
  show ?thesis
    using get_buffer_in_bounds [OF wf_example_group, of 1 "Some 3"] wf_example_group e by simp
qed

end
