(* ===== verification/Io_Uring.thy ===== *)
theory Io_Uring
  imports Buffer_Group
begin

text \<open>
  The ring object (\<open>include/zportal/iouring/iouring.hpp\<close>, \<open>src/iouring/iouring.cpp\<close>, with
  \<open>src/tools/system.cpp\<close>): creation, the submission and completion calls, the buffer groups it
  owns, moving and closing. A pointer to a buffer group is its index in \<open>buffer_groups_\<close>: the
  groups are heap objects that stay where they are until the ring is closed. \<open>ring_addr\<close> is the
  address of the \<open>io_uring\<close> member, which a buffer group keeps a pointer to.
\<close>

record io_uring =
  ring_addr :: addr
  ring_fd :: int
  buffer_groups :: "buffer_group list"
  next_bgid :: u16

definition invalid_ring_fd :: int where "invalid_ring_fd = -1"

definition new_ring :: "addr \<Rightarrow> io_uring" where
  "new_ring a = \<lparr>ring_addr = a, ring_fd = invalid_ring_fd, buffer_groups = [], next_bgid = 0\<rparr>"

definition ring_is_valid :: "io_uring \<Rightarrow> bool" where
  "ring_is_valid r \<longleftrightarrow> ring_fd r \<ge> 0"

definition create_queue :: "platform \<Rightarrow> addr \<Rightarrow> nat \<Rightarrow> world \<Rightarrow> io_uring result \<times> world" where
  "create_queue P a entries w =
     (let (r, w) = call P (Io_uring_queue_init entries) w
      in if r < 0 then (Inl (Error_no RingCreateQueueFailed (- r)), w)
         else (Inr ((new_ring a)\<lparr>ring_fd := int (new_fd P (trace w))\<rparr>), w))"

text \<open>\<open>close\<close>: the groups are destroyed while the kernel's ring still exists.\<close>

definition ring_close :: "platform \<Rightarrow> io_uring \<Rightarrow> world \<Rightarrow> io_uring \<times> world" where
  "ring_close P r w =
     (if \<not> ring_is_valid r then (r, w)
      else (let w = fold (destroy_group P) (buffer_groups r) w;
                w = log_call Io_uring_queue_exit w
            in (r\<lparr>buffer_groups := [], next_bgid := 0, ring_fd := invalid_ring_fd\<rparr>, w)))"

text \<open>The move constructor: the new object, and what is left of the old one.\<close>

definition ring_move :: "addr \<Rightarrow> io_uring \<Rightarrow> io_uring \<times> io_uring" where
  "ring_move a other =
     (\<lparr>ring_addr = a, ring_fd = ring_fd other, buffer_groups = buffer_groups other, next_bgid = next_bgid other\<rparr>,
      other\<lparr>ring_fd := invalid_ring_fd, buffer_groups := [], next_bgid := 0\<rparr>)"

text \<open>The move assignment to another object: it closes the target first.\<close>

definition ring_move_assign ::
    "platform \<Rightarrow> io_uring \<Rightarrow> io_uring \<Rightarrow> world \<Rightarrow> (io_uring \<times> io_uring) \<times> world" where
  "ring_move_assign P r other w =
     (let (r, w) = ring_close P r w
      in (ring_move (ring_addr r) other, w))"

definition get_sqe :: "platform \<Rightarrow> io_uring \<Rightarrow> world \<Rightarrow> unit result \<times> world" where
  "get_sqe P r w =
     (if \<not> ring_is_valid r then (Inl (Error RingInvalid), w)
      else (let (sqe, w) = call P Io_uring_get_sqe w
            in if sqe = 0 then (Inl (Error NotEnoughSqe), w) else (Inr (), w)))"

definition submit :: "platform \<Rightarrow> io_uring \<Rightarrow> world \<Rightarrow> nat result \<times> world" where
  "submit P r w =
     (if \<not> ring_is_valid r then (Inl (Error RingInvalid), w)
      else (let (n, w) = call P Io_uring_submit w
            in if n < 0 then (Inl (Error_no RingSubmitFailed (- n)), w) else (Inr (nat n), w)))"

definition wait :: "platform \<Rightarrow> io_uring \<Rightarrow> world \<Rightarrow> cqe result \<times> world" where
  "wait P r w =
     (if \<not> ring_is_valid r then (Inl (Error RingInvalid), w)
      else (let (n, w) = call P Io_uring_wait_cqe w
            in if n < 0 then (Inl (Error_no RingWaitFailed (- n)), w)
               else (Inr (cqe_of (sys_cqe P (trace w))), log_call Io_uring_cqe_seen w)))"

section \<open>Buffer groups\<close>

definition get_page_size :: "platform \<Rightarrow> world \<Rightarrow> nat result \<times> world" where
  "get_page_size P w =
     (let (r, w) = call P Sysconf_pagesize w
      in if r < 0 then (Inl (Error_no SysConfFailed (errno_of P (trace w))), w) else (Inr (nat r), w))"

definition EIO :: int where "EIO = 5"
definition sizeof_io_uring_buf :: nat where "sizeof_io_uring_buf = 16"

text \<open>
  Setting up the kernel's side of a group, in the two forms that the build chooses between. The
  group comes back with its ring pointer set; on an error it is the caller's to destroy.
\<close>

definition setup_ring :: "platform \<Rightarrow> buffer_group \<Rightarrow> world \<Rightarrow> (unit result \<times> buffer_group) \<times> world" where
  "setup_ring P g w =
     (if HAVE_SETUP_BUF_RING P then
        (let (r, w) = call P (Setup_buf_ring (unat (bg_buffer_count g)) (bg_bgid g)) w;
             setup_error = errno_of P (trace w)
         in if r = 0
            then ((Inl (Error_no RingBufferRingSetupFailed
                     (if setup_error = 0 then EIO else if setup_error < 0 then - setup_error else setup_error)),
                   g\<lparr>bg_br := False\<rparr>), w)
            else ((Inr (), g\<lparr>bg_br := True\<rparr>), w))
      else
        (case get_page_size P w of
           (Inl e, w) \<Rightarrow> ((Inl e, g), w)
         | (Inr page_size, w) \<Rightarrow>
             (let raw = unat (bg_buffer_count g) * sizeof_io_uring_buf;
                  ring_bytes = (raw + page_size - 1) div page_size * page_size;
                  (r, w) = call P (Posix_memalign page_size ring_bytes) w
              in if r \<noteq> 0 then ((Inl (Error_no PosixMemalignFailed r), g), w)
                 else (let w = (if HAVE_BUF_RING_INIT P then log_call Buf_ring_init w else w);
                           (r, w) = call P (Register_buf_ring (unat (bg_buffer_count g)) (bg_bgid g)) w
                       in if r < 0
                          then ((Inl (Error_no RingRegisterBufRingFailed (- r)), g\<lparr>bg_br := False\<rparr>),
                                log_call Std_free w)
                          else ((Inr (), g\<lparr>bg_br := True\<rparr>), w)))))"

text \<open>The loop that gives every buffer of a new group to the kernel.\<close>

primrec provide_buffers :: "buffer_group \<Rightarrow> u16 list \<Rightarrow> world \<Rightarrow> unit result \<times> world" where
  "provide_buffers g [] w = (Inr (), w)"
| "provide_buffers g (bid # bids) w =
     (case get_buffer g bid None of
        Inl e \<Rightarrow> (Inl e, w)
      | Inr b \<Rightarrow> provide_buffers g bids
          (log_call (Buf_ring_add (bg_bgid g) (sp_off b) (sp_len b) bid (bg_mask g) (int (unat bid))) w))"

definition bids_upto :: "u16 \<Rightarrow> u16 list" where
  "bids_upto n = map of_nat [0..<unat n]"

text \<open>
  The group before its memory and ring are set: the constructor leaves \<open>br_\<close> uninitialised.
\<close>

definition raw_group :: "platform \<Rightarrow> addr \<Rightarrow> u16 \<Rightarrow> u32 \<Rightarrow> world \<Rightarrow> buffer_group" where
  "raw_group P a len sz w =
     \<lparr>bg_ring = a, bg_br = indeterminate P (trace w), bg_mask = 0, bg_data = [], bg_data_addr = 0,
      bg_size = unat len * unat sz, bg_bgid = 0, bg_buffer_count = len, bg_buffer_size = sz\<rparr>"

definition create_buffer_group ::
    "platform \<Rightarrow> u16 \<Rightarrow> u32 \<Rightarrow> io_uring \<Rightarrow> world \<Rightarrow> nat result \<times> io_uring \<times> world" where
  "create_buffer_group P len buf_size r w =
     (if \<not> ring_is_valid r then (Inl (Error RingInvalid), r, w)
      else if len = 0 \<or> buf_size = 0 then (Inl (Error InvalidArgument), r, w)
      else (let (ok, w) = alloc P w
       in if \<not> ok then (Inl (Error NotEnoughMemory), r, w)
          else (let g = raw_group P (ring_addr r) len buf_size w;
                    (ok, w) = alloc P w
           in if \<not> ok then (Inl (Error NotEnoughMemory), r, destroy_group P g w)
              else (let g = g\<lparr>bg_data := replicate (bg_size g) 0, bg_data_addr := data_address P (trace w),
                              bg_bgid := next_bgid r\<rparr>;
                        r = r\<lparr>next_bgid := next_bgid r + 1\<rparr>
               in (case setup_ring P g w of
                     ((Inl e, g), w) \<Rightarrow> (Inl e, r, destroy_group P g w)
                   | ((Inr _, g), w) \<Rightarrow>
                       (let (m, w) = call P (Buf_ring_mask (unat len)) w;
                            g = g\<lparr>bg_mask := m\<rparr>
                        in (case provide_buffers g (bids_upto len) w of
                              (Inl e, w) \<Rightarrow> (Inl e, r, destroy_group P g w)
                            | (Inr _, w) \<Rightarrow>
                                (Inr (length (buffer_groups r)),
                                 r\<lparr>buffer_groups := buffer_groups r @ [g]\<rparr>,
                                 log_call (Buf_ring_advance (bg_bgid g) (unat len)) w))))))))"

primrec find_bgid :: "u16 \<Rightarrow> nat \<Rightarrow> buffer_group list \<Rightarrow> nat option" where
  "find_bgid bgid i [] = None"
| "find_bgid bgid i (g # gs) = (if get_bgid g = bgid then Some i else find_bgid bgid (Suc i) gs)"

definition get_buffer_group :: "u16 \<Rightarrow> io_uring \<Rightarrow> nat result" where
  "get_buffer_group bgid r =
     (if \<not> ring_is_valid r then Inl (Error RingInvalid)
      else case find_bgid bgid 0 (buffer_groups r) of Some i \<Rightarrow> Inr i | None \<Rightarrow> Inl (Error InvalidBgid))"

text \<open>Following a pointer to a buffer group.\<close>

definition group_at :: "io_uring \<Rightarrow> nat \<Rightarrow> buffer_group" where
  "group_at r i = buffer_groups r ! i"

section \<open>Submission calls\<close>

lemma get_sqe_cases:
  assumes "get_sqe P r w = (rv, w')"
  shows "(rv = Inl (Error RingInvalid) \<and> w' = w) \<or>
    (w' = log_call Io_uring_get_sqe w \<and> (rv = Inl (Error NotEnoughSqe) \<or> rv = Inr ()))"
  using assms by (auto simp: get_sqe_def call_def split: if_splits)

lemma submit_cases:
  assumes "submit P r w = (rv, w')"
  shows "(rv = Inl (Error RingInvalid) \<and> w' = w) \<or>
    (w' = log_call Io_uring_submit w \<and> ((\<exists>n. rv = Inr n) \<or> (\<exists>n. rv = Inl (Error_no RingSubmitFailed n) \<and> 0 < n)))"
  using assms by (auto simp: submit_def call_def split: if_splits)

section \<open>Calls that return no buffer\<close>

definition quiet :: "world \<Rightarrow> world \<Rightarrow> bool" where
  "quiet w w' \<longleftrightarrow> recv_multishot_cache w' = recv_multishot_cache w \<and>
     (\<exists>cs. trace w' = trace w @ cs \<and> (\<forall>g. returned_bids g cs = []))"

lemma quiet_refl [simp]: "quiet w w"
  by (simp add: quiet_def)

lemma quiet_trans [trans]: "quiet w w' \<Longrightarrow> quiet w' w'' \<Longrightarrow> quiet w w''"
  by (fastforce simp: quiet_def)

lemma quiet_log_call: "(\<And>g. added_bid g c = []) \<Longrightarrow> quiet w w' \<Longrightarrow> quiet w (log_call c w')"
  by (auto simp: quiet_def log_call_def)

text \<open>The errors of the submission calls.\<close>

definition ring_failure :: "error \<Rightarrow> bool" where
  "ring_failure e \<longleftrightarrow> err_code e \<in> {RingInvalid, NotEnoughSqe, RingSubmitFailed}"

lemma get_sqe_quiet:
  "get_sqe P r w = (rv, w') \<Longrightarrow> quiet w w' \<and> (\<forall>e. rv = Inl e \<longrightarrow> ring_failure e)"
  using get_sqe_cases [of P r w rv w'] by (auto simp: ring_failure_def intro!: quiet_log_call)

lemma submit_quiet:
  "submit P r w = (rv, w') \<Longrightarrow> quiet w w' \<and> (\<forall>e. rv = Inl e \<longrightarrow> ring_failure e)"
  using submit_cases [of P r w rv w'] by (auto simp: ring_failure_def intro!: quiet_log_call)

section \<open>Creating a group\<close>

lemma length_bids_upto [simp]: "length (bids_upto n) = unat n"
  by (simp add: bids_upto_def)

lemma set_bids_upto: "set (bids_upto n) = {bid. bid < n}"
proof -
  have "bid \<in> of_nat ` {0..<unat n}" if "bid < n" for bid :: u16
    using that by (intro image_eqI [of _ _ "unat bid"]) (simp_all add: word_less_nat_alt)
  moreover have "of_nat i < n" if "i < unat n" for i
    using that unat_less_pow [of n] by (simp add: word_less_nat_alt unat_of_nat_eq)
  ultimately show ?thesis
    by (auto simp: bids_upto_def)
qed

lemma distinct_bids_upto: "distinct (bids_upto n)"
proof -
  have "inj_on (of_nat :: nat \<Rightarrow> u16) {0..<unat n}"
    using unat_less_pow [of n] by (intro inj_onI) (metis atLeastLessThan_iff less_trans unat_of_nat_eq)
  then show ?thesis
    by (simp add: bids_upto_def distinct_map)
qed

lemma provide_buffers_Inr:
  assumes "wf_group g" and "\<forall>bid \<in> set bids. bid < bg_buffer_count g"
  shows "\<exists>w'. provide_buffers g bids w = (Inr (), w') \<and>
    (\<exists>cs. trace w' = trace w @ cs \<and> returned_bids (bg_bgid g) cs = bids)"
  using assms(2)
proof (induction bids arbitrary: w)
  case Nil
  then show ?case by simp
next
  case (Cons bid bids)
  obtain b where b: "get_buffer g bid None = Inr b"
    using assms(1) Cons.prems
    by (auto simp: get_buffer_def wf_group_def bg_is_valid_def not_le [symmetric])
  show ?case
    using Cons.IH [of "log_call (Buf_ring_add (bg_bgid g) (sp_off b) (sp_len b) bid (bg_mask g) (int (unat bid))) w"]
      Cons.prems b by auto
qed

text \<open>
  What is kept between operations on a ring: the groups are well-formed, point back at this ring,
  and have different ids, all of them below the next one to be given out.
\<close>

definition wf_ring :: "io_uring \<Rightarrow> bool" where
  "wf_ring r \<longleftrightarrow> (\<forall>g \<in> set (buffer_groups r). wf_group g \<and> bg_bgid g < next_bgid r) \<and>
     distinct (map bg_bgid (buffer_groups r))"

text \<open>The group that a successful creation appends.\<close>

definition made_group :: "platform \<Rightarrow> io_uring \<Rightarrow> u16 \<Rightarrow> u32 \<Rightarrow> buffer_group \<Rightarrow> bool" where
  "made_group P r len sz g \<longleftrightarrow> wf_group g \<and> bg_ring g = ring_addr r \<and> bg_bgid g = next_bgid r \<and>
     bg_buffer_count g = len \<and> bg_buffer_size g = sz"

lemma setup_ring_cases:
  assumes "setup_ring P g w = ((rv, g'), w')"
  shows "g'\<lparr>bg_br := True\<rparr> = g\<lparr>bg_br := True\<rparr> \<and> (rv = Inr () \<longrightarrow> bg_br g') \<and>
    (\<exists>cs. trace w' = trace w @ cs \<and> returned_bids i cs = [])"
proof (cases "HAVE_SETUP_BUF_RING P")
  case True
  then show ?thesis
    using assms by (auto simp: setup_ring_def call_def Let_def split: if_splits)
next
  case False
  obtain gp w1 where gp: "get_page_size P w = (gp, w1)"
    by fastforce
  then have "trace w1 = trace w @ [Sysconf_pagesize]"
    by (auto simp: get_page_size_def call_def Let_def split: if_splits)
  then show ?thesis
    using assms False gp
    by (cases gp; cases "HAVE_BUF_RING_INIT P")
      (simp_all add: setup_ring_def call_def Let_def split: if_splits, auto)
qed

lemma create_buffer_group_Inr:
  assumes "create_buffer_group P len sz r w = (Inr i, r', w')"
  shows "\<exists>g. made_group P r len sz g \<and> i = length (buffer_groups r) \<and>
    r' = r\<lparr>next_bgid := next_bgid r + 1, buffer_groups := buffer_groups r @ [g]\<rparr> \<and>
    (\<exists>cs. trace w' = trace w @ cs \<and> returned_bids (bg_bgid g) cs = bids_upto len)"
proof -
  let ?w1 = "log_call Alloc w"
  let ?w2 = "log_call Alloc ?w1"
  let ?g0 = "\<lparr>bg_ring = ring_addr r, bg_br = indeterminate P (trace ?w1), bg_mask = 0,
    bg_data = replicate (unat len * unat sz) 0, bg_data_addr = data_address P (trace ?w2),
    bg_size = unat len * unat sz, bg_bgid = next_bgid r, bg_buffer_count = len, bg_buffer_size = sz\<rparr>"
  obtain rv g1 w3 where s: "setup_ring P ?g0 ?w2 = ((rv, g1), w3)"
    by (metis prod.exhaust_sel)
  let ?w4 = "log_call (Buf_ring_mask (unat len)) w3"
  let ?g2 = "g1\<lparr>bg_mask := sys P (trace w3 @ [Buf_ring_mask (unat len)])\<rparr>"
  obtain rv2 w5 where p: "provide_buffers ?g2 (bids_upto len) ?w4 = (rv2, w5)"
    by fastforce
  have *: "rv = Inr () \<and> rv2 = Inr () \<and> i = length (buffer_groups r) \<and>
      r' = r\<lparr>next_bgid := next_bgid r + 1, buffer_groups := buffer_groups r @ [?g2]\<rparr> \<and>
      w' = log_call (Buf_ring_advance (bg_bgid ?g2) (unat len)) w5"
    using assms s p
    by (cases rv; cases rv2)
      (simp_all add: create_buffer_group_def alloc_def call_def Let_def raw_group_def split: if_splits)
  have g2: "made_group P r len sz ?g2"
    using setup_ring_cases [OF s] *
    by (cases g1) (auto simp: made_group_def wf_group_def)
  obtain cs3 where cs3: "trace w3 = trace ?w2 @ cs3" "returned_bids (bg_bgid ?g2) cs3 = []"
    using setup_ring_cases [OF s, of "bg_bgid ?g2"] by blast
  obtain cs5 where cs5: "trace w5 = trace ?w4 @ cs5" "returned_bids (bg_bgid ?g2) cs5 = bids_upto len"
    using provide_buffers_Inr [of ?g2 "bids_upto len" ?w4] g2 p
    by (auto simp: made_group_def set_bids_upto)
  have "trace w' = trace w @ [Alloc, Alloc] @ cs3 @ [Buf_ring_mask (unat len)] @ cs5 @
      [Buf_ring_advance (bg_bgid ?g2) (unat len)]"
    using * cs3(1) cs5(1) by simp
  with g2 * cs3(2) cs5(2) show ?thesis
    by (intro exI [of _ ?g2]) auto
qed

lemma find_bgid_append:
  "b \<notin> set (map bg_bgid gs) \<Longrightarrow> bg_bgid g = b \<Longrightarrow> find_bgid b i (gs @ [g]) = Some (i + length gs)"
  by (induction gs arbitrary: i) (auto simp: get_bgid_def)

lemma bgid_less_succ: "(n :: u16) \<noteq> 0xFFFF \<Longrightarrow> n < n + 1"
proof -
  assume n: "n \<noteq> 0xFFFF"
  have "unat n \<noteq> 65535"
    using n by (simp add: word_unat_eq_iff)
  with unat_less_pow [of n] have "unat (n + 1) = unat n + 1"
    by (simp add: unat_word_ariths)
  then show ?thesis
    by (simp add: word_less_nat_alt)
qed

section \<open>Properties\<close>

text \<open>
  C30: a buffer group that \<open>create_buffer_group\<close> returns is new and complete: it is appended to
  the ring's groups with an id of its own, by which it is found again; its memory holds all its
  buffers; every buffer has been given to the kernel, once and in order; and the ring's groups
  stay well-formed. The id counter has 16 bits, hence the bound.
\<close>

theorem create_buffer_group_ok:
  assumes "create_buffer_group P len sz r w = (Inr i, r', w')" and "wf_ring r"
    and "next_bgid r \<noteq> 0xFFFF"
  shows "wf_ring r' \<and> made_group P r len sz (group_at r' i) \<and>
    get_buffer_group (bg_bgid (group_at r' i)) r' = Inr i \<and>
    (\<exists>cs. trace w' = trace w @ cs \<and> returned_bids (bg_bgid (group_at r' i)) cs = bids_upto len)"
proof -
  obtain g where g: "made_group P r len sz g" "i = length (buffer_groups r)"
      "r' = r\<lparr>next_bgid := next_bgid r + 1, buffer_groups := buffer_groups r @ [g]\<rparr>"
      "\<exists>cs. trace w' = trace w @ cs \<and> returned_bids (bg_bgid g) cs = bids_upto len"
    using create_buffer_group_Inr [OF assms(1)] by blast
  have at: "group_at r' i = g"
    by (simp add: group_at_def g(2,3))
  have fresh: "next_bgid r \<notin> set (map bg_bgid (buffer_groups r))"
    using assms(2) by (auto simp: wf_ring_def)
  have "ring_is_valid r"
    using assms(1) by (auto simp: create_buffer_group_def split: if_splits)
  then have "get_buffer_group (bg_bgid g) r' = Inr i"
    using find_bgid_append [OF fresh, of g 0] g(1)
    by (simp add: get_buffer_group_def g(2,3) ring_is_valid_def made_group_def)
  moreover have "wf_ring r'"
    using assms(2) g(1) fresh bgid_less_succ [OF assms(3)]
    by (auto simp: wf_ring_def g(3) made_group_def intro: less_trans)
  ultimately show ?thesis
    using g at by simp
qed

definition example_ring :: io_uring where
  "example_ring = \<lparr>ring_addr = 1, ring_fd = 3, buffer_groups = [], next_bgid = 0\<rparr>"

theorem create_buffer_group_ok_witness:
  "\<exists>i r' w'. create_buffer_group friendly 2 4 example_ring initial_world = (Inr i, r', w') \<and> wf_ring r'"
proof -
  let ?c = "create_buffer_group friendly 2 4 example_ring initial_world"
  have i: "fst ?c = Inr 0"
    by code_simp
  have eq: "?c = (Inr 0, fst (snd ?c), snd (snd ?c))"
    using i by (metis prod.collapse)
  have "wf_ring example_ring" "next_bgid example_ring \<noteq> 0xFFFF"
    by (simp_all add: wf_ring_def example_ring_def)
  from create_buffer_group_ok [OF eq this] show ?thesis
    using eq by blast
qed



end
