(* ===== verification/File_Descriptor.thy ===== *)
theory File_Descriptor
  imports Platform "HOL-Library.Multiset"
begin

text \<open>
  The owner of a file descriptor (\<open>include/zportal/tools/file_descriptor.hpp\<close>,
  \<open>src/tools/file_descriptor.cpp\<close>). The destructor closes what the object holds; a move leaves the
  source empty. The objects of a program are the slots of a pool, and every use of the class is a
  step of the pool: no sequence of steps loses a descriptor or closes one twice.
\<close>

section \<open>The class\<close>

record file_descriptor =
  fd_value :: int

definition invalid_fd :: int where "invalid_fd = -1"

definition fd_default :: file_descriptor where "fd_default = \<lparr>fd_value = invalid_fd\<rparr>"

definition fd_new :: "int \<Rightarrow> file_descriptor" where "fd_new fd = \<lparr>fd_value = fd\<rparr>"

definition fd_get :: "file_descriptor \<Rightarrow> int" where "fd_get d = fd_value d"

definition fd_is_valid :: "file_descriptor \<Rightarrow> bool" where "fd_is_valid d \<longleftrightarrow> fd_value d \<ge> 0"

definition fd_reset :: "int \<Rightarrow> file_descriptor \<Rightarrow> world \<Rightarrow> file_descriptor \<times> world" where
  "fd_reset fd d w =
     (if fd = fd_value d then (d, w)
      else (let w = (if fd_is_valid d then log_call (Close_fd (fd_value d)) w else w)
            in (d\<lparr>fd_value := fd\<rparr>, w)))"

definition fd_close :: "file_descriptor \<Rightarrow> world \<Rightarrow> file_descriptor \<times> world" where
  "fd_close = fd_reset invalid_fd"

definition fd_release :: "file_descriptor \<Rightarrow> int \<times> file_descriptor" where
  "fd_release d = (fd_value d, d\<lparr>fd_value := invalid_fd\<rparr>)"

text \<open>The move constructor: the new object, and what is left of the old one.\<close>

definition fd_move :: "file_descriptor \<Rightarrow> file_descriptor \<times> file_descriptor" where
  "fd_move other = (\<lparr>fd_value = fd_value other\<rparr>, other\<lparr>fd_value := invalid_fd\<rparr>)"

text \<open>The move assignment between two different objects; assigning an object to itself does nothing.\<close>

definition fd_move_assign ::
    "file_descriptor \<Rightarrow> file_descriptor \<Rightarrow> world \<Rightarrow> file_descriptor \<times> file_descriptor \<times> world" where
  "fd_move_assign d other w =
     (let (d, w) = fd_close d w in (d\<lparr>fd_value := fd_value other\<rparr>, other\<lparr>fd_value := invalid_fd\<rparr>, w))"

definition fd_swap :: "file_descriptor \<Rightarrow> file_descriptor \<Rightarrow> file_descriptor \<times> file_descriptor" where
  "fd_swap d other = (d\<lparr>fd_value := fd_value other\<rparr>, other\<lparr>fd_value := fd_value d\<rparr>)"

definition fd_destroy :: "file_descriptor \<Rightarrow> world \<Rightarrow> world" where
  "fd_destroy d w = snd (fd_close d w)"

section \<open>Programs that use it\<close>

text \<open>
  A slot is empty before its object is constructed and after it is destroyed. The pool also
  records the descriptors that were handed to an object and the ones that were taken out of one
  with \<open>release\<close>.
\<close>

record fd_pool =
  fp_objects :: "file_descriptor option list"
  fp_adopted :: "int list"
  fp_released :: "int list"
  fp_world :: world

definition new_pool :: "nat \<Rightarrow> fd_pool" where
  "new_pool n = \<lparr>fp_objects = replicate n None, fp_adopted = [], fp_released = [], fp_world = initial_world\<rparr>"

definition adopt :: "int \<Rightarrow> fd_pool \<Rightarrow> fd_pool" where
  "adopt fd p = (if fd \<ge> 0 then p\<lparr>fp_adopted := fd # fp_adopted p\<rparr> else p)"

definition set_object :: "nat \<Rightarrow> file_descriptor option \<Rightarrow> fd_pool \<Rightarrow> fd_pool" where
  "set_object i d p = p\<lparr>fp_objects := (fp_objects p)[i := d]\<rparr>"

definition held_by :: "file_descriptor option \<Rightarrow> int multiset" where
  "held_by slot = (case slot of None \<Rightarrow> {#} | Some d \<Rightarrow> if fd_is_valid d then {#fd_value d#} else {#})"

definition held_fds :: "fd_pool \<Rightarrow> int multiset" where
  "held_fds p = (\<Sum>slot \<leftarrow> fp_objects p. held_by slot)"

fun closed_fd :: "lib_call \<Rightarrow> int multiset" where
  "closed_fd (Close_fd fd) = {#fd#}"
| "closed_fd _ = {#}"

definition closed_fds :: "world \<Rightarrow> int multiset" where
  "closed_fds w = (\<Sum>c \<leftarrow> trace w. closed_fd c)"

text \<open>
  One statement of the program. A descriptor that is handed over is one that no object holds: the
  kernel gives out no number that is open.
\<close>

inductive fd_step :: "fd_pool \<Rightarrow> fd_pool \<Rightarrow> bool" where
  fd_construct: "i < length (fp_objects p) \<Longrightarrow> fp_objects p ! i = None \<Longrightarrow> fd \<notin># held_fds p \<Longrightarrow>
    fd_step p (adopt fd (set_object i (Some (fd_new fd)) p))"
| fd_construct_empty: "i < length (fp_objects p) \<Longrightarrow> fp_objects p ! i = None \<Longrightarrow>
    fd_step p (set_object i (Some fd_default) p)"
| fd_move_construct: "i < length (fp_objects p) \<Longrightarrow> fp_objects p ! i = None \<Longrightarrow>
    j < length (fp_objects p) \<Longrightarrow> fp_objects p ! j = Some d \<Longrightarrow> fd_move d = (a, b) \<Longrightarrow>
    fd_step p (set_object j (Some b) (set_object i (Some a) p))"
| fd_assign: "i < length (fp_objects p) \<Longrightarrow> fp_objects p ! i = Some d \<Longrightarrow>
    j < length (fp_objects p) \<Longrightarrow> fp_objects p ! j = Some d' \<Longrightarrow> i \<noteq> j \<Longrightarrow>
    fd_move_assign d d' (fp_world p) = (a, b, w) \<Longrightarrow>
    fd_step p (set_object j (Some b) (set_object i (Some a) (p\<lparr>fp_world := w\<rparr>)))"
| fd_self_assign: "i < length (fp_objects p) \<Longrightarrow> fp_objects p ! i = Some d \<Longrightarrow> fd_step p p"
| fd_resets: "i < length (fp_objects p) \<Longrightarrow> fp_objects p ! i = Some d \<Longrightarrow>
    fd = fd_value d \<or> fd \<notin># held_fds p \<Longrightarrow> fd_reset fd d (fp_world p) = (a, w) \<Longrightarrow>
    fd_step p ((if fd = fd_value d then id else adopt fd) (set_object i (Some a) (p\<lparr>fp_world := w\<rparr>)))"
| fd_closes: "i < length (fp_objects p) \<Longrightarrow> fp_objects p ! i = Some d \<Longrightarrow>
    fd_close d (fp_world p) = (a, w) \<Longrightarrow> fd_step p (set_object i (Some a) (p\<lparr>fp_world := w\<rparr>))"
| fd_releases: "i < length (fp_objects p) \<Longrightarrow> fp_objects p ! i = Some d \<Longrightarrow> fd_release d = (fd, a) \<Longrightarrow>
    fd_step p (set_object i (Some a) (p\<lparr>fp_released := (if fd \<ge> 0 then [fd] else []) @ fp_released p\<rparr>))"
| fd_swaps: "i < length (fp_objects p) \<Longrightarrow> fp_objects p ! i = Some d \<Longrightarrow>
    j < length (fp_objects p) \<Longrightarrow> fp_objects p ! j = Some d' \<Longrightarrow> i \<noteq> j \<Longrightarrow> fd_swap d d' = (a, b) \<Longrightarrow>
    fd_step p (set_object j (Some b) (set_object i (Some a) p))"
| fd_destroys: "i < length (fp_objects p) \<Longrightarrow> fp_objects p ! i = Some d \<Longrightarrow>
    fd_step p (set_object i None (p\<lparr>fp_world := fd_destroy d (fp_world p)\<rparr>))"

inductive fd_reachable :: "fd_pool \<Rightarrow> bool" where
  fd_start: "fd_reachable (new_pool n)"
| fd_next: "fd_reachable p \<Longrightarrow> fd_step p p' \<Longrightarrow> fd_reachable p'"

section \<open>Conservation\<close>

lemma sum_list_update:
  fixes f :: "'a \<Rightarrow> 'b::cancel_comm_monoid_add"
  assumes "i < length xs"
  shows "(\<Sum>x \<leftarrow> xs[i := y]. f x) + f (xs ! i) = (\<Sum>x \<leftarrow> xs. f x) + f y"
  using assms
proof (induction xs arbitrary: i)
  case (Cons x xs)
  then show ?case
    by (cases i) (auto simp: add_ac)
qed simp

lemma held_set_object:
  "i < length (fp_objects p) \<Longrightarrow>
    held_fds (set_object i d p) + held_by (fp_objects p ! i) = held_fds p + held_by d"
  by (simp add: held_fds_def set_object_def sum_list_update)

lemma set_object_fields [simp]:
  "fp_adopted (set_object i d p) = fp_adopted p" "fp_released (set_object i d p) = fp_released p"
  "fp_world (set_object i d p) = fp_world p" "length (fp_objects (set_object i d p)) = length (fp_objects p)"
  "j \<noteq> i \<Longrightarrow> fp_objects (set_object i d p) ! j = fp_objects p ! j"
  by (simp_all add: set_object_def)

lemma adopt_fields [simp]:
  "fp_released (adopt fd p) = fp_released p" "fp_world (adopt fd p) = fp_world p"
  "held_fds (adopt fd p) = held_fds p" "fp_objects (adopt fd p) = fp_objects p"
  "mset (fp_adopted (adopt fd p)) = mset (fp_adopted p) + held_by (Some (fd_new fd))"
  by (simp_all add: adopt_def held_fds_def held_by_def fd_new_def fd_is_valid_def)

lemma held_fields [simp]:
  "held_fds (p\<lparr>fp_world := w\<rparr>) = held_fds p" "held_fds (p\<lparr>fp_released := r\<rparr>) = held_fds p"
  by (simp_all add: held_fds_def)

lemma held_by_simps [simp]:
  "held_by None = {#}" "held_by (Some fd_default) = {#}" "held_by (Some \<lparr>fd_value = invalid_fd\<rparr>) = {#}"
  "held_by (Some (d\<lparr>fd_value := invalid_fd\<rparr>)) = {#}"
  by (simp_all add: held_by_def fd_is_valid_def fd_default_def invalid_fd_def)

lemma held_by_value: "fd_value d = fd_value d' \<Longrightarrow> held_by (Some d) = held_by (Some d')"
  by (simp add: held_by_def fd_is_valid_def)

lemma closed_log_call [simp]: "closed_fds (log_call c w) = closed_fds w + closed_fd c"
  by (simp add: closed_fds_def log_call_def)

text \<open>Resetting closes exactly what the object held, and it holds the new descriptor.\<close>

lemma reset_conserves:
  assumes "fd_reset fd d w = (a, w')"
  shows "closed_fds w' + held_by (Some a) + (if fd = fd_value d then held_by (Some (fd_new fd)) else {#})
    = closed_fds w + held_by (Some d) + held_by (Some (fd_new fd))" and "fd_value a = fd"
  using assms by (auto simp: fd_reset_def held_by_def fd_is_valid_def fd_new_def Let_def split: if_splits)

lemma close_conserves:
  assumes "fd_close d w = (a, w')"
  shows "closed_fds w' = closed_fds w + held_by (Some d)" "fd_value a = invalid_fd"
  using assms by (auto simp: fd_close_def fd_reset_def held_by_def fd_is_valid_def invalid_fd_def Let_def split: if_splits)

lemma move_assign_conserves:
  assumes "fd_move_assign d d' w = (a, b, w')"
  shows "closed_fds w' = closed_fds w + held_by (Some d)" "held_by (Some a) = held_by (Some d')" "held_by (Some b) = {#}"
  using assms close_conserves [of d w "fst (fd_close d w)" "snd (fd_close d w)"]
  by (auto simp: fd_move_assign_def held_by_def fd_is_valid_def invalid_fd_def split: prod.splits)

text \<open>
  The balance: what was handed over is held, was closed, or was released; and no two objects hold
  the same descriptor.
\<close>

definition pool_inv :: "fd_pool \<Rightarrow> bool" where
  "pool_inv p \<longleftrightarrow>
     mset (fp_adopted p) = held_fds p + closed_fds (fp_world p) + mset (fp_released p) \<and>
     (\<forall>fd. count (held_fds p) fd \<le> 1)"

lemma pool_invI:
  assumes "\<And>x. count (mset (fp_adopted p)) x =
      count (held_fds p) x + count (closed_fds (fp_world p)) x + count (mset (fp_released p)) x"
    and "\<And>x. count (held_fds p) x \<le> 1"
  shows "pool_inv p"
  using assms by (simp add: pool_inv_def multiset_eq_iff)

lemma pool_invD:
  assumes "pool_inv p"
  shows "count (mset (fp_adopted p)) x =
      count (held_fds p) x + count (closed_fds (fp_world p)) x + count (mset (fp_released p)) x"
    and "count (held_fds p) x \<le> 1"
  using assms by (simp_all add: pool_inv_def)

lemma count_held_set_object:
  assumes "i < length (fp_objects p)"
  shows "count (held_fds (set_object i d p)) x + count (held_by (fp_objects p ! i)) x
    = count (held_fds p) x + count (held_by d) x"
  using held_set_object [OF assms, of d] by (metis count_union)

lemma count_held_two:
  assumes "i < length (fp_objects p)" "j < length (fp_objects p)" "i \<noteq> j"
  shows "count (held_fds (set_object j b (set_object i a p))) x
      + count (held_by (fp_objects p ! i)) x + count (held_by (fp_objects p ! j)) x
    = count (held_fds p) x + count (held_by a) x + count (held_by b) x"
  using count_held_set_object [of i p a x] count_held_set_object [of j "set_object i a p" b x] assms
  by simp

lemma held_new [simp]: "held_by (Some (fd_new fd)) = (if fd \<ge> 0 then {#fd#} else {#})"
  by (simp add: held_by_def fd_new_def fd_is_valid_def)

text \<open>Resetting an object, seen from the pool.\<close>

lemma pool_inv_reset:
  assumes inv: "pool_inv p" and i: "i < length (fp_objects p)" "fp_objects p ! i = Some d"
    and fresh: "fd = fd_value d \<or> fd \<notin># held_fds p"
    and r: "fd_reset fd d (fp_world p) = (a, w)"
  shows "pool_inv ((if fd = fd_value d then id else adopt fd) (set_object i (Some a) (p\<lparr>fp_world := w\<rparr>)))"
proof (rule pool_invI)
  note h = count_held_set_object [of i "p\<lparr>fp_world := w\<rparr>" "Some a"]
  have a: "held_by (Some a) = (if fd \<ge> 0 then {#fd#} else {#})"
    using reset_conserves(2) [OF r] by (simp add: held_by_def fd_is_valid_def)
  have c: "count (closed_fds w) x + count (held_by (Some a)) x + (if fd = fd_value d then count (held_by (Some a)) x else 0)
      = count (closed_fds (fp_world p)) x + count (held_by (Some d)) x + count (held_by (Some a)) x" for x
    using arg_cong [OF reset_conserves(1) [OF r], of "\<lambda>m. count m x"] a by (simp split: if_splits)
  fix x
  show "count (mset (fp_adopted ((if fd = fd_value d then id else adopt fd) (set_object i (Some a) (p\<lparr>fp_world := w\<rparr>))))) x =
      count (held_fds ((if fd = fd_value d then id else adopt fd) (set_object i (Some a) (p\<lparr>fp_world := w\<rparr>)))) x +
      count (closed_fds (fp_world ((if fd = fd_value d then id else adopt fd) (set_object i (Some a) (p\<lparr>fp_world := w\<rparr>))))) x +
      count (mset (fp_released ((if fd = fd_value d then id else adopt fd) (set_object i (Some a) (p\<lparr>fp_world := w\<rparr>))))) x"
    using h [of x] c [of x] pool_invD(1) [OF inv, of x] i a by (auto split: if_splits)
  show "count (held_fds ((if fd = fd_value d then id else adopt fd) (set_object i (Some a) (p\<lparr>fp_world := w\<rparr>)))) x \<le> 1"
    using h [of x] c [of x] pool_invD(2) [OF inv, of x] i a fresh
    by (auto simp: not_in_iff held_by_def fd_is_valid_def split: if_splits)
qed

lemma fd_step_inv: "fd_step p p' \<Longrightarrow> pool_inv p \<Longrightarrow> pool_inv p'"
proof (induction rule: fd_step.induct)
  case (fd_construct i p fd)
  then show ?case
    using count_held_set_object [of i p "Some (fd_new fd)"] pool_invD [of p]
    by (intro pool_invI) (auto simp: not_in_iff split: if_splits)
next
  case (fd_construct_empty i p)
  then show ?case
    using count_held_set_object [of i p "Some fd_default"] pool_invD [of p] by (intro pool_invI) auto
next
  case (fd_move_construct i p j d a b)
  then have "i \<noteq> j" "held_by (Some a) = held_by (Some d)" "held_by (Some b) = {#}"
    by (auto simp: fd_move_def intro: held_by_value)
  then show ?case
    using fd_move_construct count_held_two [of i p j "Some b" "Some a"] pool_invD [of p]
    by (intro pool_invI) auto
next
  case (fd_assign i p d j d' a b w)
  then show ?case
    using count_held_two [of i "p\<lparr>fp_world := w\<rparr>" j "Some b" "Some a"] pool_invD [of p]
      move_assign_conserves [OF fd_assign(6)]
    by (intro pool_invI) (auto, metis One_nat_def le_add1 order_trans)
next
  case (fd_self_assign i p d)
  then show ?case by simp
next
  case (fd_resets i p d fd a w)
  then show ?case by (intro pool_inv_reset)
next
  case (fd_closes i p d a w)
  then have "held_by (Some a) = {#}"
    using close_conserves(2) [of d "fp_world p" a w] by (simp add: held_by_def fd_is_valid_def invalid_fd_def)
  then show ?case
    using fd_closes count_held_set_object [of i "p\<lparr>fp_world := w\<rparr>" "Some a"] pool_invD [of p]
      close_conserves(1) [OF fd_closes(3)]
    by (intro pool_invI) (auto, metis One_nat_def le_add1 order_trans)
next
  case (fd_releases i p d fd a)
  then have a: "held_by (Some a) = {#}" and d: "held_by (Some d) = (if fd \<ge> 0 then {#fd#} else {#})"
    by (auto simp: fd_release_def held_by_def fd_is_valid_def invalid_fd_def)
  let ?q = "p\<lparr>fp_released := (if fd \<ge> 0 then [fd] else []) @ fp_released p\<rparr>"
  have h: "count (held_fds (set_object i (Some a) ?q)) x + count (held_by (Some d)) x = count (held_fds p) x" for x
    using count_held_set_object [of i ?q "Some a" x] fd_releases(1,2) a by simp
  show ?case
  proof (rule pool_invI)
    fix x
    show "count (mset (fp_adopted (set_object i (Some a) ?q))) x = count (held_fds (set_object i (Some a) ?q)) x
        + count (closed_fds (fp_world (set_object i (Some a) ?q))) x + count (mset (fp_released (set_object i (Some a) ?q))) x"
      using h [of x] d pool_invD(1) [OF fd_releases(4), of x] by (cases "0 \<le> fd") auto
    show "count (held_fds (set_object i (Some a) ?q)) x \<le> 1"
      using h [of x] pool_invD(2) [OF fd_releases(4), of x] by simp
  qed
next
  case (fd_swaps i p d j d' a b)
  then have "held_by (Some a) = held_by (Some d')" "held_by (Some b) = held_by (Some d)"
    by (auto simp: fd_swap_def intro: held_by_value)
  then show ?case
    using fd_swaps count_held_two [of i p j "Some b" "Some a"] pool_invD [of p]
    by (intro pool_invI) auto
next
  case (fd_destroys i p d)
  then have "closed_fds (fd_destroy d (fp_world p)) = closed_fds (fp_world p) + held_by (Some d)"
    using close_conserves(1) [of d "fp_world p"] by (cases "fd_close d (fp_world p)") (auto simp: fd_destroy_def)
  then show ?case
    using fd_destroys count_held_set_object [of i "p\<lparr>fp_world := fd_destroy d (fp_world p)\<rparr>" None] pool_invD [of p]
    by (intro pool_invI) (auto, metis One_nat_def le_add1 order_trans)
qed

lemma fd_reachable_inv: "fd_reachable p \<Longrightarrow> pool_inv p"
proof (induction rule: fd_reachable.induct)
  case (fd_start n)
  then show ?case
    by (induction n) (simp_all add: pool_inv_def new_pool_def held_fds_def closed_fds_def initial_world_def)
next
  case (fd_next p p')
  then show ?case by (simp add: fd_step_inv)
qed

text \<open>
  C15: a descriptor has one owner and is closed once. However a program constructs, moves, assigns
  (also to itself), resets, swaps, closes and destroys its objects, no two objects ever hold the
  same descriptor; each descriptor is closed at most as often as it was handed over, never while
  another object holds it; and when no object is left, every one that was handed over and not
  released has been closed, none of them twice.
\<close>

theorem descriptors_conserved:
  assumes "fd_reachable p"
  shows "mset (fp_adopted p) = held_fds p + closed_fds (fp_world p) + mset (fp_released p) \<and>
    (\<forall>fd. count (held_fds p) fd \<le> 1) \<and>
    (set (fp_objects p) \<subseteq> {None} \<longrightarrow>
      mset (fp_adopted p) = closed_fds (fp_world p) + mset (fp_released p))"
proof -
  have "(\<Sum>slot \<leftarrow> slots. held_by slot) = {#}" if "set slots \<subseteq> {None}" for slots
    using that by (induction slots) auto
  then show ?thesis
    using fd_reachable_inv [OF assms] by (simp add: pool_inv_def held_fds_def)
qed

text \<open>The pool after \<open>FileDescriptor a(5), b; b = std::move(a);\<close> and the end of the scope.\<close>

definition example_pool :: fd_pool where
  "example_pool = \<lparr>fp_objects = [None, None], fp_adopted = [5], fp_released = [],
     fp_world = log_call (Close_fd 5) initial_world\<rparr>"

lemma example_pool_reachable: "fd_reachable example_pool"
proof -
  define p0 where "p0 = new_pool 2"
  define p1 where "p1 = adopt 5 (set_object 0 (Some (fd_new 5)) p0)"
  define p2 where "p2 = set_object 1 (Some fd_default) p1"
  define p3 where "p3 = set_object 0 (Some fd_default) (set_object 1 (Some (fd_new 5)) p2)"
  define p4 where "p4 = set_object 1 None (p3\<lparr>fp_world := fd_destroy (fd_new 5) (fp_world p3)\<rparr>)"
  define p5 where "p5 = set_object 0 None (p4\<lparr>fp_world := fd_destroy fd_default (fp_world p4)\<rparr>)"
  note defs = new_pool_def set_object_def adopt_def held_fds_def fd_new_def fd_default_def invalid_fd_def numeral_2_eq_2
  have "fd_step p0 p1"
    unfolding p1_def by (rule fd_construct) (simp_all add: p0_def defs)
  moreover have "fd_step p1 p2"
    unfolding p2_def by (rule fd_construct_empty) (simp_all add: p1_def p0_def defs)
  moreover have "fd_step p2 p3"
  proof -
    have "fd_move_assign fd_default (fd_new 5) (fp_world p2) = (fd_new 5, fd_default, fp_world p2)"
      by (simp add: fd_move_assign_def fd_close_def fd_reset_def fd_default_def fd_new_def invalid_fd_def)
    then have "fd_step p2 (set_object 0 (Some fd_default) (set_object 1 (Some (fd_new 5)) (p2\<lparr>fp_world := fp_world p2\<rparr>)))"
      by (intro fd_assign) (simp_all add: p2_def p1_def p0_def defs)
    then show ?thesis by (simp add: p3_def)
  qed
  moreover have "fd_step p3 p4"
    unfolding p4_def by (rule fd_destroys) (simp_all add: p3_def p2_def p1_def p0_def defs)
  moreover have "fd_step p4 p5"
    unfolding p5_def by (rule fd_destroys) (simp_all add: p4_def p3_def p2_def p1_def p0_def defs)
  moreover have "p5 = example_pool"
    by (simp add: p5_def p4_def p3_def p2_def p1_def p0_def defs example_pool_def fd_destroy_def fd_close_def
        fd_reset_def fd_is_valid_def)
  ultimately show ?thesis
    using fd_start [of 2] fd_next unfolding p0_def by metis
qed

theorem descriptors_conserved_witness:
  "fd_reachable example_pool \<and> mset (fp_adopted example_pool) = closed_fds (fp_world example_pool)"
  using descriptors_conserved [OF example_pool_reachable] example_pool_reachable
  by (simp add: example_pool_def)

end
