(* ===== verification/Socket.thy ===== *)
theory Socket
  imports File_Descriptor
begin

text \<open>
  Stream sockets (\<open>include/zportal/net/socket.hpp\<close>, \<open>src/net/socket.cpp\<close>): a descriptor with the
  family it was made for.
\<close>

section \<open>The class\<close>

record socket =
  sock_fd :: file_descriptor
  sock_family :: u16

definition socket_default :: socket where
  "socket_default = \<lparr>sock_fd = fd_default, sock_family = AF_UNSPEC\<rparr>"

definition make_socket :: "int \<Rightarrow> u16 \<Rightarrow> socket" where
  "make_socket fd family = \<lparr>sock_fd = fd_new fd, sock_family = family\<rparr>"

definition sock_get :: "socket \<Rightarrow> int" where "sock_get s = fd_get (sock_fd s)"
definition get_family :: "socket \<Rightarrow> u16" where "get_family s = sock_family s"
definition socket_is_valid :: "socket \<Rightarrow> bool" where "socket_is_valid s = fd_is_valid (sock_fd s)"

definition socket_close :: "socket \<Rightarrow> world \<Rightarrow> socket \<times> world" where
  "socket_close s w = (let (d, w) = fd_close (sock_fd s) w in (s\<lparr>sock_fd := d, sock_family := AF_UNSPEC\<rparr>, w))"

text \<open>The destructor, which ends with the one of the descriptor.\<close>

definition socket_destroy :: "socket \<Rightarrow> world \<Rightarrow> world" where
  "socket_destroy s w = (let (s, w) = socket_close s w in fd_destroy (sock_fd s) w)"

definition socket_move :: "socket \<Rightarrow> socket \<times> socket" where
  "socket_move other = (let (d, od) = fd_move (sock_fd other)
     in (\<lparr>sock_fd = d, sock_family = sock_family other\<rparr>, \<lparr>sock_fd = od, sock_family = AF_UNSPEC\<rparr>))"

text \<open>The move assignment between two different objects.\<close>

definition socket_move_assign :: "socket \<Rightarrow> socket \<Rightarrow> world \<Rightarrow> socket \<times> socket \<times> world" where
  "socket_move_assign s other w =
     (let (s, w) = socket_close s w;
          (d, od, w) = fd_move_assign (sock_fd s) (sock_fd other) w
      in (\<lparr>sock_fd = d, sock_family = sock_family other\<rparr>, \<lparr>sock_fd = od, sock_family = AF_UNSPEC\<rparr>, w))"

definition SOCK_STREAM :: int where "SOCK_STREAM = 1"
definition SOCK_CLOEXEC :: int where "SOCK_CLOEXEC = 0x80000"

definition create_socket :: "platform \<Rightarrow> u16 \<Rightarrow> int \<Rightarrow> world \<Rightarrow> socket result \<times> world" where
  "create_socket P family fl w =
     (if family \<noteq> AF_INET \<and> family \<noteq> AF_INET6 \<and> family \<noteq> AF_UNIX then (Inl (Error InvalidSocketFamily), w)
      else (let (fd, w) = call P (Sys_socket family (SOCK_STREAM OR fl) 0) w
            in if fd < 0 then (Inl (Error_no SocketCreateFailed (errno_of P (trace w))), w)
               else (Inr (make_socket fd family), w)))"

text \<open>
  The two functions that ask the system for an address. They are \<open>noexcept\<close>, but \<open>from_sockaddr\<close>
  throws on an address of another family.
\<close>

definition ask_address :: "platform \<Rightarrow> lib_call \<Rightarrow> error_code \<Rightarrow> socket \<Rightarrow> world \<Rightarrow> sock_address result \<times> world" where
  "ask_address P c code s w =
     (if \<not> socket_is_valid s then (Inl (Error InvalidSocket), w)
      else (let (r, w) = call P c w
            in if r < 0 then (Inl (Error_no code (errno_of P (trace w))), w)
               else (let (a, len) = answer_address P (trace w)
                     in case from_sockaddr (host_order (net P)) (Some a) len of
                          Inl _ \<Rightarrow> terminate w
                        | Inr sa \<Rightarrow> (Inr sa, w))))"

definition get_local_address :: "platform \<Rightarrow> socket \<Rightarrow> world \<Rightarrow> sock_address result \<times> world" where
  "get_local_address P s w = ask_address P (Sys_getsockname (sock_get s)) GetSockNameFailed s w"

definition get_remote_address :: "platform \<Rightarrow> socket \<Rightarrow> world \<Rightarrow> sock_address result \<times> world" where
  "get_remote_address P s w = ask_address P (Sys_getpeername (sock_get s)) GetPeerNameFailed s w"

text \<open>\<open>family_\<close> is mutable: the function is \<open>const\<close> and still stores what it finds.\<close>

definition detect_family :: "platform \<Rightarrow> socket \<Rightarrow> world \<Rightarrow> u16 result \<times> socket \<times> world" where
  "detect_family P s w =
     (if \<not> socket_is_valid s then (Inl (Error InvalidSocket), s, w)
      else if sock_family s \<noteq> AF_UNSPEC then (Inr (sock_family s), s, w)
      else (case get_local_address P s w of
              (Inl e, w) \<Rightarrow> (Inl e, s, w)
            | (Inr a, w) \<Rightarrow> (Inr (ss_family a), s\<lparr>sock_family := ss_family a\<rparr>, w)))"

section \<open>Closing\<close>

text \<open>The destructor closes the descriptor once, if there is one, and makes no other call.\<close>

lemma socket_close_eq:
  "socket_close s w = (s\<lparr>sock_fd := \<lparr>fd_value = invalid_fd\<rparr>, sock_family := AF_UNSPEC\<rparr>,
     if socket_is_valid s then log_call (Close_fd (sock_get s)) w else w)"
  by (cases "sock_fd s") (auto simp: socket_close_def fd_close_def fd_reset_def socket_is_valid_def fd_is_valid_def
      sock_get_def fd_get_def invalid_fd_def)

lemma socket_destroy_eq:
  "socket_destroy s w = (if socket_is_valid s then log_call (Close_fd (sock_get s)) w else w)"
  by (simp add: socket_destroy_def socket_close_eq fd_destroy_def fd_close_def fd_reset_def)

lemma socket_move_assign_eq:
  "socket_move_assign s other w = (\<lparr>sock_fd = \<lparr>fd_value = sock_get other\<rparr>, sock_family = sock_family other\<rparr>, socket_default,
     if socket_is_valid s then log_call (Close_fd (sock_get s)) w else w)"
  by (cases "sock_fd other") (simp add: socket_move_assign_def socket_close_eq fd_move_assign_def fd_close_def fd_reset_def
      sock_get_def fd_get_def socket_default_def fd_default_def)

text \<open>
  Moving a socket moves the ownership. After a move or a move assignment the source holds
  nothing and destroying it makes no call; the target answers as the source did; and the old
  descriptor of the target of an assignment has been closed, once.
\<close>

theorem socket_moves_own:
  "(case socket_move s of (t, s') \<Rightarrow> t = s \<and> s' = socket_default \<and> socket_destroy s' w = w) \<and>
   (case socket_move_assign t s w of (t', s', w') \<Rightarrow> t' = s \<and> s' = socket_default \<and> socket_destroy s' w' = w' \<and>
      w' = socket_destroy t w \<and>
      closed_fds (socket_destroy t' w') = closed_fds w + held_by (Some (sock_fd t)) + held_by (Some (sock_fd s)))"
  by (cases s; cases "sock_fd s")
    (auto simp: socket_move_def fd_move_def socket_move_assign_eq socket_destroy_eq socket_default_def fd_default_def
      socket_is_valid_def fd_is_valid_def invalid_fd_def sock_get_def fd_get_def held_by_def)

end
