(* ===== verification/Support_Check.thy ===== *)
theory Support_Check
  imports Io_Uring Socket
begin

text \<open>
  The run-time checks for kernel and processor features (\<open>src/tools/support_check.cpp\<close>). Each
  caches its answer in a static variable of the program, a field of the world. The check for
  multishot receives runs a request on a ring and a socket pair of its own.
\<close>

definition EAGAIN :: int where "EAGAIN = 11"

definition read_multishot :: "platform \<Rightarrow> world \<Rightarrow> bool result \<times> world" where
  "read_multishot P w =
     (case read_multishot_cache w of
        Some b \<Rightarrow> (Inr b, w)
      | None \<Rightarrow>
          if HAVE_OP_READ_MULTISHOT P then
            (let (probe, w) = call P Get_probe w
             in if probe = 0 then (Inl (Error RingProbeNotSupported), w)
                else (let (s, w) = call P Opcode_supported w
                      in (Inr (s \<noteq> 0), log_call Free_probe (w\<lparr>read_multishot_cache := Some (s \<noteq> 0)\<rparr>))))
          else (Inr False, w\<lparr>read_multishot_cache := Some False\<rparr>))"

text \<open>The destructors of the two sockets and of the ring, in the order in which they run.\<close>

definition end_of_check :: "platform \<Rightarrow> io_uring \<Rightarrow> socket \<times> socket \<Rightarrow> world \<Rightarrow> world" where
  "end_of_check P r ss w = snd (ring_close P r (socket_destroy (fst ss) (socket_destroy (snd ss) w)))"

definition local_ring :: addr where "local_ring = 0"

text \<open>
  The request of the check, on the ring \<open>r\<close> and the sockets \<open>ss\<close>. Where no submission entry is
  available the code returns \<open>bg.error()\<close>, the error of a result that holds a value: the error it
  gets is what the memory holds.
\<close>

definition try_recv_multishot ::
    "platform \<Rightarrow> socket \<times> socket \<Rightarrow> io_uring \<Rightarrow> world \<Rightarrow> bool result \<times> io_uring \<times> world" where
  "try_recv_multishot P ss r w =
     (case create_buffer_group P 2 1024 r w of
        (Inl e, r, w) \<Rightarrow> (Inl e, r, w)
      | (Inr i, r, w) \<Rightarrow>
         (case get_sqe P r w of
            (Inl _, w) \<Rightarrow> (Inl (garbage_error P (trace w)), r, w)
          | (Inr _, w) \<Rightarrow>
             (let w = log_call (Sqe_prep_recv_multishot (sock_get (snd ss))) w;
                  w = log_call (Sqe_buffer_select (get_bgid (group_at r i))) w
              in (case submit P r w of
                    (Inl e, w) \<Rightarrow> (Inl e, r, w)
                  | (Inr _, w) \<Rightarrow>
                     (let (_, w) = call P (Send_byte (sock_get (fst ss))) w
                      in (case wait P r w of
                            (Inl e, w) \<Rightarrow> (Inl e, r, w)
                          | (Inr c, w) \<Rightarrow>
                             (let n = sint (cqe_result c); ok = (n = - EAGAIN \<or> n \<ge> 0)
                              in (Inr ok, r, w\<lparr>recv_multishot_cache := Some ok\<rparr>))))))))"

definition recv_multishot :: "platform \<Rightarrow> world \<Rightarrow> bool result \<times> world" where
  "recv_multishot P w =
     (case recv_multishot_cache w of
        Some b \<Rightarrow> (Inr b, w)
      | None \<Rightarrow>
          if HAVE_PREP_RECV_MULTISHOT P then
            (case create_queue P local_ring 1 w of
               (Inl e, w) \<Rightarrow> (Inl e, w)
             | (Inr r, w) \<Rightarrow>
                (let (n, w) = call P Socketpair w; fds = pair_fd P (trace w);
                     ss = (make_socket (int (fst fds)) AF_UNSPEC, make_socket (int (snd fds)) AF_UNSPEC)
                 in if n < 0
                    then (Inl (Error_no SocketPairFailed (errno_of P (trace w))), snd (ring_close P r w))
                    else (case try_recv_multishot P ss r w of
                            (rv, r, w) \<Rightarrow> (rv, end_of_check P r ss w))))
          else (Inr False, w\<lparr>recv_multishot_cache := Some False\<rparr>))"

text \<open>The processor check; the checksum code asks it once per segment.\<close>

definition sse4 :: "cpu \<Rightarrow> bool option \<Rightarrow> bool \<times> bool option" where
  "sse4 M cache =
     (case cache of
        Some b \<Rightarrow> (b, cache)
      | None \<Rightarrow> (let b = is_x86 M \<and> cpuid_sse42 M in (b, Some b)))"

section \<open>Caching\<close>

lemma read_multishot_caches:
  "read_multishot P w = (Inr b, w') \<Longrightarrow> read_multishot P w' = (Inr b, w')"
  by (auto simp: read_multishot_def call_def log_call_def Let_def split: option.splits if_splits)

lemma fold_destroy_group_caches:
  "recv_multishot_cache (fold (destroy_group P) gs w) = recv_multishot_cache w"
  by (induction gs arbitrary: w) (auto simp: destroy_group_def log_call_def)

lemma ring_close_caches: "recv_multishot_cache (snd (ring_close P r w)) = recv_multishot_cache w"
  by (simp add: ring_close_def Let_def fold_destroy_group_caches log_call_def)

lemma end_of_check_caches: "recv_multishot_cache (end_of_check P r ss w) = recv_multishot_cache w"
  by (simp add: end_of_check_def ring_close_caches socket_destroy_eq log_call_def)

lemma try_recv_multishot_caches:
  "try_recv_multishot P ss r w = (Inr b, r', w') \<Longrightarrow> recv_multishot_cache w' = Some b"
  by (auto simp: try_recv_multishot_def Let_def split: prod.splits sum.splits)

lemma recv_multishot_caches: "recv_multishot P w = (Inr b, w') \<Longrightarrow> recv_multishot_cache w' = Some b"
  by (auto simp: recv_multishot_def Let_def end_of_check_caches split: option.splits if_splits prod.splits
      sum.splits dest: try_recv_multishot_caches)

text \<open>
  The feature checks are made once: after a check has given an answer, every later call gives
  the same answer, makes no call to the system and changes nothing.
\<close>

theorem support_checks_cached:
  "(read_multishot P w = (Inr b, w') \<longrightarrow> read_multishot P w' = (Inr b, w')) \<and>
   (recv_multishot P v = (Inr b', v') \<longrightarrow> recv_multishot P v' = (Inr b', v'))"
  using read_multishot_caches recv_multishot_caches [of P v b' v'] by (auto simp: recv_multishot_def)

theorem support_checks_cached_witness:
  "\<exists>w'. read_multishot friendly initial_world = (Inr True, w') \<and>
        read_multishot friendly w' = (Inr True, w')"
proof -
  let ?c = "read_multishot friendly initial_world"
  have "fst ?c = Inr True"
    by code_simp
  then have eq: "?c = (Inr True, snd ?c)"
    by (metis prod.collapse)
  show ?thesis
    using support_checks_cached [of friendly initial_world True "snd ?c" initial_world True initial_world] eq
    by blast
qed

lemma sse4_cached: "sse4 M None = (b, c) \<Longrightarrow> sse4 M c = (b, c) \<and> (b \<longleftrightarrow> is_x86 M \<and> cpuid_sse42 M)"
  by (auto simp: sse4_def Let_def)

end
