(* ===== verification/Cidr.thy ===== *)
theory Cidr
  imports Address
begin

text \<open>
  Networks in prefix notation (\<open>src/net/address/cidr.cpp\<close>). The code masks IPv4 addresses as 32-bit
  numbers and walks over the bytes of IPv6 addresses; both are the comparison, or the clearing, of
  the leading bits.
\<close>

section \<open>The class\<close>

record cidr =
  cidr_address :: sock_address
  cidr_prefix :: u8

definition empty_cidr :: cidr where
  "empty_cidr = \<lparr>cidr_address = empty_address, cidr_prefix = 0\<rparr>"

definition make_cidr :: "sock_address \<Rightarrow> u8 \<Rightarrow> cidr throws" where
  "make_cidr a p =
     (if ss_family a = AF_INET then
        (if p > 32 then Inl (Invalid_argument ''prefix for IPv4 must be 0-32'')
         else Inr \<lparr>cidr_address = a, cidr_prefix = p\<rparr>)
      else if ss_family a = AF_INET6 then
        (if p > 128 then Inl (Invalid_argument ''prefix for IPv6 must be 0-128'')
         else Inr \<lparr>cidr_address = a, cidr_prefix = p\<rparr>)
      else Inl (Invalid_argument ''address must be IPv4 or IPv6''))"

definition get_address :: "cidr \<Rightarrow> sock_address" where "get_address c = cidr_address c"
definition get_prefix :: "cidr \<Rightarrow> u8" where "get_prefix c = cidr_prefix c"
definition is_ip4 :: "cidr \<Rightarrow> bool" where "is_ip4 c \<longleftrightarrow> ss_family (cidr_address c) = AF_INET"
definition is_ip6 :: "cidr \<Rightarrow> bool" where "is_ip6 c \<longleftrightarrow> ss_family (cidr_address c) = AF_INET6"
definition cidr_is_valid :: "cidr \<Rightarrow> bool" where "cidr_is_valid c \<longleftrightarrow> is_ip (cidr_address c)"

definition cidr_str :: "net_lib \<Rightarrow> cidr \<Rightarrow> string throws" where
  "cidr_str N c = (case address_str N False (cidr_address c) of
      Inl e \<Rightarrow> Inl e | Inr s \<Rightarrow> Inr (s @ ''/'' @ decimal (unat (cidr_prefix c))))"

text \<open>\<open>ntohl\<close> and \<open>htonl\<close>.\<close>

definition ip4_value :: "sock_address \<Rightarrow> u32" where "ip4_value a = be_val (ip4_bytes a)"

definition ip4_mask :: "u8 \<Rightarrow> u32" where
  "ip4_mask p = (if p = 0 then 0 else push_bit (32 - unat p) 0xFFFFFFFF)"

text \<open>The mask of the byte in which the prefix ends, \<open>0xFFU << (8U - rem_bits)\<close> cut to a byte.\<close>

definition byte_mask :: "nat \<Rightarrow> u8" where
  "byte_mask rem_bits = ucast (push_bit (8 - rem_bits) (0xFF :: u32))"

definition mask_ip6 :: "u8 \<Rightarrow> u8 list \<Rightarrow> u8 list" where
  "mask_ip6 p b =
     (let full_bytes = unat p div 8;
          rem_bits = unat p mod 8;
          start = full_bytes + (if rem_bits \<noteq> 0 then 1 else 0);
          b = take start b @ replicate (16 - start) 0
      in if rem_bits \<noteq> 0 \<and> full_bytes < 16
         then b[full_bytes := b ! full_bytes AND byte_mask rem_bits] else b)"

text \<open>The copies into \<open>sockaddr_in\<close> and \<open>sockaddr_in6\<close> keep 14 and 26 bytes after the family.\<close>

definition masked_sockaddr :: "cidr \<Rightarrow> raw_sockaddr" where
  "masked_sockaddr c =
     (let a = cidr_address c
      in if ss_family a = AF_INET
         then \<lparr>rs_family = AF_INET, rs_data = store_at 2 (be_bytes (ip4_value a AND ip4_mask (cidr_prefix c))) (take 14 (ss_data a))\<rparr>
         else \<lparr>rs_family = AF_INET6, rs_data = store_at 6 (mask_ip6 (cidr_prefix c) (ip6_bytes a)) (take 26 (ss_data a))\<rparr>)"

definition get_network :: "endian \<Rightarrow> cidr \<Rightarrow> cidr throws" where
  "get_network e c =
     (if \<not> cidr_is_valid c \<or> \<not> is_ip (cidr_address c) then Inr empty_cidr
      else case address_get (cidr_address c) of
        Inl x \<Rightarrow> Inl x
      | Inr sa \<Rightarrow>
         if ss_family sa = AF_INET then
           (if cidr_prefix c > 32 then Inr empty_cidr
            else case from_sockaddr e (Some (masked_sockaddr c)) sizeof_sockaddr_in of
                Inl x \<Rightarrow> Inl x | Inr net \<Rightarrow> make_cidr net (cidr_prefix c))
         else if ss_family sa = AF_INET6 then
           (if cidr_prefix c > 128 then Inr empty_cidr
            else case from_sockaddr e (Some (masked_sockaddr c)) sizeof_sockaddr_in6 of
                Inl x \<Rightarrow> Inl x | Inr net \<Rightarrow> make_cidr net (cidr_prefix c))
         else Inr empty_cidr)"

definition same_prefix6 :: "u8 \<Rightarrow> u8 list \<Rightarrow> u8 list \<Rightarrow> bool" where
  "same_prefix6 p nb ab =
     (let full_bytes = unat p div 8; rem_bits = unat p mod 8
      in if \<exists>i \<in> {0..<full_bytes}. nb ! i \<noteq> ab ! i then False
         else if rem_bits \<noteq> 0 \<and> full_bytes < 16
                 \<and> nb ! full_bytes AND byte_mask rem_bits \<noteq> ab ! full_bytes AND byte_mask rem_bits
         then False else True)"

definition is_in_network :: "cidr \<Rightarrow> sock_address \<Rightarrow> bool" where
  "is_in_network c a =
     (let n = cidr_address c; p = cidr_prefix c
      in if \<not> cidr_is_valid c \<or> \<not> is_ip n \<or> \<not> is_ip a then False
         else if ss_family n \<noteq> ss_family a then False
         else if ss_family n = AF_INET then
           (if p > 32 then False else ip4_value n AND ip4_mask p = ip4_value a AND ip4_mask p)
         else if ss_family n = AF_INET6 then
           (if p > 128 then False else same_prefix6 p (ip6_bytes n) (ip6_bytes a))
         else False)"

section \<open>Leading bits\<close>

text \<open>The bits of an address as they are sent, the first bit of each byte being the highest.\<close>

definition byte_bits :: "u8 \<Rightarrow> bool list" where
  "byte_bits b = map (bit b) [7, 6, 5, 4, 3, 2, 1, 0]"

definition net_bits :: "u8 list \<Rightarrow> bool list" where
  "net_bits bs = concat (map byte_bits bs)"

definition ip_bytes :: "sock_address \<Rightarrow> u8 list" where
  "ip_bytes a = (if ss_family a = AF_INET then ip4_bytes a else ip6_bytes a)"

definition network_part :: "cidr \<Rightarrow> bool list" where
  "network_part c = take (unat (cidr_prefix c)) (net_bits (ip_bytes (cidr_address c)))"

lemma length_byte_bits [simp]: "length (byte_bits b) = 8"
  by (simp add: byte_bits_def)

lemma byte_bits_nth: "i < 8 \<Longrightarrow> byte_bits b ! i = bit b (7 - i)"
  by (auto simp: byte_bits_def nth_Cons' less_Suc_eq numeral_eq_Suc)

lemma byte_bits_inj [simp]: "byte_bits a = byte_bits b \<longleftrightarrow> a = b"
proof
  assume eq: "byte_bits a = byte_bits b"
  show "a = b"
  proof (rule bit_word_eqI)
    fix n assume "n < LENGTH(8)"
    then show "bit a n = bit b n"
      using byte_bits_nth [of "7 - n" a] byte_bits_nth [of "7 - n" b] eq by simp
  qed
qed simp

lemma net_bits_simps [simp]: "net_bits [] = []" "net_bits (b # bs) = byte_bits b @ net_bits bs"
  by (simp_all add: net_bits_def)

lemma length_net_bits [simp]: "length (net_bits bs) = 8 * length bs"
  by (induction bs) simp_all

lemma net_bits_append [simp]: "net_bits (xs @ ys) = net_bits xs @ net_bits ys"
  by (simp add: net_bits_def)

lemma net_bits_inj: "length xs = length ys \<Longrightarrow> net_bits xs = net_bits ys \<longleftrightarrow> xs = ys"
  by (induction xs ys rule: list_induct2) auto

lemma take_net_bits: "take (8 * n) (net_bits bs) = net_bits (take n bs)"
  by (induction bs arbitrary: n) (case_tac n; simp)+

lemma bit_byte_mask: "k < 8 \<Longrightarrow> 0 < r \<Longrightarrow> r < 8 \<Longrightarrow> bit (byte_mask r) k \<longleftrightarrow> 8 - r \<le> k"
  by (auto simp: byte_mask_def bit_simps numeral_eq_Suc less_Suc_eq)

lemma take_bits_mask:
  assumes "0 < r" "r < 8"
  shows "take r (byte_bits a) = take r (byte_bits b) \<longleftrightarrow> a AND byte_mask r = b AND byte_mask r"
proof -
  have "take r (byte_bits a) = take r (byte_bits b) \<longleftrightarrow> (\<forall>i < r. bit a (7 - i) = bit b (7 - i))"
    using assms by (auto simp: list_eq_iff_nth_eq byte_bits_nth)
  also have "\<dots> \<longleftrightarrow> (\<forall>k < 8. 8 - r \<le> k \<longrightarrow> bit a k = bit b k)"
  proof safe
    fix k assume *: "\<forall>i < r. bit a (7 - i) = bit b (7 - i)" and k: "k < 8" "8 - r \<le> k"
    show "bit a k" if "bit b k" using * [rule_format, of "7 - k"] k that assms by simp
    show "bit b k" if "bit a k" using * [rule_format, of "7 - k"] k that assms by simp
  next
    fix i assume *: "\<forall>k < 8. 8 - r \<le> k \<longrightarrow> bit a k = bit b k" and i: "i < r"
    show "bit a (7 - i)" if "bit b (7 - i)" using * [rule_format, of "7 - i"] i that assms by simp
    show "bit b (7 - i)" if "bit a (7 - i)" using * [rule_format, of "7 - i"] i that assms by simp
  qed
  also have "\<dots> \<longleftrightarrow> a AND byte_mask r = b AND byte_mask r"
  proof safe
    assume *: "\<forall>k < 8. 8 - r \<le> k \<longrightarrow> bit a k = bit b k"
    show "a AND byte_mask r = b AND byte_mask r"
      by (rule bit_word_eqI) (use assms * in \<open>auto simp: bit_and_iff bit_byte_mask\<close>)
  next
    fix k assume *: "a AND byte_mask r = b AND byte_mask r" and k: "k < 8" "8 - r \<le> k"
    have "bit (a AND byte_mask r) k = bit (b AND byte_mask r) k" using * by simp
    then show "bit b k" if "bit a k" using that k assms by (simp add: bit_and_iff bit_byte_mask)
    show "bit a k" if "bit b k"
      using that k assms \<open>bit (a AND byte_mask r) k = bit (b AND byte_mask r) k\<close> by (simp add: bit_and_iff bit_byte_mask)
  qed
  finally show ?thesis .
qed

lemma take_net_bits_at:
  assumes "q < length bs" "r \<le> 8"
  shows "take (8 * q + r) (net_bits bs) = net_bits (take q bs) @ take r (byte_bits (bs ! q))"
proof -
  have "net_bits bs = net_bits (take q bs) @ byte_bits (bs ! q) @ net_bits (drop (Suc q) bs)"
    using assms by (metis append_Cons id_take_nth_drop net_bits_append net_bits_simps(2))
  then show ?thesis
    using assms by simp
qed

lemma take_eq_iff_nth: "q \<le> length xs \<Longrightarrow> q \<le> length ys \<Longrightarrow> take q xs = take q ys \<longleftrightarrow> (\<forall>i \<in> {0..<q}. xs ! i = ys ! i)"
  by (auto simp: list_eq_iff_nth_eq)

lemma same_prefix6_bits:
  assumes "length nb = 16" "length ab = 16" "p \<le> 128"
  shows "same_prefix6 p nb ab \<longleftrightarrow> take (unat p) (net_bits nb) = take (unat p) (net_bits ab)"
proof -
  define q where "q = unat p div 8"
  define r where "r = unat p mod 8"
  have p: "unat p = 8 * q + r" "r < 8" "unat p \<le> 128"
    using assms(3) by (simp_all add: q_def r_def word_le_nat_alt)
  have s: "same_prefix6 p nb ab \<longleftrightarrow> take q nb = take q ab \<and> (r \<noteq> 0 \<and> q < 16 \<longrightarrow> nb ! q AND byte_mask r = ab ! q AND byte_mask r)"
    using take_eq_iff_nth [of q nb ab] p assms by (auto simp: same_prefix6_def Let_def q_def [symmetric] r_def [symmetric])
  have len: "length (net_bits (take q nb)) = length (net_bits (take q ab))"
    using assms by simp
  show ?thesis
  proof (cases "r = 0")
    case True
    then show ?thesis
      using s p assms by (simp add: take_net_bits net_bits_inj)
  next
    case False
    then have "q < 16" using p by linarith
    then show ?thesis
      using s p False len assms take_net_bits_at [of q nb r] take_net_bits_at [of q ab r]
      by (simp add: net_bits_inj take_bits_mask)
  qed
qed

lemma take_masked_bits:
  assumes "0 < r" "r < 8"
  shows "byte_bits (b AND byte_mask r) = take r (byte_bits b) @ replicate (8 - r) False"
proof (rule nth_equalityI)
  fix i assume "i < length (byte_bits (b AND byte_mask r))"
  then have i: "i < 8" by simp
  then show "byte_bits (b AND byte_mask r) ! i = (take r (byte_bits b) @ replicate (8 - r) False) ! i"
    using assms bit_byte_mask [of "7 - i" r] by (auto simp: byte_bits_nth bit_and_iff nth_append)
qed (use assms in simp)

lemma net_bits_zeros: "net_bits (replicate n 0) = replicate (8 * n) False"
  by (induction n) (simp_all add: byte_bits_def replicate_add [symmetric] numeral_eq_Suc)

lemma mask_ip6_bits:
  assumes "length b = 16" "p \<le> 128"
  shows "net_bits (mask_ip6 p b) = take (unat p) (net_bits b) @ replicate (128 - unat p) False"
    and "length (mask_ip6 p b) = 16"
proof -
  define q where "q = unat p div 8"
  define r where "r = unat p mod 8"
  have p: "unat p = 8 * q + r" "r < 8" "unat p \<le> 128"
    using assms(2) by (simp_all add: q_def r_def word_le_nat_alt)
  have "net_bits (mask_ip6 p b) = take (unat p) (net_bits b) @ replicate (128 - unat p) False \<and> length (mask_ip6 p b) = 16"
  proof (cases "r = 0")
    case True
    then have "mask_ip6 p b = take q b @ replicate (16 - q) 0" "q \<le> 16"
      using p by (simp_all add: mask_ip6_def Let_def q_def [symmetric] r_def [symmetric])
    then show ?thesis
      using True p assms by (simp add: take_net_bits net_bits_zeros diff_mult_distrib2)
  next
    case False
    then have q: "q < 16" using p by linarith
    have "mask_ip6 p b = (take (Suc q) b @ replicate (16 - Suc q) 0)[q := b ! q AND byte_mask r]"
      using False q assms by (simp add: mask_ip6_def Let_def q_def [symmetric] r_def [symmetric] nth_append)
    also have "take (Suc q) b = take q b @ [b ! q]"
      using q assms by (simp add: take_Suc_conv_app_nth)
    finally have m: "mask_ip6 p b = take q b @ (b ! q AND byte_mask r) # replicate (16 - Suc q) 0"
      using q assms by (simp add: list_update_append)
    have "128 - unat p = (8 - r) + 8 * (16 - Suc q)"
      using p q by simp
    then have "replicate (8 - r) False @ replicate (8 * (16 - Suc q)) False = replicate (128 - unat p) False"
      by (metis replicate_add)
    then show ?thesis
      using q p False assms take_net_bits_at [of q b r] by (simp add: m take_masked_bits net_bits_zeros)
  qed
  then show "net_bits (mask_ip6 p b) = take (unat p) (net_bits b) @ replicate (128 - unat p) False" "length (mask_ip6 p b) = 16"
    by simp_all
qed

text \<open>The same for the 32-bit arithmetic on IPv4 addresses.\<close>

lemma net_bits_nth: "i < 8 * length bs \<Longrightarrow> net_bits bs ! i = bit (bs ! (i div 8)) (7 - i mod 8)"
proof (induction bs arbitrary: i)
  case (Cons b bs)
  show ?case
  proof (cases "i < 8")
    case True
    then show ?thesis by (simp add: nth_append byte_bits_nth)
  next
    case False
    then have "i div 8 = Suc ((i - 8) div 8)" "i mod 8 = (i - 8) mod 8"
      by (simp_all add: le_div_geq le_mod_geq)
    then show ?thesis
      using False Cons.IH [of "i - 8"] Cons.prems by (simp add: nth_append)
  qed
qed simp

lemma net_bits_be_val:
  assumes "length bs = 4" "i < 32"
  shows "net_bits bs ! i = bit (be_val bs) (31 - i)"
proof -
  obtain a b c k where i: "i = 8 * a + b" "b < 8" "a < 4" and c: "c = 3 - a" "k = 7 - b"
    using assms(2) by (intro that [of "i div 8" "i mod 8"]) auto
  have "31 - i = 8 * c + k" "k < 8"
    using i c by simp_all
  then have "(31 - i) div 8 = c" "(31 - i) mod 8 = k"
    by simp_all
  then have d: "(31 - i) div 8 = 3 - i div 8" "(31 - i) mod 8 = 7 - i mod 8" "i div 8 < 4"
    using i c by simp_all
  have r: "rev bs ! (3 - j) = bs ! j \<and> 3 - j < 4" if "j < 4" for j
    using that assms(1) by (auto simp: numeral_eq_Suc length_Suc_conv less_Suc_eq)
  have "31 - i < 32" by simp
  with d r [OF d(3)] show ?thesis
    using assms net_bits_nth [of i bs] by (simp add: be_val_def bit_le_val)
qed

lemma bit_ip4_mask:
  assumes "p \<le> 32" "i < 32"
  shows "bit (ip4_mask p) (31 - i) \<longleftrightarrow> i < unat p"
proof -
  have p: "unat p \<le> 32" using assms(1) by (simp add: word_le_nat_alt)
  show ?thesis
  proof (cases "p = 0")
    case True
    then show ?thesis by (simp add: ip4_mask_def)
  next
    case False
    have "(0xFFFFFFFF :: u32) = - 1" by simp
    then have m: "ip4_mask p = push_bit (32 - unat p) (- 1)" and "0 < unat p"
      using False by (simp_all only: ip4_mask_def if_False unat_gt_0 not_False_eq_True)
    have "bit (ip4_mask p) (31 - i) \<longleftrightarrow> 32 - unat p \<le> 31 - i"
      unfolding m by (auto simp: bit_simps)
    then show ?thesis
      using p assms(2) \<open>0 < unat p\<close> by arith
  qed
qed

lemma ip4_mask_bits:
  assumes "length nb = 4" "length ab = 4" "p \<le> 32"
  shows "be_val nb AND ip4_mask p = be_val ab AND ip4_mask p \<longleftrightarrow> take (unat p) (net_bits nb) = take (unat p) (net_bits ab)"
proof -
  have p: "unat p \<le> 32" using assms(3) by (simp add: word_le_nat_alt)
  have "take (unat p) (net_bits nb) = take (unat p) (net_bits ab) \<longleftrightarrow> (\<forall>i < unat p. bit (be_val nb) (31 - i) = bit (be_val ab) (31 - i))"
    using assms p by (auto simp: list_eq_iff_nth_eq net_bits_be_val)
  also have "\<dots> \<longleftrightarrow> (\<forall>k < 32. bit (be_val nb AND ip4_mask p) k = bit (be_val ab AND ip4_mask p) k)"
  proof safe
    fix k :: nat assume *: "\<forall>i < unat p. bit (be_val nb) (31 - i) = bit (be_val ab) (31 - i)" and k: "k < 32"
    show "bit (be_val ab AND ip4_mask p) k" if "bit (be_val nb AND ip4_mask p) k"
      using that * [rule_format, of "31 - k"] bit_ip4_mask [OF assms(3), of "31 - k"] k by (simp add: bit_and_iff)
    show "bit (be_val nb AND ip4_mask p) k" if "bit (be_val ab AND ip4_mask p) k"
      using that * [rule_format, of "31 - k"] bit_ip4_mask [OF assms(3), of "31 - k"] k by (simp add: bit_and_iff)
  next
    fix i assume *: "\<forall>k < 32. bit (be_val nb AND ip4_mask p) k = bit (be_val ab AND ip4_mask p) k" and i: "i < unat p"
    show "bit (be_val ab) (31 - i)" if "bit (be_val nb) (31 - i)"
      using that * [rule_format, of "31 - i"] bit_ip4_mask [OF assms(3), of i] i p by (simp add: bit_and_iff)
    show "bit (be_val nb) (31 - i)" if "bit (be_val ab) (31 - i)"
      using that * [rule_format, of "31 - i"] bit_ip4_mask [OF assms(3), of i] i p by (simp add: bit_and_iff)
  qed
  also have "\<dots> \<longleftrightarrow> be_val nb AND ip4_mask p = be_val ab AND ip4_mask p"
    by (auto intro: bit_word_eqI)
  finally show ?thesis by simp
qed

lemma ip4_masked_bits:
  assumes "length bs = 4" "p \<le> 32"
  shows "net_bits (be_bytes (be_val bs AND ip4_mask p)) = take (unat p) (net_bits bs) @ replicate (32 - unat p) False"
proof (rule nth_equalityI)
  have p: "unat p \<le> 32" using assms(2) by (simp add: word_le_nat_alt)
  show "length (net_bits (be_bytes (be_val bs AND ip4_mask p))) = length (take (unat p) (net_bits bs) @ replicate (32 - unat p) False)"
    using assms p by (simp add: be_bytes_def)
  fix i assume "i < length (net_bits (be_bytes (be_val bs AND ip4_mask p)))"
  then have i: "i < 32" by (simp add: be_bytes_def)
  then have "net_bits (be_bytes (be_val bs AND ip4_mask p)) ! i = bit (be_val bs AND ip4_mask p) (31 - i)"
    using net_bits_be_val [of "be_bytes (be_val bs AND ip4_mask p)" i] by simp
  then show "net_bits (be_bytes (be_val bs AND ip4_mask p)) ! i = (take (unat p) (net_bits bs) @ replicate (32 - unat p) False) ! i"
    using i p assms bit_ip4_mask [OF assms(2) i] by (auto simp: bit_and_iff nth_append net_bits_be_val)
qed

section \<open>Membership and network address\<close>

lemma make_cidr_cases:
  assumes "make_cidr a p = Inr c"
  shows "cidr_address c = a" "cidr_prefix c = p"
    "ss_family a = AF_INET \<and> p \<le> 32 \<or> ss_family a = AF_INET6 \<and> p \<le> 128"
  using assms by (auto simp: make_cidr_def families split: if_splits)

lemma length_ip_bytes [simp]:
  assumes "length (ss_data a) = 126"
  shows "length (ip4_bytes a) = 4" "length (ip6_bytes a) = 16"
  using assms by (simp_all add: ip4_bytes_def ip6_bytes_def)

text \<open>
  C22: membership compares exactly the leading bits. An address is in the network of a prefix that
  the constructor accepted if and only if both are valid addresses of the same family and their
  first \<open>prefix\<close> bits agree; the 32-bit masks of IPv4 and the byte loop of IPv6 implement the same
  comparison.
\<close>

theorem in_network_iff_prefix:
  assumes "make_cidr n p = Inr c" and "wf_address n" and "wf_address a"
  shows "is_in_network c a \<longleftrightarrow> is_ip n \<and> is_ip a \<and> ss_family a = ss_family n \<and>
    take (unat p) (net_bits (ip_bytes a)) = network_part c"
proof -
  note c = make_cidr_cases [OF assms(1)]
  have len: "length (ss_data n) = 126" "length (ss_data a) = 126"
    using assms(2,3) by (simp_all add: wf_address_def)
  have i: "is_in_network c a \<longleftrightarrow> is_ip n \<and> is_ip a \<and> ss_family n = ss_family a \<and>
      (if ss_family n = AF_INET then ip4_value n AND ip4_mask p = ip4_value a AND ip4_mask p
       else same_prefix6 p (ip6_bytes n) (ip6_bytes a))"
    using c by (auto simp: is_in_network_def cidr_is_valid_def Let_def families)
  show ?thesis
  proof (cases "ss_family n = AF_INET")
    case True
    then have "p \<le> 32" using c(3) by (auto simp: families)
    then show ?thesis
      using i True c(1,2) len by (auto simp: ip4_value_def ip4_mask_bits network_part_def ip_bytes_def)
  next
    case False
    then have "p \<le> 128" using c(3) by auto
    then show ?thesis
      using i False c(1,2) len by (auto simp: same_prefix6_bits network_part_def ip_bytes_def)
  qed
qed

text \<open>The network of a valid address, and its fields: the bytes around the IP address are copied.\<close>

definition network_data :: "sock_address \<Rightarrow> u8 list \<Rightarrow> u8 list" where
  "network_data a ip =
     (let off = (if ss_family a = AF_INET then 2 else 6); total = (if ss_family a = AF_INET then 14 else 26)
      in take off (ss_data a) @ ip @ drop (off + length ip) (take total (ss_data a)) @ replicate (126 - total) 0)"

lemma network_data_again:
  assumes "length (ss_data a) = 126" "ss_family b = ss_family a" "ss_data b = network_data a x"
    "length x = length y" "length y = (if ss_family a = AF_INET then 4 else 16)"
  shows "network_data b y = network_data a y"
  using assms by (auto simp: network_data_def Let_def split: if_splits)

lemma get_network_Inr:
  assumes "make_cidr n p = Inr c" and "wf_address n" and "is_ip n"
  shows "\<exists>m. get_network e c = make_cidr m p \<and> wf_address m \<and> is_ip m \<and> ss_family m = ss_family n \<and>
    net_bits (ip_bytes m) = network_part c @ replicate (8 * length (ip_bytes n) - unat p) False \<and>
    length (ip_bytes m) = length (ip_bytes n) \<and> ss_data m = network_data n (ip_bytes m) \<and>
    sa_length m = (if ss_family n = AF_INET then sizeof_sockaddr_in else sizeof_sockaddr_in6)"
proof -
  note c = make_cidr_cases [OF assms(1)]
  have len: "length (ss_data n) = 126" using assms(2) by (simp add: wf_address_def)
  have v: "cidr_is_valid c" "address_get (cidr_address c) = Inr n"
    using assms(3) c(1) by (simp_all add: cidr_is_valid_def address_get_def is_ip_def)
  show ?thesis
  proof (cases "ss_family n = AF_INET")
    case True
    then have p: "p \<le> 32" "\<not> 32 < p" using c(3) by (auto simp: families)
    define m where "m = copy_sockaddr e (masked_sockaddr c) sizeof_sockaddr_in"
    have "get_network e c = make_cidr m p"
      using v p True c(1,2) assms(3)
      by (simp add: get_network_def from_sockaddr_def masked_sockaddr_def Let_def m_def sockaddr_sizes families
          is_supported_family_def)
    moreover have "ip4_bytes m = be_bytes (ip4_value n AND ip4_mask p)" "wf_address m" "ss_family m = AF_INET"
      "sa_length m = sizeof_sockaddr_in" "ss_data m = network_data n (ip4_bytes m)"
      using True c(1,2) len
      by (simp_all add: m_def copy_sockaddr_def masked_sockaddr_def Let_def sockaddr_sizes ip4_bytes_def wf_address_def
          store_at_def slice_of_def min_def network_data_def)
    ultimately show ?thesis
      using True c(1,2) p len
      by (intro exI [of _ m])
        (simp add: ip_bytes_def network_part_def ip4_value_def ip4_masked_bits is_ip_def is_valid_def)
  next
    case False
    then have f: "ss_family n = AF_INET6" and p: "p \<le> 128" "\<not> 128 < p" using c(3) by auto
    define m where "m = copy_sockaddr e (masked_sockaddr c) sizeof_sockaddr_in6"
    have "get_network e c = make_cidr m p"
      using v p f c(1,2) assms(3)
      by (simp add: get_network_def from_sockaddr_def masked_sockaddr_def Let_def m_def sockaddr_sizes families
          is_supported_family_def)
    moreover have "ip6_bytes m = mask_ip6 p (ip6_bytes n)" "wf_address m" "ss_family m = AF_INET6"
      "sa_length m = sizeof_sockaddr_in6" "ss_data m = network_data n (ip6_bytes m)"
      using f c(1,2) len p mask_ip6_bits(2) [of "ip6_bytes n" p]
      by (simp_all add: m_def copy_sockaddr_def masked_sockaddr_def Let_def sockaddr_sizes ip6_bytes_def wf_address_def
          store_at_def slice_of_def min_def families network_data_def)
    ultimately show ?thesis
      using f c(1,2) p len mask_ip6_bits [of "ip6_bytes n" p]
      by (intro exI [of _ m]) (simp add: ip_bytes_def network_part_def is_ip_def is_valid_def families)
  qed
qed

text \<open>
  C34: the network address of a CIDR is its address with the bits after the prefix cleared: the first
  \<open>prefix\<close> bits stay, the rest is zero, the family and the prefix stay, and masking again changes
  nothing.
\<close>

theorem network_clears_host_bits:
  assumes "make_cidr n p = Inr c" and "wf_address n" and "is_ip n"
  shows "\<exists>net. get_network e c = Inr net \<and> cidr_prefix net = p \<and> ss_family (cidr_address net) = ss_family n \<and>
    is_ip (cidr_address net) \<and>
    net_bits (ip_bytes (cidr_address net)) =
      network_part c @ replicate (8 * length (ip_bytes n) - unat p) False \<and>
    get_network e net = Inr net"
proof -
  note c = make_cidr_cases [OF assms(1)]
  have total: "\<exists>net. make_cidr m p = Inr net" if "ss_family m = ss_family n" for m
    using c(3) that by (auto simp: make_cidr_def families)
  have len: "unat p \<le> 8 * length (ip_bytes n)"
    using c(3) assms(2) by (auto simp: ip_bytes_def wf_address_def word_le_nat_alt families)
  obtain m where m: "get_network e c = make_cidr m p" "wf_address m" "is_ip m" "ss_family m = ss_family n"
      "net_bits (ip_bytes m) = network_part c @ replicate (8 * length (ip_bytes n) - unat p) False"
      "length (ip_bytes m) = length (ip_bytes n)" "ss_data m = network_data n (ip_bytes m)"
      "sa_length m = (if ss_family n = AF_INET then sizeof_sockaddr_in else sizeof_sockaddr_in6)"
    using get_network_Inr [OF assms, of e] by blast
  obtain net where net: "make_cidr m p = Inr net"
    using total m(4) by blast
  note d = make_cidr_cases [OF net]
  obtain m' where m': "get_network e net = make_cidr m' p" "wf_address m'" "is_ip m'" "ss_family m' = ss_family m"
      "net_bits (ip_bytes m') = network_part net @ replicate (8 * length (ip_bytes m) - unat p) False"
      "length (ip_bytes m') = length (ip_bytes m)" "ss_data m' = network_data m (ip_bytes m')"
      "sa_length m' = (if ss_family m = AF_INET then sizeof_sockaddr_in else sizeof_sockaddr_in6)"
    using get_network_Inr [OF net m(2,3), of e] by blast
  have "network_part net = network_part c"
    using d m(5,6) len by (simp add: network_part_def c(1,2))
  then have "net_bits (ip_bytes m') = net_bits (ip_bytes m)"
    using m(5,6) m'(5) by simp
  then have ip: "ip_bytes m' = ip_bytes m"
    using m'(6) net_bits_inj by blast
  moreover have "network_data m (ip_bytes m) = network_data n (ip_bytes m)"
    using network_data_again [of n m "ip_bytes m" "ip_bytes m"] m(2,4,6,7) assms(2)
    by (auto simp: wf_address_def ip_bytes_def)
  ultimately have "m' = m"
    using m'(4,7,8) m(4,7,8) by simp
  then have "get_network e net = Inr net"
    using m'(1) net by simp
  then show ?thesis
    using m net d by auto
qed

text \<open>\<open>10.0.0.200/25\<close> and \<open>fe80::1234/13\<close> with \<open>fe87::1\<close>.\<close>

definition example_ip4 :: sock_address where
  "example_ip4 = \<lparr>ss_family = AF_INET, ss_data = [0, 0, 10, 0, 0, 200] @ replicate 120 0, sa_length = 16\<rparr>"

definition example_ip6 :: "u8 \<Rightarrow> u8 \<Rightarrow> sock_address" where
  "example_ip6 a b = \<lparr>ss_family = AF_INET6,
     ss_data = replicate 6 0 @ [0xFE, a] @ replicate 13 0 @ [b] @ replicate 104 0, sa_length = 28\<rparr>"

definition example_cidr6 :: "u8 \<Rightarrow> cidr" where
  "example_cidr6 p = \<lparr>cidr_address = example_ip6 0x80 0x34, cidr_prefix = p\<rparr>"

lemma example_cidr_facts:
  "make_cidr (example_ip6 0x80 0x34) 13 = Inr (example_cidr6 13)" "make_cidr (example_ip6 0x80 0x34) 14 = Inr (example_cidr6 14)"
  "make_cidr example_ip4 25 = Inr \<lparr>cidr_address = example_ip4, cidr_prefix = 25\<rparr>"
  "wf_address (example_ip6 0x80 0x34)" "wf_address (example_ip6 0x87 1)" "wf_address example_ip4"
  "is_ip (example_ip6 0x80 0x34)" "is_ip (example_ip6 0x87 1)" "is_ip example_ip4"
  by code_simp+

lemma example_prefix_facts:
  "take (unat (13 :: u8)) (net_bits (ip_bytes (example_ip6 0x87 1))) = network_part (example_cidr6 13)"
  "take (unat (14 :: u8)) (net_bits (ip_bytes (example_ip6 0x87 1))) \<noteq> network_part (example_cidr6 14)"
  "ss_family (example_ip6 0x87 1) = ss_family (example_ip6 0x80 0x34)"
  "network_part \<lparr>cidr_address = example_ip4, cidr_prefix = 25\<rparr> @ replicate (8 * length (ip_bytes example_ip4) - unat (25 :: u8)) False
     = net_bits [10, 0, 0, 128]"
  by code_simp+

theorem in_network_iff_prefix_witness:
  "is_in_network (example_cidr6 13) (example_ip6 0x87 1) \<and> \<not> is_in_network (example_cidr6 14) (example_ip6 0x87 1)"
  using in_network_iff_prefix [OF example_cidr_facts(1,4,5)] in_network_iff_prefix [OF example_cidr_facts(2,4,5)]
    example_cidr_facts(7,8) example_prefix_facts
  by simp

theorem network_clears_host_bits_witness:
  "\<exists>net. get_network Little_endian \<lparr>cidr_address = example_ip4, cidr_prefix = 25\<rparr> = Inr net \<and>
     net_bits (ip_bytes (cidr_address net)) = net_bits [10, 0, 0, 128]"
  using network_clears_host_bits [OF example_cidr_facts(3,6,9), of Little_endian] example_prefix_facts(4) by auto

end
