(* ===== verification/Tun_Device.thy ===== *)
theory Tun_Device
  imports Socket Cidr
begin

text \<open>
  The TUN device (\<open>include/zportal/net/tun.hpp\<close>, \<open>src/net/tun.cpp\<close>): its state, accessors, closing
  and moves. \<open>Tun_Netlink\<close> models how it is made, configured and asked for its counters.
\<close>

record tun_device =
  tun_fd :: file_descriptor
  tun_nl :: socket
  tun_index :: int
  tun_name :: string
  tun_mtu :: u32

text \<open>The default constructor leaves \<open>mtu_\<close> uninitialised; nothing reads it before it is set.\<close>

definition tun_default :: "u32 \<Rightarrow> tun_device" where
  "tun_default mtu = \<lparr>tun_fd = fd_default, tun_nl = socket_default, tun_index = 0, tun_name = [], tun_mtu = mtu\<rparr>"

definition get_fd :: "tun_device \<Rightarrow> int" where "get_fd t = fd_get (tun_fd t)"
definition get_name :: "tun_device \<Rightarrow> string" where "get_name t = tun_name t"
definition get_index :: "tun_device \<Rightarrow> int" where "get_index t = tun_index t"
definition get_mtu :: "tun_device \<Rightarrow> u32" where "get_mtu t = tun_mtu t"
definition tun_is_valid :: "tun_device \<Rightarrow> bool" where "tun_is_valid t = fd_is_valid (tun_fd t)"

text \<open>\<open>close\<close> closes the device only; the netlink socket stays open until the object ends.\<close>

definition tun_close :: "tun_device \<Rightarrow> world \<Rightarrow> tun_device \<times> world" where
  "tun_close t w = (let (d, w) = fd_close (tun_fd t) w in (t\<lparr>tun_fd := d\<rparr>, w))"

definition tun_destroy :: "tun_device \<Rightarrow> world \<Rightarrow> world" where
  "tun_destroy t w =
     (let (t, w) = tun_close t w; w = socket_destroy (tun_nl t) w in fd_destroy (tun_fd t) w)"

definition tun_move :: "tun_device \<Rightarrow> tun_device \<times> tun_device" where
  "tun_move other =
     (let (d, od) = fd_move (tun_fd other); (n, on) = socket_move (tun_nl other)
      in (\<lparr>tun_fd = d, tun_nl = n, tun_index = tun_index other, tun_name = tun_name other, tun_mtu = tun_mtu other\<rparr>,
          \<lparr>tun_fd = od, tun_nl = on, tun_index = 0, tun_name = [], tun_mtu = 0\<rparr>))"

text \<open>The move assignment between two different objects.\<close>

definition tun_move_assign :: "tun_device \<Rightarrow> tun_device \<Rightarrow> world \<Rightarrow> tun_device \<times> tun_device \<times> world" where
  "tun_move_assign t other w =
     (let (t, w) = tun_close t w;
          (d, od, w) = fd_move_assign (tun_fd t) (tun_fd other) w;
          (n, on, w) = socket_move_assign (tun_nl t) (tun_nl other) w
      in (\<lparr>tun_fd = d, tun_nl = n, tun_index = tun_index other, tun_name = tun_name other, tun_mtu = tun_mtu other\<rparr>,
          \<lparr>tun_fd = od, tun_nl = on, tun_index = 0, tun_name = [], tun_mtu = 0\<rparr>, w))"

lemma tun_close_eq:
  "tun_close t w = (t\<lparr>tun_fd := \<lparr>fd_value = invalid_fd\<rparr>\<rparr>,
     if tun_is_valid t then log_call (Close_fd (get_fd t)) w else w)"
  by (cases "tun_fd t") (auto simp: tun_close_def fd_close_def fd_reset_def tun_is_valid_def fd_is_valid_def
      get_fd_def fd_get_def invalid_fd_def)

text \<open>Both descriptors of a device are closed when it ends, the device first.\<close>

lemma tun_destroy_eq:
  "tun_destroy t w = socket_destroy (tun_nl t) (if tun_is_valid t then log_call (Close_fd (get_fd t)) w else w)"
  by (simp add: tun_destroy_def tun_close_eq fd_destroy_def fd_close_def fd_reset_def)

lemma tun_move_assign_eq:
  "tun_move_assign t other w = (other, tun_default 0, tun_destroy t w)"
  by (cases "tun_fd other"; cases "tun_nl other"; cases "sock_fd (tun_nl other)"; cases other)
    (simp add: tun_move_assign_def tun_close_eq tun_destroy_eq socket_move_assign_eq socket_destroy_eq fd_move_assign_def
      fd_close_def fd_reset_def tun_default_def fd_default_def sock_get_def fd_get_def)

lemma tun_move_eq: "tun_move other = (other, tun_default 0)"
  by (cases "tun_fd other"; cases "tun_nl other"; cases "sock_fd (tun_nl other)"; cases other)
    (simp add: tun_move_def socket_move_def fd_move_def tun_default_def fd_default_def socket_default_def)

end
