(* ===== verification/Devices.thy ===== *)
theory Devices
  imports Support_Check Tun_Device
begin

text \<open>
  The objects that a session's two data paths point to, the ring, the TUN device and the socket,
  and the memory that an \<open>iovec\<close> describes.
\<close>

text \<open>What the pointers \<open>ring_\<close>, \<open>tun_\<close> and \<open>socket_\<close> of a data path lead to.\<close>

record links =
  lk_ring :: io_uring
  lk_tun :: tun_device
  lk_socket :: socket

text \<open>The error of a request for which the kernel has no buffer.\<close>

definition ENOBUFS :: int where "ENOBUFS = 105"

section \<open>The bytes of an iovec\<close>

definition iov_bytes :: "frame_header \<Rightarrow> buffer_group \<Rightarrow> iovec \<Rightarrow> u8 list" where
  "iov_bytes h g s = (case iov_base s of
      Header_mem off \<Rightarrow> slice_of off (iov_len s) (hdr_data h)
    | Buffer_mem off \<Rightarrow> span_bytes g off (iov_len s))"

definition iov_addr :: "buffer_group \<Rightarrow> iovec \<Rightarrow> u64" where
  "iov_addr g s = (case iov_base s of Header_mem off \<Rightarrow> of_nat off | Buffer_mem off \<Rightarrow> bg_data_addr g + of_nat off)"

definition iov_span :: "frame_header \<Rightarrow> buffer_group \<Rightarrow> iovec \<Rightarrow> span" where
  "iov_span h g s = (iov_addr g s, iov_bytes h g s)"

definition gather :: "frame_header \<Rightarrow> buffer_group \<Rightarrow> iovec list \<Rightarrow> u8 list" where
  "gather h g segs = concat (map (iov_bytes h g) segs)"

text \<open>The overload of \<open>crc32c\<close> for a vector of \<open>iovec\<close>: it makes spans of the segments.\<close>

definition crc32c_iovecs :: "cpu \<Rightarrow> frame_header \<Rightarrow> buffer_group \<Rightarrow> iovec list \<Rightarrow> u32" where
  "crc32c_iovecs M h g segs = crc32c_spans M (map (iov_span h g) segs)"

lemma gather_simps [simp]:
  "gather h g [] = []" "gather h g (s # ss) = iov_bytes h g s @ gather h g ss"
  "gather h g (xs @ ys) = gather h g xs @ gather h g ys"
  by (simp_all add: gather_def)

lemma crc32c_iovecs_of: "wf_cpu M \<Longrightarrow> crc32c_iovecs M h g segs = crc32c_of (gather h g segs)"
  by (simp add: crc32c_iovecs_def crc32c_spans_of gather_def iov_span_def comp_def)

section \<open>The kernel fills a buffer\<close>

text \<open>
  What a read or a receive does before its completion: the bytes are at the front of the buffer
  \<open>bid\<close> of the group that the pointer \<open>i\<close> leads to.
\<close>

definition fill_links :: "nat \<Rightarrow> u16 \<Rightarrow> u8 list \<Rightarrow> links \<Rightarrow> links" where
  "fill_links i bid bs L = (let r = lk_ring L
     in L\<lparr>lk_ring := r\<lparr>buffer_groups := (buffer_groups r)[i := fill_buffer bid bs (buffer_groups r ! i)]\<rparr>\<rparr>)"

lemma fill_links_simps [simp]:
  "lk_tun (fill_links i bid bs L) = lk_tun L" "lk_socket (fill_links i bid bs L) = lk_socket L"
  "length (buffer_groups (lk_ring (fill_links i bid bs L))) = length (buffer_groups (lk_ring L))"
  by (simp_all add: fill_links_def Let_def)

lemma group_at_fill:
  "i < length (buffer_groups (lk_ring L)) \<Longrightarrow>
   group_at (lk_ring (fill_links i bid bs L)) i = fill_buffer bid bs (group_at (lk_ring L) i)"
  by (simp add: group_at_def fill_links_def Let_def)

end
