(* ===== verification/Receiver.thy ===== *)
theory Receiver
  imports Devices
begin

text \<open>
  The receiving data path (\<open>include/zportal/session/receiver.hpp\<close>, \<open>src/session/receiver.cpp\<close>):
  it takes the buffers that the kernel filled from the socket, cuts the byte stream into frames
  across buffer boundaries, checks each, and writes the payloads to the TUN device with one
  \<open>writev\<close> at a time. A buffer goes back to the kernel when no frame refers to it any more.

  Sizes (\<open>std::size_t\<close>) that only grow below a bound that the code checks are natural numbers;
  the counters that are decremented, \<open>used_buffers_\<close> and the reference counts, are words.
\<close>

section \<open>State\<close>

record input_buffer =
  ib_bid :: u16
  ib_size :: nat
  ib_offset :: nat

record output_frame =
  of_bids :: "u16 list"
  of_segments :: "iovec list"

datatype parse_state = PARSING_HEADER | PARSING_PAYLOAD | Unnamed_state u8

record receiver =
  rx_ring :: "addr option"
  rx_tun :: "addr option"
  rx_socket :: "addr option"
  rx_bg :: "nat option"
  rx_cooling_down :: bool
  rx_used_buffers :: u64
  rx_input_queue :: "input_buffer list"
  rx_refcounts :: "s32 list"
  rx_state :: parse_state
  rx_header :: frame_header
  rx_header_progress :: nat
  rx_frame :: output_frame
  rx_payload_progress :: nat
  rx_output_queue :: "output_frame list"
  rx_write_in_progress :: bool

definition empty_frame :: output_frame where
  "empty_frame = \<lparr>of_bids = [], of_segments = []\<rparr>"

definition new_receiver :: "platform \<Rightarrow> receiver" where
  "new_receiver P = \<lparr>rx_ring = None, rx_tun = None, rx_socket = None, rx_bg = None,
     rx_cooling_down = False, rx_used_buffers = 0, rx_input_queue = [], rx_refcounts = [],
     rx_state = PARSING_HEADER, rx_header = new_header (byte_order P), rx_header_progress = 0,
     rx_frame = empty_frame, rx_payload_progress = 0, rx_output_queue = [], rx_write_in_progress = False\<rparr>"

definition rx_is_valid :: "receiver \<Rightarrow> bool" where
  "rx_is_valid rx \<longleftrightarrow> rx_ring rx \<noteq> None \<and> rx_tun rx \<noteq> None \<and> rx_socket rx \<noteq> None \<and> rx_bg rx \<noteq> None"

text \<open>The buffer group that \<open>bg_\<close> points to.\<close>

definition rx_group :: "links \<Rightarrow> receiver \<Rightarrow> buffer_group" where
  "rx_group L rx = group_at (lk_ring L) (the (rx_bg rx))"

definition create_receiver ::
    "platform \<Rightarrow> addr \<Rightarrow> addr \<Rightarrow> addr \<Rightarrow> u16 \<Rightarrow> u32 \<Rightarrow> io_uring \<Rightarrow> world \<Rightarrow> receiver result \<times> io_uring \<times> world" where
  "create_receiver P ring tun sock queue_length buffer_size r w =
     (let rx = (new_receiver P)\<lparr>rx_ring := Some ring, rx_tun := Some tun, rx_socket := Some sock\<rparr>
      in if queue_length = 0 \<or> buffer_size = 0 then (Inl (Error InvalidArgument), r, w)
         else (let (ok, w) = alloc P w
               in if \<not> ok then (Inl (Error NotEnoughMemory), r, w)
                  else (let rx = rx\<lparr>rx_refcounts := replicate (unat queue_length) 0\<rparr>
                        in (case create_buffer_group P queue_length buffer_size r w of
                              (Inl e, r, w) \<Rightarrow> (Inl e, r, w)
                            | (Inr bg, r, w) \<Rightarrow> (Inr (rx\<lparr>rx_bg := Some bg\<rparr>), r, w)))))"

text \<open>The move constructor: the new object, and what is left of the old one.\<close>

definition rx_move :: "platform \<Rightarrow> receiver \<Rightarrow> receiver \<times> receiver" where
  "rx_move P other =
     (other, \<lparr>rx_ring = None, rx_tun = None, rx_socket = None, rx_bg = None,
        rx_cooling_down = False, rx_used_buffers = 0, rx_input_queue = [], rx_refcounts = [],
        rx_state = PARSING_HEADER, rx_header = new_header (byte_order P), rx_header_progress = 0,
        rx_frame = empty_frame, rx_payload_progress = 0, rx_output_queue = [], rx_write_in_progress = False\<rparr>)"

section \<open>Arming a receive\<close>

definition arm_recv :: "platform \<Rightarrow> links \<Rightarrow> receiver \<Rightarrow> world \<Rightarrow> unit result \<times> world" where
  "arm_recv P L rx w =
     (if \<not> rx_is_valid rx then (Inl (Error InvalidReceiver), w)
      else case get_sqe P (lk_ring L) w of
        (Inl e, w) \<Rightarrow> (Inl e, w)
      | (Inr _, w) \<Rightarrow>
         (let fd = sock_get (lk_socket L);
              w = log_call (Sqe_set_data64 (serialize (set_type RECV new_operation))) w;
              (prepared, w) =
                (if HAVE_PREP_RECV_MULTISHOT P then
                   (case recv_multishot P w of
                      (Inl e, w) \<Rightarrow> (Inl e, w)
                    | (Inr multishot, w) \<Rightarrow>
                        (Inr (), log_call (if multishot then Sqe_prep_recv_multishot fd else Sqe_prep_recv fd) w))
                 else (Inr (), log_call (Sqe_prep_recv fd) w))
          in (case prepared of
                Inl e \<Rightarrow> (Inl e, w)
              | Inr _ \<Rightarrow>
                 (let w = log_call (Sqe_buffer_select (get_bgid (rx_group L rx))) w
                  in (case submit P (lk_ring L) w of
                        (Inl e, w) \<Rightarrow> (Inl e, w)
                      | (Inr _, w) \<Rightarrow> (Inr (), w))))))"

section \<open>Writing frames to the TUN device\<close>

definition kick_write :: "platform \<Rightarrow> links \<Rightarrow> receiver \<Rightarrow> world \<Rightarrow> unit result \<times> receiver \<times> world" where
  "kick_write P L rx w =
     (if \<not> rx_is_valid rx then (Inl (Error InvalidReceiver), rx, w)
      else if rx_write_in_progress rx then (Inr (), rx, w)
      else case rx_output_queue rx of
        [] \<Rightarrow> (Inr (), rx, w)
      | frame # _ \<Rightarrow>
         (case get_sqe P (lk_ring L) w of
            (Inl e, w) \<Rightarrow> (Inl e, rx, w)
          | (Inr _, w) \<Rightarrow>
             (let w = log_call (Sqe_prep_writev (get_fd (lk_tun L)) (of_segments frame)) w;
                  w = log_call (Sqe_set_data64 (serialize (set_type WRITE new_operation))) w
              in (case submit P (lk_ring L) w of
                    (Inl e, w) \<Rightarrow> (Inl e, rx, w)
                  | (Inr _, w) \<Rightarrow> (Inr (), rx\<lparr>rx_write_in_progress := True\<rparr>, w)))))"

section \<open>Parsing\<close>

definition set_front :: "input_buffer \<Rightarrow> receiver \<Rightarrow> receiver" where
  "set_front b rx = rx\<lparr>rx_input_queue := b # tl (rx_input_queue rx)\<rparr>"

text \<open>The branch for \<open>PARSING_HEADER\<close>.\<close>

definition parse_header ::
    "platform \<Rightarrow> links \<Rightarrow> input_buffer \<Rightarrow> receiver \<Rightarrow> world \<Rightarrow> unit result \<times> receiver \<times> world" where
  "parse_header P L b rx w =
     (if rx_header_progress rx \<ge> wire_size then (Inl (Error InvalidState), rx, w)
      else case get_buffer (rx_group L rx) (ib_bid b) (Some (of_nat (ib_size b))) of
        Inl e \<Rightarrow> (Inl e, rx, w)
      | Inr sp \<Rightarrow>
         (let g = rx_group L rx;
              n = min (ib_size b - ib_offset b) (wire_size - rx_header_progress rx);
              bytes = span_bytes g (sp_off sp + ib_offset b) n;
              h = (rx_header rx)\<lparr>hdr_data := store_at (rx_header_progress rx) bytes (hdr_data (rx_header rx))\<rparr>;
              rx = set_front (b\<lparr>ib_offset := ib_offset b + n\<rparr>) rx;
              rx = rx\<lparr>rx_header := h, rx_header_progress := rx_header_progress rx + n\<rparr>
          in if rx_header_progress rx = wire_size then
               (let rx = rx\<lparr>rx_header_progress := 0\<rparr>
                in if \<not> is_magic_valid (byte_order P) h then (Inl (Error InvalidMagic), rx, w)
                   else if get_size (byte_order P) h = 0 \<or> get_size (byte_order P) h > get_mtu (lk_tun L)
                   then (Inl (Error InvalidSize), rx, w)
                   else (Inr (), rx\<lparr>rx_state := PARSING_PAYLOAD\<rparr>, w))
             else (Inr (), rx, w)))"

definition frame_complete ::
    "platform \<Rightarrow> links \<Rightarrow> receiver \<Rightarrow> world \<Rightarrow> unit result \<times> receiver \<times> world" where
  "frame_complete P L rx w =
     (let rx = rx\<lparr>rx_payload_progress := 0\<rparr>
      in if get_crc (byte_order P) (rx_header rx) \<noteq>
            crc32c_iovecs (processor P) (rx_header rx) (rx_group L rx) (of_segments (rx_frame rx))
         then (Inl (Error FrameCrcMismatch), rx, w)
         else (let (ok, w) = alloc P w
               in if \<not> ok then (Inl (Error NotEnoughMemory), rx, w)
                  else (Inr (), rx\<lparr>rx_output_queue := rx_output_queue rx @ [rx_frame rx],
                                   rx_frame := empty_frame, rx_state := PARSING_HEADER\<rparr>, w)))"

text \<open>The branch for \<open>PARSING_PAYLOAD\<close>.\<close>

definition parse_payload ::
    "platform \<Rightarrow> links \<Rightarrow> input_buffer \<Rightarrow> receiver \<Rightarrow> world \<Rightarrow> unit result \<times> receiver \<times> world" where
  "parse_payload P L b rx w =
     (let payload_size = unat (get_size (byte_order P) (rx_header rx))
      in if rx_payload_progress rx \<ge> payload_size then (Inl (Error InvalidState), rx, w)
         else case get_buffer (rx_group L rx) (ib_bid b) (Some (of_nat (ib_size b))) of
           Inl e \<Rightarrow> (Inl e, rx, w)
         | Inr sp \<Rightarrow>
            (let n = min (ib_size b - ib_offset b) (payload_size - rx_payload_progress rx);
                 i = unat (ib_bid b);
                 rx = rx\<lparr>rx_refcounts := (rx_refcounts rx)[i := rx_refcounts rx ! i + 1]\<rparr>;
                 (ok, w) = alloc P w
             in if \<not> ok then (Inl (Error NotEnoughMemory), rx, w)
                else (let rx = rx\<lparr>rx_frame := (rx_frame rx)\<lparr>of_bids := of_bids (rx_frame rx) @ [ib_bid b]\<rparr>\<rparr>;
                          (ok, w) = alloc P w
                      in if \<not> ok then (Inl (Error NotEnoughMemory), rx, w)
                         else (let seg = \<lparr>iov_base = Buffer_mem (sp_off sp + ib_offset b), iov_len = n\<rparr>;
                                   rx = rx\<lparr>rx_frame := (rx_frame rx)\<lparr>of_segments := of_segments (rx_frame rx) @ [seg]\<rparr>\<rparr>;
                                   rx = set_front (b\<lparr>ib_offset := ib_offset b + n\<rparr>) rx;
                                   rx = rx\<lparr>rx_payload_progress := rx_payload_progress rx + n\<rparr>
                               in if rx_payload_progress rx = payload_size then frame_complete P L rx w
                                  else (Inr (), rx, w)))))"

text \<open>The end of the loop's body: a buffer that has been read is popped, and returned if no frame uses it.\<close>

definition finish_buffer :: "platform \<Rightarrow> links \<Rightarrow> receiver \<Rightarrow> world \<Rightarrow> unit result \<times> receiver \<times> world" where
  "finish_buffer P L rx w =
     (let b = hd (rx_input_queue rx)
      in if ib_offset b = ib_size b then
           (if rx_refcounts rx ! unat (ib_bid b) = 0 then
              (case return_buffer P (rx_group L rx) (ib_bid b) w of
                 (Inl e, w) \<Rightarrow> (Inl e, rx, w)
               | (Inr _, w) \<Rightarrow>
                  (Inr (), rx\<lparr>rx_used_buffers := rx_used_buffers rx - 1,
                              rx_input_queue := tl (rx_input_queue rx)\<rparr>, w))
            else (Inr (), rx\<lparr>rx_input_queue := tl (rx_input_queue rx)\<rparr>, w))
         else (Inr (), rx, w))"

text \<open>One pass through the loop's body, with a non-empty input queue.\<close>

definition parse_step :: "platform \<Rightarrow> links \<Rightarrow> receiver \<Rightarrow> world \<Rightarrow> unit result \<times> receiver \<times> world" where
  "parse_step P L rx w =
     (let b = hd (rx_input_queue rx)
      in if ib_offset b \<ge> ib_size b then (Inl (Error InvalidState), rx, w)
         else (case (case rx_state rx of
                       PARSING_HEADER \<Rightarrow> parse_header P L b rx w
                     | PARSING_PAYLOAD \<Rightarrow> parse_payload P L b rx w
                     | Unnamed_state _ \<Rightarrow> (Inl (Error InvalidEnumValue), rx, w)) of
                 (Inl e, rx, w) \<Rightarrow> (Inl e, rx, w)
               | (Inr _, rx, w) \<Rightarrow> finish_buffer P L rx w))"

text \<open>The bytes that the input queue still holds: what the loop uses up.\<close>

definition bytes_left :: "receiver \<Rightarrow> nat" where
  "bytes_left rx = (\<Sum>b \<leftarrow> rx_input_queue rx. ib_size b - ib_offset b)"

lemma set_front_queue [simp]:
  "rx_input_queue (set_front b rx) = b # tl (rx_input_queue rx)"
  by (simp add: set_front_def)

lemma set_front_fields [simp]:
  "rx_state (set_front b rx) = rx_state rx" "rx_header (set_front b rx) = rx_header rx"
  "rx_header_progress (set_front b rx) = rx_header_progress rx" "rx_frame (set_front b rx) = rx_frame rx"
  "rx_payload_progress (set_front b rx) = rx_payload_progress rx" "rx_refcounts (set_front b rx) = rx_refcounts rx"
  "rx_output_queue (set_front b rx) = rx_output_queue rx" "rx_bg (set_front b rx) = rx_bg rx"
  "rx_ring (set_front b rx) = rx_ring rx" "rx_tun (set_front b rx) = rx_tun rx"
  "rx_socket (set_front b rx) = rx_socket rx" "rx_used_buffers (set_front b rx) = rx_used_buffers rx"
  "rx_cooling_down (set_front b rx) = rx_cooling_down rx"
  "rx_write_in_progress (set_front b rx) = rx_write_in_progress rx"
  by (simp_all add: set_front_def)

lemma frame_complete_queue:
  "frame_complete P L rx w = (Inr (), rx', w') \<Longrightarrow> rx_input_queue rx' = rx_input_queue rx"
  by (auto simp: frame_complete_def Let_def split: if_splits prod.splits)

lemma parse_header_queue:
  assumes "parse_header P L b rx w = (Inr (), rx', w')" and "ib_offset b < ib_size b"
  shows "\<exists>n > 0. n \<le> ib_size b - ib_offset b \<and>
    rx_input_queue rx' = b\<lparr>ib_offset := ib_offset b + n\<rparr> # tl (rx_input_queue rx)"
  using assms
  by (intro exI [of _ "min (ib_size b - ib_offset b) (wire_size - rx_header_progress rx)"])
    (auto simp: parse_header_def Let_def split: if_splits sum.splits)

lemma parse_payload_queue:
  assumes "parse_payload P L b rx w = (Inr (), rx', w')" and "ib_offset b < ib_size b"
  shows "\<exists>n > 0. n \<le> ib_size b - ib_offset b \<and>
    rx_input_queue rx' = b\<lparr>ib_offset := ib_offset b + n\<rparr> # tl (rx_input_queue rx)"
  using assms
  by (intro exI [of _ "min (ib_size b - ib_offset b)
      (unat (get_size (byte_order P) (rx_header rx)) - rx_payload_progress rx)"])
    (auto simp: parse_payload_def Let_def split: if_splits sum.splits prod.splits dest!: frame_complete_queue)

lemma finish_buffer_queue:
  assumes "finish_buffer P L rx w = (Inr (), rx', w')" and "rx_input_queue rx \<noteq> []"
  shows "bytes_left rx' = bytes_left rx"
proof -
  obtain b q where q: "rx_input_queue rx = b # q"
    using assms(2) by (cases "rx_input_queue rx") auto
  show ?thesis
    using assms(1) q
    by (auto simp: finish_buffer_def bytes_left_def Let_def split: if_splits sum.splits prod.splits)
qed

text \<open>Every pass that does not fail reads at least one byte of the front buffer.\<close>

lemma parse_step_reads:
  assumes "parse_step P L rx w = (Inr (), rx', w')" and "rx_input_queue rx \<noteq> []"
  shows "bytes_left rx' < bytes_left rx"
proof -
  obtain b q where q: "rx_input_queue rx = b # q"
    using assms(2) by (cases "rx_input_queue rx") auto
  have off: "ib_offset b < ib_size b"
    using assms(1) q by (auto simp: parse_step_def Let_def split: if_splits)
  obtain rx1 w1 where b1: "(case rx_state rx of PARSING_HEADER \<Rightarrow> parse_header P L b rx w
        | PARSING_PAYLOAD \<Rightarrow> parse_payload P L b rx w
        | Unnamed_state _ \<Rightarrow> (Inl (Error InvalidEnumValue), rx, w)) = (Inr (), rx1, w1)"
      and f: "finish_buffer P L rx1 w1 = (Inr (), rx', w')"
    using assms(1) q off by (auto simp: parse_step_def Let_def split: sum.splits prod.splits)
  have "\<exists>n > 0. n \<le> ib_size b - ib_offset b \<and> rx_input_queue rx1 = b\<lparr>ib_offset := ib_offset b + n\<rparr> # q"
    using b1 parse_header_queue [OF _ off, of P L rx w rx1 w1]
      parse_payload_queue [OF _ off, of P L rx w rx1 w1] q
    by (auto split: parse_state.splits)
  then have "bytes_left rx1 < bytes_left rx" "rx_input_queue rx1 \<noteq> []"
    using off q by (auto simp: bytes_left_def)
  then show ?thesis
    using finish_buffer_queue [OF f] by simp
qed

text \<open>The loop of \<open>kick_parse_\<close>; it ends because every pass reads.\<close>

function parse_loop :: "platform \<Rightarrow> links \<Rightarrow> receiver \<Rightarrow> world \<Rightarrow> unit result \<times> receiver \<times> world" where
  "parse_loop P L rx w =
     (if rx_input_queue rx = [] then (Inr (), rx, w)
      else case parse_step P L rx w of
        (Inl e, rx, w) \<Rightarrow> (Inl e, rx, w)
      | (Inr _, rx, w) \<Rightarrow> parse_loop P L rx w)"
  by pat_completeness auto
termination
  by (relation "measure (\<lambda>(P, L, rx, w). bytes_left rx)") (auto intro: parse_step_reads dest: sym)

declare parse_loop.simps [simp del]

definition kick_parse :: "platform \<Rightarrow> links \<Rightarrow> receiver \<Rightarrow> world \<Rightarrow> unit result \<times> receiver \<times> world" where
  "kick_parse P L rx w =
     (if \<not> rx_is_valid rx then (Inl (Error InvalidReceiver), rx, w) else parse_loop P L rx w)"

section \<open>Completions\<close>

text \<open>The loop over the buffers of a written frame.\<close>

primrec release_bids ::
    "platform \<Rightarrow> links \<Rightarrow> u16 list \<Rightarrow> receiver \<Rightarrow> world \<Rightarrow> unit result \<times> receiver \<times> world" where
  "release_bids P L [] rx w = (Inr (), rx, w)"
| "release_bids P L (bid # bids) rx w =
     (let i = unat bid;
          rx = rx\<lparr>rx_refcounts := (rx_refcounts rx)[i := rx_refcounts rx ! i - 1]\<rparr>
      in if sint (rx_refcounts rx ! i) \<le> 0 then
           (case return_buffer P (rx_group L rx) bid w of
              (Inl e, w) \<Rightarrow> (Inl e, rx, w)
            | (Inr _, w) \<Rightarrow> release_bids P L bids (rx\<lparr>rx_used_buffers := rx_used_buffers rx - 1\<rparr>) w)
         else release_bids P L bids rx w)"

definition frame_size :: "output_frame \<Rightarrow> nat" where
  "frame_size f = (\<Sum>s \<leftarrow> of_segments f. iov_len s)"

text \<open>Leaving the cooldown, once enough buffers are back.\<close>

definition rx_rearm :: "platform \<Rightarrow> links \<Rightarrow> receiver \<Rightarrow> world \<Rightarrow> unit result \<times> receiver \<times> world" where
  "rx_rearm P L rx w =
     (if rx_cooling_down rx \<and> unat (rx_used_buffers rx) < get_buffer_count (rx_group L rx) div 2 then
        (case arm_recv P L rx w of
           (Inl e, w) \<Rightarrow> (Inl e, rx, w)
         | (Inr _, w) \<Rightarrow> (Inr (), rx\<lparr>rx_cooling_down := False\<rparr>, w))
      else (Inr (), rx, w))"

definition handle_write_cqe ::
    "platform \<Rightarrow> links \<Rightarrow> cqe \<Rightarrow> receiver \<Rightarrow> world \<Rightarrow> unit result \<times> receiver \<times> world" where
  "handle_write_cqe P L c rx w =
     (if \<not> rx_is_valid rx then (Inl (Error InvalidReceiver), rx, w)
      else if cqe_type c \<noteq> WRITE then (Inl (Error WrongOperationType), rx, w)
      else (let rx = rx\<lparr>rx_write_in_progress := False\<rparr>
       in case rx_output_queue rx of
            [] \<Rightarrow> (Inl (Error WriteUnknownFrame), rx, w)
          | frame # frames \<Rightarrow>
              if \<not> cqe_ok c then (Inl (Error_no TunWriteFailed (sint (cqe_error c))), rx, w)
              else if size_of_s32 (cqe_result c) \<noteq> frame_size frame then (Inl (Error TunPartialWrite), rx, w)
              else (case release_bids P L (of_bids frame) rx w of
                      (Inl e, rx, w) \<Rightarrow> (Inl e, rx, w)
                    | (Inr _, rx, w) \<Rightarrow>
                       (case rx_rearm P L (rx\<lparr>rx_output_queue := frames\<rparr>) w of
                          (Inl e, rx, w) \<Rightarrow> (Inl e, rx, w)
                        | (Inr _, rx, w) \<Rightarrow> kick_write P L rx w))))"

definition handle_recv_cqe ::
    "platform \<Rightarrow> links \<Rightarrow> cqe \<Rightarrow> receiver \<Rightarrow> world \<Rightarrow> unit result \<times> receiver \<times> world" where
  "handle_recv_cqe P L c rx w =
     (if \<not> rx_is_valid rx then (Inl (Error InvalidReceiver), rx, w)
      else if cqe_type c \<noteq> RECV then (Inl (Error WrongOperationType), rx, w)
      else if \<not> cqe_ok c then
        (if sint (cqe_error c) = ENOBUFS \<and> \<not> cqe_more c
         then kick_write P L (rx\<lparr>rx_cooling_down := True\<rparr>) w
         else (Inl (Error_no RecvFailed (sint (cqe_error c))), rx, w))
      else (let rx = rx\<lparr>rx_used_buffers := rx_used_buffers rx + 1\<rparr>
       in if cqe_result c = 0 then (Inl (Error PeerClosed), rx, w)
          else case cqe_bid c of
            None \<Rightarrow> (Inl (Error RecvCqeMissingBid), rx, w)
          | Some bid \<Rightarrow>
             (let (ok, w) = alloc P w
              in if \<not> ok then (Inl (Error NotEnoughMemory), rx, w)
                 else (let b = \<lparr>ib_bid = bid, ib_size = unat (cqe_result c), ib_offset = 0\<rparr>;
                           rx = rx\<lparr>rx_input_queue := rx_input_queue rx @ [b]\<rparr>
                       in (case kick_parse P L rx w of
                             (Inl e, rx, w) \<Rightarrow> (Inl e, rx, w)
                           | (Inr _, rx, w) \<Rightarrow>
                              if \<not> cqe_more c \<and> \<not> rx_cooling_down rx then
                                (case arm_recv P L rx w of
                                   (Inl e, w) \<Rightarrow> (Inl e, rx, w)
                                 | (Inr _, w) \<Rightarrow> kick_write P L rx w)
                              else kick_write P L rx w)))))"

definition rx_handle_cqe ::
    "platform \<Rightarrow> links \<Rightarrow> cqe \<Rightarrow> receiver \<Rightarrow> world \<Rightarrow> unit result \<times> receiver \<times> world" where
  "rx_handle_cqe P L c rx w =
     (if \<not> rx_is_valid rx then (Inl (Error InvalidReceiver), rx, w)
      else if cqe_type c \<noteq> RECV \<and> cqe_type c \<noteq> WRITE then (Inl (Error WrongOperationType), rx, w)
      else if cqe_type c = RECV then handle_recv_cqe P L c rx w
      else handle_write_cqe P L c rx w)"

end
