(* ===== verification/Stream_Spec.thy ===== *)
theory Stream_Spec
  imports Crc32c
begin

text \<open>
  The wire protocol, independent of buffers and completions: what a stream of frames is, and a
  reference decoder for a byte stream. The transmitter and the receiver are proved against these.
\<close>

section \<open>Encoding\<close>

definition encode_frame :: "u8 list \<Rightarrow> u8 list" where
  "encode_frame p = wire_header (of_nat (length p)) (crc32c_of p) @ p"

definition encode_stream :: "u8 list list \<Rightarrow> u8 list" where
  "encode_stream ps = concat (map encode_frame ps)"

text \<open>The packets that fit the protocol: not empty, and no longer than the MTU.\<close>

definition packet_ok :: "u32 \<Rightarrow> u8 list \<Rightarrow> bool" where
  "packet_ok mtu p \<longleftrightarrow> p \<noteq> [] \<and> length p \<le> unat mtu"

section \<open>Decoding\<close>

definition hdr_magic :: "u8 list \<Rightarrow> u32" where "hdr_magic h = be_val (slice_of 0 4 h)"
definition hdr_size :: "u8 list \<Rightarrow> u32" where "hdr_size h = be_val (slice_of 8 4 h)"
definition hdr_crc :: "u8 list \<Rightarrow> u32" where "hdr_crc h = be_val (slice_of 12 4 h)"

text \<open>
  The frames of a stream, the bytes of the last, incomplete frame, and the error that stops the
  decoding, if any.
\<close>

function decode_stream :: "u32 \<Rightarrow> u8 list \<Rightarrow> u8 list list \<times> u8 list \<times> error_code option" where
  "decode_stream mtu bs =
     (if length bs < wire_size then ([], bs, None)
      else let h = take wire_size bs; body = drop wire_size bs; n = unat (hdr_size h)
      in if hdr_magic h \<noteq> magic_number then ([], bs, Some InvalidMagic)
         else if hdr_size h = 0 \<or> hdr_size h > mtu then ([], bs, Some InvalidSize)
         else if length body < n then ([], bs, None)
         else if hdr_crc h \<noteq> crc32c_of (take n body) then ([], bs, Some FrameCrcMismatch)
         else let (ps, rest, e) = decode_stream mtu (drop n body) in (take n body # ps, rest, e))"
  by pat_completeness auto
termination
  by (relation "measure (\<lambda>(mtu, bs). length bs)") (auto simp: wire_size_def)

declare decode_stream.simps [simp del]

definition decoded :: "u32 \<Rightarrow> u8 list \<Rightarrow> u8 list list" where
  "decoded mtu bs = fst (decode_stream mtu bs)"

definition decode_rest :: "u32 \<Rightarrow> u8 list \<Rightarrow> u8 list" where
  "decode_rest mtu bs = fst (snd (decode_stream mtu bs))"

definition decode_error :: "u32 \<Rightarrow> u8 list \<Rightarrow> error_code option" where
  "decode_error mtu bs = snd (snd (decode_stream mtu bs))"

section \<open>Cases of the decoder\<close>

lemma decode_short: "length bs < wire_size \<Longrightarrow> decode_stream mtu bs = ([], bs, None)"
  by (simp add: decode_stream.simps)

lemma decode_bad_magic:
  "length h = wire_size \<Longrightarrow> hdr_magic h \<noteq> magic_number \<Longrightarrow>
   decode_stream mtu (h @ bs) = ([], h @ bs, Some InvalidMagic)"
  by (simp add: decode_stream.simps [of mtu "h @ bs"] Let_def)

lemma decode_bad_size:
  "length h = wire_size \<Longrightarrow> hdr_magic h = magic_number \<Longrightarrow> hdr_size h = 0 \<or> hdr_size h > mtu \<Longrightarrow>
   decode_stream mtu (h @ bs) = ([], h @ bs, Some InvalidSize)"
  by (auto simp: decode_stream.simps [of mtu "h @ bs"] Let_def)

text \<open>A header that the receiver accepts.\<close>

definition good_header :: "u32 \<Rightarrow> u8 list \<Rightarrow> bool" where
  "good_header mtu h \<longleftrightarrow> length h = wire_size \<and> hdr_magic h = magic_number \<and>
     hdr_size h \<noteq> 0 \<and> hdr_size h \<le> mtu"

lemma decode_partial:
  "good_header mtu h \<Longrightarrow> length bs < unat (hdr_size h) \<Longrightarrow>
   decode_stream mtu (h @ bs) = ([], h @ bs, None)"
  by (simp add: decode_stream.simps [of mtu "h @ bs"] good_header_def Let_def not_le [symmetric])

lemma decode_bad_crc:
  "good_header mtu h \<Longrightarrow> length p = unat (hdr_size h) \<Longrightarrow> hdr_crc h \<noteq> crc32c_of p \<Longrightarrow>
   decode_stream mtu (h @ p @ bs) = ([], h @ p @ bs, Some FrameCrcMismatch)"
  by (simp add: decode_stream.simps [of mtu "h @ p @ bs"] good_header_def Let_def not_le [symmetric])

lemma decode_frame:
  "good_header mtu h \<Longrightarrow> length p = unat (hdr_size h) \<Longrightarrow> hdr_crc h = crc32c_of p \<Longrightarrow>
   decode_stream mtu (h @ p @ bs) =
     (p # decoded mtu bs, decode_rest mtu bs, decode_error mtu bs)"
  by (simp add: decode_stream.simps [of mtu "h @ p @ bs"] good_header_def Let_def not_le [symmetric]
      decoded_def decode_rest_def decode_error_def split: prod.splits)

section \<open>Properties of the protocol\<close>

lemma wire_header_fields [simp]:
  "hdr_magic (wire_header n c) = magic_number" "hdr_size (wire_header n c) = n" "hdr_crc (wire_header n c) = c"
  by (simp_all add: hdr_magic_def hdr_size_def hdr_crc_def wire_header_def slice_of_def)

lemma good_wire_header:
  assumes "packet_ok mtu p"
  shows "good_header mtu (wire_header (of_nat (length p)) c)" and "unat (of_nat (length p) :: u32) = length p"
proof -
  have "length p < 2 ^ 32"
    using assms unat_less_pow [of mtu] by (simp add: packet_ok_def)
  then show u: "unat (of_nat (length p) :: u32) = length p"
    by (simp add: unat_of_nat_eq)
  then have "(of_nat (length p) :: u32) \<noteq> 0"
    using assms by (auto simp: packet_ok_def)
  then show "good_header mtu (wire_header (of_nat (length p)) c)"
    using assms u by (simp add: good_header_def packet_ok_def word_le_nat_alt)
qed

lemma decode_encode_frame:
  "packet_ok mtu p \<Longrightarrow> decode_stream mtu (encode_frame p @ bs) =
     (p # decoded mtu bs, decode_rest mtu bs, decode_error mtu bs)"
  by (simp add: encode_frame_def decode_frame good_wire_header)

lemma decode_encode_frames:
  assumes "\<forall>p \<in> set ps. packet_ok mtu p"
  shows "decode_stream mtu (concat (map encode_frame ps) @ tail) =
    (ps @ decoded mtu tail, decode_rest mtu tail, decode_error mtu tail)"
  using assms
proof (induction ps)
  case Nil
  then show ?case
    by (simp add: decoded_def decode_rest_def decode_error_def)
next
  case (Cons p ps)
  then have "decode_stream mtu (encode_frame p @ concat (map encode_frame ps) @ tail) =
      (p # decoded mtu (concat (map encode_frame ps) @ tail), decode_rest mtu (concat (map encode_frame ps) @ tail),
       decode_error mtu (concat (map encode_frame ps) @ tail))"
    by (simp add: decode_encode_frame)
  with Cons show ?case
    by (simp add: decoded_def decode_rest_def decode_error_def)
qed



text \<open>
  What has been decoded stays: a longer stream has the same frames first, unless an error stops
  both at the same place.
\<close>

lemma decode_append:
  assumes "decode_error mtu xs = None"
  shows "decode_stream mtu (xs @ ys) =
    (decoded mtu xs @ decoded mtu (decode_rest mtu xs @ ys), decode_rest mtu (decode_rest mtu xs @ ys),
     decode_error mtu (decode_rest mtu xs @ ys))"
  using assms
proof (induction mtu xs rule: decode_stream.induct)
  case (1 mtu xs)
  let ?h = "take wire_size xs" and ?b = "drop wire_size xs"
  let ?n = "unat (hdr_size ?h)"
  show ?case
  proof (cases "length xs < wire_size \<or> (good_header mtu ?h \<and> length ?b < ?n)")
    case True
    then have "decode_stream mtu xs = ([], xs, None)"
      using decode_short [of xs mtu] decode_partial [of mtu ?h ?b] by auto
    then show ?thesis
      by (simp add: decoded_def decode_rest_def decode_error_def)
  next
    case False
    have g: "good_header mtu ?h" "?n \<le> length ?b"
      using "1.prems" False
      by (auto simp: decode_error_def decode_stream.simps [of mtu xs] good_header_def Let_def not_le
          split: if_splits)
    have crc: "hdr_crc ?h = crc32c_of (take ?n ?b)"
      using "1.prems" g
      by (auto simp: decode_error_def decode_stream.simps [of mtu xs] good_header_def Let_def not_le
          split: if_splits)
    have xs: "xs = ?h @ take ?n ?b @ drop ?n ?b" "xs @ ys = ?h @ take ?n ?b @ (drop ?n ?b @ ys)"
      by (metis append_take_drop_id) (metis append_assoc append_take_drop_id)
    have len: "length (take ?n ?b) = ?n"
      using g(2) by simp
    note d = decode_frame [OF g(1) len crc]
    have dx: "decode_stream mtu xs = (take ?n ?b # decoded mtu (drop ?n ?b), decode_rest mtu (drop ?n ?b),
        decode_error mtu (drop ?n ?b))"
      using d [of "drop ?n ?b"] xs(1) by (simp del: take_drop drop_drop)
    then have "decode_error mtu (drop ?n ?b) = None"
      using "1.prems" by (simp add: decode_error_def)
    then have "decode_stream mtu (drop ?n ?b @ ys) =
        (decoded mtu (drop ?n ?b) @ decoded mtu (decode_rest mtu (drop ?n ?b) @ ys),
         decode_rest mtu (decode_rest mtu (drop ?n ?b) @ ys), decode_error mtu (decode_rest mtu (drop ?n ?b) @ ys))"
      using "1.IH" [OF _ refl refl refl] g crc False by (simp add: good_header_def not_less)
    moreover have "decode_stream mtu (xs @ ys) = (take ?n ?b # decoded mtu (drop ?n ?b @ ys),
        decode_rest mtu (drop ?n ?b @ ys), decode_error mtu (drop ?n ?b @ ys))"
      by (subst xs(2)) (rule d)
    ultimately show ?thesis
      using dx by (simp add: decoded_def decode_rest_def decode_error_def)
  qed
qed

end
