(* ===== verification/Receiver_Stream.thy ===== *)
theory Receiver_Stream
  imports Receiver Stream_Spec
begin

text \<open>
  The receiver as a stream decoder: what its state says about the bytes it has taken in, and the
  refinement of the reference decoder by one pass of the parsing loop, hence by the loop. The
  bytes never move: a frame is a list of segments that point into the buffers.
\<close>

section \<open>Frames in buffers\<close>

definition seg_bytes :: "buffer_group \<Rightarrow> iovec \<Rightarrow> u8 list" where
  "seg_bytes g s = (case iov_base s of Buffer_mem off \<Rightarrow> span_bytes g off (iov_len s) | Header_mem _ \<Rightarrow> [])"

definition frame_payload :: "buffer_group \<Rightarrow> output_frame \<Rightarrow> u8 list" where
  "frame_payload g f = concat (map (seg_bytes g) (of_segments f))"

text \<open>A segment lies inside the buffer that is listed for it.\<close>

definition seg_ok :: "buffer_group \<Rightarrow> u16 \<Rightarrow> iovec \<Rightarrow> bool" where
  "seg_ok g bid s \<longleftrightarrow> bid < bg_buffer_count g \<and>
     (case iov_base s of
        Buffer_mem off \<Rightarrow> buffer_offset g bid \<le> off \<and>
          off + iov_len s \<le> buffer_offset g bid + unat (bg_buffer_size g)
      | Header_mem _ \<Rightarrow> False)"

definition frame_ok :: "buffer_group \<Rightarrow> output_frame \<Rightarrow> bool" where
  "frame_ok g f \<longleftrightarrow> list_all2 (seg_ok g) (of_bids f) (of_segments f)"

lemma empty_frame_simps [simp]:
  "of_bids empty_frame = []" "of_segments empty_frame = []" "frame_payload g empty_frame = []"
  "frame_ok g empty_frame" "frame_size empty_frame = 0"
  by (simp_all add: empty_frame_def frame_payload_def frame_ok_def frame_size_def)

definition add_segment :: "u16 \<Rightarrow> iovec \<Rightarrow> output_frame \<Rightarrow> output_frame" where
  "add_segment bid s f = f\<lparr>of_bids := of_bids f @ [bid], of_segments := of_segments f @ [s]\<rparr>"

lemma frame_ok_add: "frame_ok g f \<Longrightarrow> seg_ok g bid s \<Longrightarrow> frame_ok g (add_segment bid s f)"
  by (simp add: frame_ok_def add_segment_def list_all2_appendI)

lemma frame_payload_add: "frame_payload g (add_segment bid s f) = frame_payload g f @ seg_bytes g s"
  by (simp add: frame_payload_def add_segment_def)

lemma frame_size_add: "frame_size (add_segment bid s f) = frame_size f + iov_len s"
  by (simp add: frame_size_def add_segment_def)

lemma seg_bytes_length: "wf_group g \<Longrightarrow> seg_ok g bid s \<Longrightarrow> length (seg_bytes g s) = iov_len s"
  using buffer_in_data [of g bid]
  by (auto simp: seg_ok_def seg_bytes_def span_bytes_def split: mem_ptr.splits)

lemma frame_payload_length: "wf_group g \<Longrightarrow> frame_ok g f \<Longrightarrow> length (frame_payload g f) = frame_size f"
proof -
  assume g: "wf_group g"
  have "length (concat (map (seg_bytes g) ss)) = sum_list (map iov_len ss)" if "list_all2 (seg_ok g) bs ss" for bs ss
    using that by induction (simp_all add: seg_bytes_length [OF g])
  then show "frame_ok g f \<Longrightarrow> length (frame_payload g f) = frame_size f"
    by (simp add: frame_ok_def frame_payload_def frame_size_def)
qed

lemma iov_bytes_seg: "seg_ok g bid s \<Longrightarrow> iov_bytes h g s = seg_bytes g s"
  by (auto simp: seg_ok_def iov_bytes_def seg_bytes_def split: mem_ptr.splits)

lemma gather_frame: "frame_ok g f \<Longrightarrow> gather h g (of_segments f) = frame_payload g f"
proof -
  have "map (iov_bytes h g) ss = map (seg_bytes g) ss" if "list_all2 (seg_ok g) bs ss" for bs ss
    using that by induction (simp_all add: iov_bytes_seg)
  then show "frame_ok g f \<Longrightarrow> gather h g (of_segments f) = frame_payload g f"
    by (simp add: frame_ok_def frame_payload_def gather_def del: map_eq_conv)
qed

section \<open>The state of the parser\<close>

text \<open>The header fields as the receiver reads them are those of the protocol.\<close>

lemma header_reads:
  assumes "wf_header h"
  shows "is_magic_valid e h \<longleftrightarrow> hdr_magic (hdr_data h) = magic_number"
    and "get_size e h = hdr_size (hdr_data h)" and "get_crc e h = hdr_crc (hdr_data h)"
  using assms
  by (simp_all add: is_magic_valid_def get_size_def get_crc_def get_u32_be hdr_magic_def hdr_size_def
      hdr_crc_def wire_size_def)

text \<open>The unread bytes of an input buffer, and of the queue.\<close>

definition ib_bytes :: "buffer_group \<Rightarrow> input_buffer \<Rightarrow> u8 list" where
  "ib_bytes g b = span_bytes g (buffer_offset g (ib_bid b) + ib_offset b) (ib_size b - ib_offset b)"

definition pending :: "links \<Rightarrow> receiver \<Rightarrow> u8 list" where
  "pending L rx = concat (map (ib_bytes (rx_group L rx)) (rx_input_queue rx))"

text \<open>The bytes of the current frame that have been read.\<close>

definition buffered :: "links \<Rightarrow> receiver \<Rightarrow> u8 list" where
  "buffered L rx = (case rx_state rx of
      PARSING_HEADER \<Rightarrow> take (rx_header_progress rx) (hdr_data (rx_header rx))
    | PARSING_PAYLOAD \<Rightarrow> hdr_data (rx_header rx) @ frame_payload (rx_group L rx) (rx_frame rx)
    | Unnamed_state _ \<Rightarrow> [])"

definition undecoded :: "links \<Rightarrow> receiver \<Rightarrow> u8 list" where
  "undecoded L rx = buffered L rx @ pending L rx"

definition payloads :: "links \<Rightarrow> receiver \<Rightarrow> u8 list list" where
  "payloads L rx = map (frame_payload (rx_group L rx)) (rx_output_queue rx)"

definition ib_ok :: "buffer_group \<Rightarrow> input_buffer \<Rightarrow> bool" where
  "ib_ok g b \<longleftrightarrow> ib_bid b < bg_buffer_count g \<and> ib_offset b \<le> ib_size b \<and> ib_size b \<le> unat (bg_buffer_size g)"

definition state_ok :: "links \<Rightarrow> receiver \<Rightarrow> bool" where
  "state_ok L rx \<longleftrightarrow> (case rx_state rx of
      PARSING_HEADER \<Rightarrow> rx_header_progress rx < wire_size \<and> rx_frame rx = empty_frame \<and> rx_payload_progress rx = 0
    | PARSING_PAYLOAD \<Rightarrow> rx_header_progress rx = 0 \<and> good_header (get_mtu (lk_tun L)) (hdr_data (rx_header rx)) \<and>
        rx_payload_progress rx = frame_size (rx_frame rx) \<and>
        rx_payload_progress rx < unat (hdr_size (hdr_data (rx_header rx)))
    | Unnamed_state _ \<Rightarrow> False)"

definition stream_ok :: "links \<Rightarrow> receiver \<Rightarrow> bool" where
  "stream_ok L rx \<longleftrightarrow> rx_is_valid rx \<and> wf_group (rx_group L rx) \<and> wf_header (rx_header rx) \<and>
     frame_ok (rx_group L rx) (rx_frame rx) \<and> (\<forall>f \<in> set (rx_output_queue rx). frame_ok (rx_group L rx) f) \<and>
     (\<forall>b \<in> set (rx_input_queue rx). ib_ok (rx_group L rx) b) \<and> state_ok L rx"

text \<open>Between two passes every queued buffer has bytes left.\<close>

definition unread :: "receiver \<Rightarrow> bool" where
  "unread rx \<longleftrightarrow> (\<forall>b \<in> set (rx_input_queue rx). ib_offset b < ib_size b)"

lemma buffered_incomplete:
  assumes "stream_ok L rx"
  shows "decode_stream (get_mtu (lk_tun L)) (buffered L rx) = ([], buffered L rx, None)"
proof (cases "rx_state rx")
  case PARSING_HEADER
  then show ?thesis
    using assms by (intro decode_short) (simp add: buffered_def stream_ok_def state_ok_def wf_header_def)
next
  case PARSING_PAYLOAD
  then show ?thesis
    using assms by (simp add: buffered_def stream_ok_def state_ok_def decode_partial frame_payload_length)
next
  case (Unnamed_state n)
  with assms show ?thesis by (simp add: stream_ok_def state_ok_def)
qed

section \<open>What a step does to the stream\<close>

text \<open>
  A step decodes: the payloads it appends to the output queue are the first frames of the bytes
  it had, and the bytes it still has decode to the rest. A step rejects: it ran out of memory, or
  the reference decoder stops with the same error.
\<close>

definition decodes :: "links \<Rightarrow> receiver \<Rightarrow> receiver \<Rightarrow> bool" where
  "decodes L rx rx' \<longleftrightarrow> (\<exists>new. payloads L rx' = payloads L rx @ new \<and>
     decode_stream (get_mtu (lk_tun L)) (undecoded L rx) =
       (new @ decoded (get_mtu (lk_tun L)) (undecoded L rx'), decode_rest (get_mtu (lk_tun L)) (undecoded L rx'),
        decode_error (get_mtu (lk_tun L)) (undecoded L rx')))"

definition rejects :: "links \<Rightarrow> receiver \<Rightarrow> error \<Rightarrow> bool" where
  "rejects L rx e \<longleftrightarrow> err_code e = NotEnoughMemory \<or>
     decode_error (get_mtu (lk_tun L)) (undecoded L rx) = Some (err_code e)"

lemma decode_stream_parts: "decode_stream m bs = (decoded m bs, decode_rest m bs, decode_error m bs)"
  by (simp add: decoded_def decode_rest_def decode_error_def)

lemma decodes_same: "payloads L rx' = payloads L rx \<Longrightarrow> undecoded L rx' = undecoded L rx \<Longrightarrow> decodes L rx rx'"
  by (simp add: decodes_def decode_stream_parts)

lemma decodes_trans: "decodes L rx rx' \<Longrightarrow> decodes L rx' rx'' \<Longrightarrow> decodes L rx rx''"
  by (fastforce simp: decodes_def decode_stream_parts)

lemma decodes_rejects: "decodes L rx rx' \<Longrightarrow> rejects L rx' e \<Longrightarrow> rejects L rx e"
  by (auto simp: decodes_def rejects_def decode_error_def)

section \<open>One pass of the loop\<close>

text \<open>Facts that hold of the front buffer in every branch.\<close>

lemma ib_bytes_split:
  assumes "n \<le> ib_size b - ib_offset b"
  shows "ib_bytes g b = span_bytes g (buffer_offset g (ib_bid b) + ib_offset b) n @
    ib_bytes g (b\<lparr>ib_offset := ib_offset b + n\<rparr>)"
proof -
  have "ib_size b - ib_offset b = n + (ib_size b - (ib_offset b + n))"
    using assms by linarith
  then show ?thesis
    by (simp add: ib_bytes_def span_bytes_def add.assoc slice_of_add)
qed

lemma ib_bytes_done [simp]: "ib_offset b = ib_size b \<Longrightarrow> ib_bytes g b = []"
  by (simp add: ib_bytes_def span_bytes_def)

lemma ib_ok_buffer:
  assumes "wf_group g" and "ib_ok g b"
  shows "get_buffer g (ib_bid b) (Some (of_nat (ib_size b))) =
    Inr \<lparr>sp_off = buffer_offset g (ib_bid b), sp_len = ib_size b\<rparr>"
proof -
  have "ib_size b < 2 ^ 32"
    using assms(2) unat_less_pow [of "bg_buffer_size g"] by (simp add: ib_ok_def)
  then have "unat (of_nat (ib_size b) :: u32) = ib_size b"
    by (simp add: unat_of_nat_eq)
  with assms show ?thesis
    by (simp add: get_buffer_Inr ib_ok_def word_le_nat_alt)
qed

lemma span_in_buffer:
  assumes "wf_group g" and "ib_ok g b" and "n \<le> ib_size b - ib_offset b"
  shows "length (span_bytes g (buffer_offset g (ib_bid b) + ib_offset b) n) = n"
proof -
  have "buffer_offset g (ib_bid b) + ib_offset b + n \<le> length (bg_data g)"
    using assms buffer_in_data [of g "ib_bid b"] unfolding ib_ok_def by linarith
  then show ?thesis
    by (simp add: span_bytes_def)
qed

lemma rx_group_fields [simp]:
  "rx_group L (set_front b rx) = rx_group L rx" "rx_is_valid (set_front b rx) = rx_is_valid rx"
  by (simp_all add: rx_group_def rx_is_valid_def)

text \<open>What the two parsing branches leave of the queue and of the rest of the object.\<close>

definition advanced :: "nat \<Rightarrow> input_buffer \<Rightarrow> input_buffer" where
  "advanced n b = b\<lparr>ib_offset := ib_offset b + n\<rparr>"

lemma advanced_simps [simp]:
  "ib_bid (advanced n b) = ib_bid b" "ib_size (advanced n b) = ib_size b"
  "ib_offset (advanced n b) = ib_offset b + n"
  by (simp_all add: advanced_def)

lemma ib_ok_advanced: "ib_ok g b \<Longrightarrow> n \<le> ib_size b - ib_offset b \<Longrightarrow> ib_ok g (advanced n b)"
  by (auto simp: ib_ok_def)

lemma parse_header_stream:
  assumes ok: "stream_ok L rx" and st: "rx_state rx = PARSING_HEADER" and q: "rx_input_queue rx = b # q"
    and off: "ib_offset b < ib_size b" and r: "parse_header P L b rx w = (rv, rx', w')"
  shows "(case rv of
      Inl e \<Rightarrow> rejects L rx e
    | Inr _ \<Rightarrow> stream_ok L rx' \<and> decodes L rx rx' \<and>
        (\<exists>n. 0 < n \<and> n \<le> ib_size b - ib_offset b \<and> rx_input_queue rx' = advanced n b # q) \<and> w' = w)"
proof -
  let ?g = "rx_group L rx" and ?mtu = "get_mtu (lk_tun L)"
  define n where "n = min (ib_size b - ib_offset b) (wire_size - rx_header_progress rx)"
  define bs where "bs = span_bytes ?g (buffer_offset ?g (ib_bid b) + ib_offset b) n"
  define h where "h = (rx_header rx)\<lparr>hdr_data := store_at (rx_header_progress rx) bs (hdr_data (rx_header rx))\<rparr>"
  define rx1 where "rx1 = (set_front (advanced n b) rx)\<lparr>rx_header := h, rx_header_progress := rx_header_progress rx + n\<rparr>"
  have g: "wf_group ?g" and b: "ib_ok ?g b" and hp: "rx_header_progress rx < wire_size"
    and fr: "rx_frame rx = empty_frame" and pp: "rx_payload_progress rx = 0"
    and len: "length (hdr_data (rx_header rx)) = wire_size"
    using ok q st by (simp_all add: stream_ok_def state_ok_def wf_header_def)
  have n: "0 < n" "n \<le> ib_size b - ib_offset b" "rx_header_progress rx + n \<le> wire_size"
    using off hp by (auto simp: n_def)
  have lbs: "length bs = n"
    unfolding bs_def by (rule span_in_buffer [OF g b n(2)])
  have wf: "wf_header h"
    using lbs len n by (simp add: wf_header_def h_def length_store_at)
  have read: "take (rx_header_progress rx + n) (hdr_data h) = take (rx_header_progress rx) (hdr_data (rx_header rx)) @ bs"
    using take_store_at [of "rx_header_progress rx" bs "hdr_data (rx_header rx)"] lbs len n by (simp add: h_def)
  have un: "undecoded L rx = take (rx_header_progress rx + n) (hdr_data h) @
      ib_bytes ?g (advanced n b) @ concat (map (ib_bytes ?g) q)"
    using ib_bytes_split [OF n(2), of ?g]
    by (simp add: read undecoded_def buffered_def pending_def st q advanced_def bs_def)
  have r1: "(if rx_header_progress rx + n = wire_size then
      (if hdr_magic (hdr_data h) \<noteq> magic_number then (Inl (Error InvalidMagic), rx1\<lparr>rx_header_progress := 0\<rparr>, w)
       else if hdr_size (hdr_data h) = 0 \<or> hdr_size (hdr_data h) > ?mtu
       then (Inl (Error InvalidSize), rx1\<lparr>rx_header_progress := 0\<rparr>, w)
       else (Inr (), rx1\<lparr>rx_header_progress := 0, rx_state := PARSING_PAYLOAD\<rparr>, w))
     else (Inr (), rx1, w)) = (rv, rx', w')"
    using r hp header_reads [OF wf]
    by (simp add: parse_header_def ib_ok_buffer [OF g b] Let_def n_def [symmetric] bs_def [symmetric] h_def [symmetric]
        advanced_def [symmetric] rx1_def cong: if_cong)
  have b': "ib_ok ?g (advanced n b)"
    by (rule ib_ok_advanced [OF b n(2)])
  have queue: "rx_input_queue rx1 = advanced n b # q"
    by (simp add: rx1_def q)
  show ?thesis
  proof (cases "rx_header_progress rx + n = wire_size")
    case False
    then have res: "rv = Inr ()" "w' = w" "rx' = rx1"
      using r1 by simp_all
    have "stream_ok L rx1"
      using ok False n(3) wf b' q
      by (auto simp: stream_ok_def state_ok_def rx1_def st fr pp rx_group_def rx_is_valid_def)
    moreover have "decodes L rx rx1"
      by (rule decodes_same)
        (simp_all add: un payloads_def, simp_all add: rx1_def undecoded_def buffered_def pending_def st rx_group_def q)
    ultimately show ?thesis
      using res queue n by auto
  next
    case True
    have h16: "length (hdr_data h) = wire_size"
      using wf by (simp add: wf_header_def)
    have un': "undecoded L rx = hdr_data h @ ib_bytes ?g (advanced n b) @ concat (map (ib_bytes ?g) q)"
      by (simp add: un True h16)
    show ?thesis
    proof (cases rv)
      case (Inl e)
      then show ?thesis
        using r1 True un' decode_bad_magic [OF h16] decode_bad_size [OF h16]
        by (auto simp: rejects_def decode_error_def split: if_splits)
    next
      case (Inr u)
      then have res: "w' = w" "rx' = rx1\<lparr>rx_header_progress := 0, rx_state := PARSING_PAYLOAD\<rparr>"
          and good: "good_header ?mtu (hdr_data h)"
        using r1 True h16 by (auto simp: good_header_def not_less split: if_splits)
      have "stream_ok L rx'"
        using ok good wf b' q
        by (auto simp: stream_ok_def state_ok_def rx1_def fr pp rx_group_def rx_is_valid_def res(2)
            good_header_def word_gt_0 unat_gt_0)
      moreover have "decodes L rx rx'"
        by (rule decodes_same)
          (simp_all add: un' payloads_def, simp_all add: res(2) rx1_def undecoded_def buffered_def pending_def rx_group_def fr q)
      ultimately show ?thesis
        using Inr res queue n by auto
    qed
  qed
qed

lemma parse_payload_stream:
  assumes ok: "stream_ok L rx" and cpu: "wf_cpu (processor P)" and st: "rx_state rx = PARSING_PAYLOAD"
    and q: "rx_input_queue rx = b # q" and off: "ib_offset b < ib_size b"
    and r: "parse_payload P L b rx w = (rv, rx', w')"
  shows "(case rv of
      Inl e \<Rightarrow> rejects L rx e
    | Inr _ \<Rightarrow> stream_ok L rx' \<and> decodes L rx rx' \<and>
        (\<exists>n. 0 < n \<and> n \<le> ib_size b - ib_offset b \<and> rx_input_queue rx' = advanced n b # q))"
proof -
  let ?g = "rx_group L rx" and ?mtu = "get_mtu (lk_tun L)" and ?h = "hdr_data (rx_header rx)"
  define n where "n = min (ib_size b - ib_offset b) (unat (hdr_size ?h) - rx_payload_progress rx)"
  define seg where "seg = \<lparr>iov_base = Buffer_mem (buffer_offset ?g (ib_bid b) + ib_offset b), iov_len = n\<rparr>"
  define f where "f = add_segment (ib_bid b) seg (rx_frame rx)"
  have g: "wf_group ?g" and b: "ib_ok ?g b" and wf: "wf_header (rx_header rx)" and good: "good_header ?mtu ?h"
    and pp: "rx_payload_progress rx = frame_size (rx_frame rx)" "rx_payload_progress rx < unat (hdr_size ?h)"
    and hp: "rx_header_progress rx = 0" and fr: "frame_ok ?g (rx_frame rx)"
    using ok q st by (simp_all add: stream_ok_def state_ok_def)
  have n: "0 < n" "n \<le> ib_size b - ib_offset b" "rx_payload_progress rx + n \<le> unat (hdr_size ?h)"
    using off pp by (auto simp: n_def)
  have seg: "seg_ok ?g (ib_bid b) seg"
    using b n(2) unfolding seg_ok_def ib_ok_def seg_def by auto
  have f: "frame_ok ?g f" "frame_size f = rx_payload_progress rx + n"
    using frame_ok_add [OF fr seg] pp by (simp_all add: f_def frame_size_add seg_def)
  have f_bytes: "frame_payload ?g f = frame_payload ?g (rx_frame rx) @
      span_bytes ?g (buffer_offset ?g (ib_bid b) + ib_offset b) n"
    by (simp add: f_def frame_payload_add seg_def seg_bytes_def)
  have un: "undecoded L rx = ?h @ frame_payload ?g f @ ib_bytes ?g (advanced n b) @ concat (map (ib_bytes ?g) q)"
    using ib_bytes_split [OF n(2), of ?g]
    by (simp add: undecoded_def buffered_def pending_def st q advanced_def f_bytes)
  have b': "ib_ok ?g (advanced n b)"
    by (rule ib_ok_advanced [OF b n(2)])
  define rx1 where "rx1 = rx\<lparr>
      rx_refcounts := (rx_refcounts rx)[unat (ib_bid b) := rx_refcounts rx ! unat (ib_bid b) + 1],
      rx_frame := f, rx_input_queue := advanced n b # q,
      rx_payload_progress := rx_payload_progress rx + n\<rparr>"
  have "rv = Inl (Error NotEnoughMemory) \<or>
      (\<exists>w1. (if rx_payload_progress rx + n = unat (hdr_size ?h) then frame_complete P L rx1 w1
             else (Inr (), rx1, w1)) = (rv, rx', w'))"
    using r pp(2) header_reads [OF wf]
    by (auto simp: parse_payload_def ib_ok_buffer [OF g b] Let_def n_def [symmetric] rx1_def f_def seg_def
        add_segment_def set_front_def advanced_def q split: if_splits prod.splits)
  then consider (mem) "rv = Inl (Error NotEnoughMemory)"
    | (part) "rv = Inr ()" "rx' = rx1" "rx_payload_progress rx + n < unat (hdr_size ?h)"
    | (full) w1 where "rx_payload_progress rx + n = unat (hdr_size ?h)" "frame_complete P L rx1 w1 = (rv, rx', w')"
    using n(3) by (cases "rx_payload_progress rx + n = unat (hdr_size ?h)") (auto simp: le_less)
  then show ?thesis
  proof cases
    case mem
    then show ?thesis by (simp add: rejects_def)
  next
    case part
    have "stream_ok L rx1"
      using ok part(3) f b' q hp good st
      by (auto simp: stream_ok_def state_ok_def rx1_def rx_group_def rx_is_valid_def)
    moreover have "decodes L rx rx1"
      by (rule decodes_same)
        (simp_all add: un payloads_def, simp_all add: rx1_def undecoded_def buffered_def pending_def rx_group_def st)
    moreover have "rx_input_queue rx1 = advanced n b # q"
      by (simp add: rx1_def)
    ultimately show ?thesis
      using part n by auto
  next
    case full
    have len: "length (frame_payload ?g f) = unat (hdr_size ?h)"
      using frame_payload_length [OF g f(1)] f(2) full(1) by simp
    have crc: "crc32c_iovecs (processor P) (rx_header rx) ?g (of_segments f) = crc32c_of (frame_payload ?g f)"
      by (simp add: crc32c_iovecs_of [OF cpu] gather_frame [OF f(1)])
    show ?thesis
    proof (cases "hdr_crc ?h = crc32c_of (frame_payload ?g f)")
      case False
      then have "rv = Inl (Error FrameCrcMismatch)"
        using full(2) crc header_reads [OF wf] by (auto simp: frame_complete_def rx1_def rx_group_def Let_def)
      then show ?thesis
        using decode_bad_crc [OF good len False] by (simp add: rejects_def un decode_error_def)
    next
      case True
      then have "rv = Inl (Error NotEnoughMemory) \<or> rv = Inr () \<and>
          rx' = rx1\<lparr>rx_payload_progress := 0, rx_output_queue := rx_output_queue rx @ [f],
            rx_frame := empty_frame, rx_state := PARSING_HEADER\<rparr>"
        using full(2) crc header_reads [OF wf]
        by (auto simp: frame_complete_def rx1_def rx_group_def Let_def split: prod.splits if_splits)
      then consider "rv = Inl (Error NotEnoughMemory)" | (ok) "rv = Inr ()"
          "rx' = rx1\<lparr>rx_payload_progress := 0, rx_output_queue := rx_output_queue rx @ [f],
            rx_frame := empty_frame, rx_state := PARSING_HEADER\<rparr>"
        by blast
      then show ?thesis
      proof cases
        case 1
        then show ?thesis by (simp add: rejects_def)
      next
        case ok
        have "stream_ok L rx'"
          using \<open>stream_ok L rx\<close> f b' q hp
          by (auto simp: stream_ok_def state_ok_def ok(2) rx1_def rx_group_def rx_is_valid_def wire_size_def)
        moreover have "payloads L rx' = payloads L rx @ [frame_payload ?g f]"
          by (simp add: payloads_def ok(2) rx1_def rx_group_def)
        moreover have "undecoded L rx' = ib_bytes ?g (advanced n b) @ concat (map (ib_bytes ?g) q)"
          by (simp add: undecoded_def buffered_def pending_def ok(2) rx1_def rx_group_def hp)
        ultimately show ?thesis
          using decode_frame [OF good len True] n
          by (auto simp: decodes_def un ok rx1_def)
      qed
    qed
  qed
qed

end
