(* ===== verification/Receiver_Buffers.thy ===== *)
theory Receiver_Buffers
  imports Receiver_Stream
begin

text \<open>
  The receiver as the owner of buffers: a buffer that the kernel filled is held while it is queued
  or while a frame refers to it, and goes back to the kernel once, when it stops being held. The
  reference counts and \<open>used_buffers_\<close> are machine words; the invariant relates them to the
  numbers that they stand for.
\<close>

section \<open>The invariant\<close>

definition frame_bids :: "receiver \<Rightarrow> u16 list" where
  "frame_bids rx = of_bids (rx_frame rx) @ concat (map of_bids (rx_output_queue rx))"

definition refs :: "receiver \<Rightarrow> u16 \<Rightarrow> nat" where
  "refs rx bid = count_list (frame_bids rx) bid"

definition queued :: "receiver \<Rightarrow> u16 list" where
  "queued rx = map ib_bid (rx_input_queue rx)"

definition held :: "receiver \<Rightarrow> u16 set" where
  "held rx = set (queued rx) \<union> set (frame_bids rx)"

text \<open>
  A queued buffer has at most as many references as bytes read, since a segment has at least one
  byte; so no count reaches \<open>2 ^ 31\<close>.
\<close>

definition refs_ok :: "links \<Rightarrow> receiver \<Rightarrow> bool" where
  "refs_ok L rx \<longleftrightarrow> length (rx_refcounts rx) = unat (bg_buffer_count (rx_group L rx)) \<and> distinct (queued rx) \<and>
     (\<forall>b \<in> set (rx_input_queue rx). refs rx (ib_bid b) \<le> ib_offset b \<and> ib_size b < 2 ^ 31) \<and>
     (\<forall>bid. refs rx bid < 2 ^ 31) \<and>
     (\<forall>bid < bg_buffer_count (rx_group L rx). rx_refcounts rx ! unat bid = of_nat (refs rx bid)) \<and>
     rx_used_buffers rx = of_nat (card (held rx))"

definition rx_inv :: "links \<Rightarrow> receiver \<Rightarrow> bool" where
  "rx_inv L rx \<longleftrightarrow> stream_ok L rx \<and> refs_ok L rx"

text \<open>
  What a step may do to the buffers: it takes none, and the buffers that it gives to the kernel
  are those that it stops holding, each given once.
\<close>

definition gives :: "links \<Rightarrow> receiver \<times> world \<Rightarrow> receiver \<times> world \<Rightarrow> bool" where
  "gives L s s' \<longleftrightarrow> rx_bg (fst s') = rx_bg (fst s) \<and> held (fst s') \<subseteq> held (fst s) \<and>
     recv_multishot_cache (snd s') = recv_multishot_cache (snd s) \<and>
     (\<exists>cs. trace (snd s') = trace (snd s) @ cs \<and>
        distinct (returned_bids (get_bgid (rx_group L (fst s))) cs) \<and>
        set (returned_bids (get_bgid (rx_group L (fst s))) cs) = held (fst s) - held (fst s'))"

lemma gives_quiet:
  assumes "rx_bg rx' = rx_bg rx" and "held rx' = held rx" and "recv_multishot_cache w' = recv_multishot_cache w"
    and "trace w' = trace w @ cs" and "returned_bids (get_bgid (rx_group L rx)) cs = []"
  shows "gives L (rx, w) (rx', w')"
  using assms by (auto simp: gives_def)

lemma gives_trans [trans]:
  assumes "gives L s s'" and "gives L s' s''"
  shows "gives L s s''"
proof -
  have g: "rx_group L (fst s') = rx_group L (fst s)"
    using assms(1) by (simp add: gives_def rx_group_def)
  obtain cs where cs: "trace (snd s') = trace (snd s) @ cs"
      "distinct (returned_bids (get_bgid (rx_group L (fst s))) cs)"
      "set (returned_bids (get_bgid (rx_group L (fst s))) cs) = held (fst s) - held (fst s')"
    using assms(1) by (auto simp: gives_def)
  obtain ds where ds: "trace (snd s'') = trace (snd s') @ ds"
      "distinct (returned_bids (get_bgid (rx_group L (fst s))) ds)"
      "set (returned_bids (get_bgid (rx_group L (fst s))) ds) = held (fst s') - held (fst s'')"
    using assms(2) g by (auto simp: gives_def)
  show ?thesis
    using assms cs ds unfolding gives_def by (intro conjI exI [of _ "cs @ ds"]) auto
qed

lemma finite_held [simp, intro]: "finite (held rx)"
  by (simp add: held_def)

lemma card_held_bound: "card (held rx) \<le> 65536"
proof -
  have "card (held rx) \<le> card (UNIV :: u16 set)"
    by (rule card_mono) auto
  then show ?thesis
    by (simp add: card_word)
qed

lemma frame_bids_bound:
  assumes "stream_ok L rx" and "bid \<in> set (frame_bids rx)"
  shows "bid < bg_buffer_count (rx_group L rx)"
proof -
  have "bid < bg_buffer_count g" if "bid \<in> set (of_bids f)" "frame_ok g f" for f g
    using that by (auto simp: frame_ok_def list_all2_conv_all_nth in_set_conv_nth seg_ok_def)
  with assms show ?thesis
    by (auto simp: frame_bids_def stream_ok_def)
qed

lemma refs_pos: "refs rx bid = 0 \<longleftrightarrow> bid \<notin> set (frame_bids rx)"
  by (simp add: refs_def count_list_0_iff)

section \<open>Parsing\<close>

lemma parse_header_refs:
  assumes "parse_header P L b rx w = (Inr u, rx', w')"
  shows "rx_frame rx' = rx_frame rx \<and> rx_output_queue rx' = rx_output_queue rx \<and>
    rx_refcounts rx' = rx_refcounts rx \<and> rx_used_buffers rx' = rx_used_buffers rx \<and> rx_bg rx' = rx_bg rx \<and>
    rx_write_in_progress rx' = rx_write_in_progress rx \<and> rx_cooling_down rx' = rx_cooling_down rx"
  using assms by (auto simp: parse_header_def Let_def split: sum.splits if_splits)

lemma alloc_world: "alloc P w = (ok, w') \<Longrightarrow> w' = log_call Alloc w"
  by (auto simp: alloc_def call_def)

lemma frame_complete_refs:
  assumes "frame_complete P L rx w = (Inr u, rx', w')"
  shows "refs rx' = refs rx \<and> set (frame_bids rx') = set (frame_bids rx) \<and>
    rx_refcounts rx' = rx_refcounts rx \<and> rx_used_buffers rx' = rx_used_buffers rx \<and> rx_bg rx' = rx_bg rx \<and>
    rx_write_in_progress rx' = rx_write_in_progress rx \<and> rx_cooling_down rx' = rx_cooling_down rx \<and>
    w' = log_call Alloc w"
  using assms
  by (auto simp: frame_complete_def Let_def refs_def frame_bids_def fun_eq_iff dest: alloc_world
      split: if_splits prod.splits)

lemma parse_payload_InrD:
  assumes "parse_payload P L b rx w = (Inr u, rx', w')"
  obtains n s where
    "let rx1 = rx\<lparr>
          rx_refcounts := (rx_refcounts rx)[unat (ib_bid b) := rx_refcounts rx ! unat (ib_bid b) + 1],
          rx_frame := add_segment (ib_bid b) s (rx_frame rx), rx_input_queue := advanced n b # tl (rx_input_queue rx),
          rx_payload_progress := rx_payload_progress rx + n\<rparr>;
        w1 = log_call Alloc (log_call Alloc w)
     in (rx' = rx1 \<and> w' = w1) \<or> frame_complete P L rx1 w1 = (Inr u, rx', w')"
proof -
  let ?size = "unat (get_size (byte_order P) (rx_header rx))"
  obtain sp where sp: "get_buffer (rx_group L rx) (ib_bid b) (Some (of_nat (ib_size b))) = Inr sp"
    using assms by (auto simp: parse_payload_def Let_def split: if_splits sum.splits)
  let ?n = "min (ib_size b - ib_offset b) (?size - rx_payload_progress rx)"
  let ?s = "\<lparr>iov_base = Buffer_mem (sp_off sp + ib_offset b), iov_len = ?n\<rparr>"
  have "let rx1 = rx\<lparr>
          rx_refcounts := (rx_refcounts rx)[unat (ib_bid b) := rx_refcounts rx ! unat (ib_bid b) + 1],
          rx_frame := add_segment (ib_bid b) ?s (rx_frame rx), rx_input_queue := advanced ?n b # tl (rx_input_queue rx),
          rx_payload_progress := rx_payload_progress rx + ?n\<rparr>;
        w1 = log_call Alloc (log_call Alloc w)
     in (rx' = rx1 \<and> w' = w1) \<or> frame_complete P L rx1 w1 = (Inr u, rx', w')"
    using assms sp
    by (simp add: parse_payload_def Let_def alloc_def call_def set_front_def add_segment_def advanced_def
        split: if_splits)
  then show ?thesis by (rule that)
qed

lemma parse_payload_refs:
  assumes "parse_payload P L b rx w = (Inr u, rx', w')"
  shows "refs rx' = (refs rx)(ib_bid b := refs rx (ib_bid b) + 1) \<and>
    set (frame_bids rx') = insert (ib_bid b) (set (frame_bids rx)) \<and>
    rx_refcounts rx' = (rx_refcounts rx)[unat (ib_bid b) := rx_refcounts rx ! unat (ib_bid b) + 1] \<and>
    rx_used_buffers rx' = rx_used_buffers rx \<and> rx_bg rx' = rx_bg rx \<and>
    rx_write_in_progress rx' = rx_write_in_progress rx \<and> rx_cooling_down rx' = rx_cooling_down rx \<and>
    (w' = log_call Alloc (log_call Alloc w) \<or> w' = log_call Alloc (log_call Alloc (log_call Alloc w)))"
proof -
  obtain n s where *: "let rx1 = rx\<lparr>
          rx_refcounts := (rx_refcounts rx)[unat (ib_bid b) := rx_refcounts rx ! unat (ib_bid b) + 1],
          rx_frame := add_segment (ib_bid b) s (rx_frame rx), rx_input_queue := advanced n b # tl (rx_input_queue rx),
          rx_payload_progress := rx_payload_progress rx + n\<rparr>;
        w1 = log_call Alloc (log_call Alloc w)
     in (rx' = rx1 \<and> w' = w1) \<or> frame_complete P L rx1 w1 = (Inr u, rx', w')"
    by (rule parse_payload_InrD [OF assms])
  define rx1 where "rx1 = rx\<lparr>
          rx_refcounts := (rx_refcounts rx)[unat (ib_bid b) := rx_refcounts rx ! unat (ib_bid b) + 1],
          rx_frame := add_segment (ib_bid b) s (rx_frame rx), rx_input_queue := advanced n b # tl (rx_input_queue rx),
          rx_payload_progress := rx_payload_progress rx + n\<rparr>"
  have "refs rx1 = (refs rx)(ib_bid b := refs rx (ib_bid b) + 1)"
      "set (frame_bids rx1) = insert (ib_bid b) (set (frame_bids rx))"
      "rx_refcounts rx1 = (rx_refcounts rx)[unat (ib_bid b) := rx_refcounts rx ! unat (ib_bid b) + 1]"
      "rx_used_buffers rx1 = rx_used_buffers rx" "rx_bg rx1 = rx_bg rx"
      "rx_write_in_progress rx1 = rx_write_in_progress rx" "rx_cooling_down rx1 = rx_cooling_down rx"
    by (auto simp: rx1_def refs_def frame_bids_def add_segment_def fun_eq_iff)
  with * [unfolded Let_def, folded rx1_def] show ?thesis
    using frame_complete_refs [of P L rx1 "log_call Alloc (log_call Alloc w)" u rx' w'] by metis
qed

definition same_control :: "receiver \<Rightarrow> receiver \<Rightarrow> bool" where
  "same_control rx rx' \<longleftrightarrow> rx_write_in_progress rx' = rx_write_in_progress rx \<and>
     rx_cooling_down rx' = rx_cooling_down rx"

lemma same_control_trans: "same_control rx rx' \<Longrightarrow> same_control rx' rx'' \<Longrightarrow> same_control rx rx''"
  by (simp add: same_control_def)

text \<open>Popping the front buffer, and the count of a released buffer.\<close>

lemma frame_bids_pop [simp]:
  "frame_bids (rx\<lparr>rx_input_queue := q\<rparr>) = frame_bids rx"
  "frame_bids (rx\<lparr>rx_used_buffers := n\<rparr>) = frame_bids rx"
  "refs (rx\<lparr>rx_input_queue := q\<rparr>) = refs rx" "refs (rx\<lparr>rx_used_buffers := n\<rparr>) = refs rx"
  by (simp_all add: frame_bids_def refs_def fun_eq_iff)

lemma stream_ok_pop:
  "stream_ok L rx \<Longrightarrow> rx_input_queue rx = b # q \<Longrightarrow> stream_ok L (rx\<lparr>rx_used_buffers := n, rx_input_queue := q\<rparr>)"
  "stream_ok L rx \<Longrightarrow> rx_input_queue rx = b # q \<Longrightarrow> stream_ok L (rx\<lparr>rx_input_queue := q\<rparr>)"
  by (simp_all add: stream_ok_def state_ok_def rx_is_valid_def rx_group_def cong: parse_state.case_cong)

lemma decodes_pop:
  assumes "rx_input_queue rx = b # q" and "ib_offset b = ib_size b"
  shows "decodes L rx (rx\<lparr>rx_used_buffers := n, rx_input_queue := q\<rparr>)"
    and "decodes L rx (rx\<lparr>rx_input_queue := q\<rparr>)"
  using assms
  by (auto intro!: decodes_same simp: payloads_def undecoded_def buffered_def pending_def rx_group_def
      cong: parse_state.case_cong)

lemma of_nat_pred: "n \<noteq> 0 \<Longrightarrow> (of_nat n :: 'a::len word) - 1 = of_nat (n - 1)"
  by (cases n) simp_all

lemma finish_buffer_inv:
  assumes inv: "rx_inv L rx" and q: "rx_input_queue rx = b # q"
    and tl: "\<forall>c \<in> set q. ib_offset c < ib_size c" and r: "finish_buffer P L rx w = (rv, rx', w')"
  shows "rv = Inr () \<and> rx_inv L rx' \<and> unread rx' \<and> decodes L rx rx' \<and> gives L (rx, w) (rx', w') \<and>
    same_control rx rx'"
proof -
  let ?g = "rx_group L rx"
  have ok: "stream_ok L rx" and ro: "refs_ok L rx"
    using inv by (simp_all add: rx_inv_def)
  have g: "wf_group ?g" and b: "ib_ok ?g b"
    using ok q by (simp_all add: stream_ok_def)
  have bid: "ib_bid b < bg_buffer_count ?g"
    using b by (simp add: ib_ok_def)
  have "refs rx (ib_bid b) < 2 ^ 31"
    using ro unfolding refs_ok_def by blast
  then have count: "rx_refcounts rx ! unat (ib_bid b) = 0 \<longleftrightarrow> ib_bid b \<notin> set (frame_bids rx)"
    using ro bid of_nat_eq_0_word [of "refs rx (ib_bid b)", where 'a = 32]
    by (auto simp: refs_ok_def refs_pos)
  consider (more) "ib_offset b \<noteq> ib_size b"
    | (free) "ib_offset b = ib_size b" "ib_bid b \<notin> set (frame_bids rx)"
    | (pinned) "ib_offset b = ib_size b" "ib_bid b \<in> set (frame_bids rx)"
    by blast
  then show ?thesis
  proof cases
    case more
    then have "rv = Inr ()" "rx' = rx" "w' = w"
      using r q by (simp_all add: finish_buffer_def Let_def)
    then show ?thesis
      using inv tl b more q
      by (auto simp: unread_def ib_ok_def decodes_same same_control_def intro: gives_quiet [where cs = "[]"])
  next
    case free
    let ?rx = "rx\<lparr>rx_used_buffers := rx_used_buffers rx - 1, rx_input_queue := q\<rparr>"
    have res: "rv = Inr ()" "rx' = ?rx"
        "trace w' = trace w @ [Buf_ring_add (bg_bgid ?g) (buffer_offset ?g (ib_bid b)) (unat (bg_buffer_size ?g))
           (ib_bid b) (bg_mask ?g) 0, Buf_ring_advance (bg_bgid ?g) 1]"
        "recv_multishot_cache w' = recv_multishot_cache w"
      using r q free count return_buffer_Inr [OF g bid]
      by (auto simp: finish_buffer_def Let_def log_call_def)
    have h: "held ?rx = held rx - {ib_bid b}" "ib_bid b \<in> held rx"
      using ro free(2) by (auto simp: held_def queued_def q refs_ok_def)
    then have "of_nat (card (held rx)) - 1 = (of_nat (card (held ?rx)) :: u64)"
      by (subst of_nat_pred) auto
    then have "refs_ok L ?rx"
      using ro by (simp add: refs_ok_def queued_def q rx_group_def)
    moreover have "gives L (rx, w) (?rx, w')"
      using h res(3,4) by (auto simp: gives_def get_bgid_def)
    ultimately show ?thesis
      using res stream_ok_pop(1) [OF ok q] decodes_pop(1) [OF q free(1)] tl
      by (simp add: rx_inv_def unread_def same_control_def)
  next
    case pinned
    let ?rx = "rx\<lparr>rx_input_queue := q\<rparr>"
    have res: "rv = Inr ()" "rx' = ?rx" "w' = w"
      using r q pinned count by (simp_all add: finish_buffer_def Let_def)
    have h: "held ?rx = held rx"
      using pinned(2) by (auto simp: held_def queued_def q)
    then have "refs_ok L ?rx"
      using ro by (simp add: refs_ok_def queued_def q rx_group_def)
    moreover have "gives L (rx, w) (?rx, w)"
      by (rule gives_quiet [where cs = "[]"]) (simp_all add: h)
    ultimately show ?thesis
      using res stream_ok_pop(2) [OF ok q] decodes_pop(2) [OF q pinned(1)] tl
      by (simp add: rx_inv_def unread_def same_control_def)
  qed
qed

lemma nth_update_word:
  "unat a < length xs \<Longrightarrow> xs[unat a := x] ! unat b = (if a = b then x else xs ! unat b)"
  by (auto simp: nth_list_update word_unat_eq_iff)

lemma queued_advanced:
  "rx_input_queue rx = b # q \<Longrightarrow> rx_input_queue rx' = advanced n b # q \<Longrightarrow> queued rx' = queued rx"
  by (simp add: queued_def)

lemma parse_header_inv:
  assumes inv: "rx_inv L rx" and st: "rx_state rx = PARSING_HEADER" and q: "rx_input_queue rx = b # q"
    and off: "ib_offset b < ib_size b" and r: "parse_header P L b rx w = (Inr u, rx', w')"
  shows "rx_inv L rx' \<and> decodes L rx rx' \<and> gives L (rx, w) (rx', w') \<and> same_control rx rx' \<and>
    (\<exists>n. rx_input_queue rx' = advanced n b # q)"
proof -
  obtain n where s: "stream_ok L rx'" "decodes L rx rx'" "rx_input_queue rx' = advanced n b # q" "w' = w"
    using parse_header_stream [OF _ st q off r] inv by (auto simp: rx_inv_def)
  note f = parse_header_refs [OF r]
  have fb: "frame_bids rx' = frame_bids rx"
    using f by (simp add: frame_bids_def)
  have h: "held rx' = held rx" "rx_group L rx' = rx_group L rx" "refs rx' = refs rx"
    using queued_advanced [OF q s(3)] f fb by (simp_all add: held_def rx_group_def refs_def fun_eq_iff)
  have "refs_ok L rx'"
    using inv q s(3) f queued_advanced [OF q s(3)] by (auto simp: rx_inv_def refs_ok_def h)
  moreover have "gives L (rx, w) (rx', w')"
    by (rule gives_quiet [where cs = "[]"]) (use f h s(4) in simp_all)
  ultimately show ?thesis
    using s f by (auto simp: rx_inv_def same_control_def)
qed

lemma parse_payload_inv:
  assumes inv: "rx_inv L rx" and cpu: "wf_cpu (processor P)" and st: "rx_state rx = PARSING_PAYLOAD"
    and q: "rx_input_queue rx = b # q"
    and off: "ib_offset b < ib_size b" and r: "parse_payload P L b rx w = (Inr u, rx', w')"
  shows "rx_inv L rx' \<and> decodes L rx rx' \<and> gives L (rx, w) (rx', w') \<and> same_control rx rx' \<and>
    (\<exists>n. rx_input_queue rx' = advanced n b # q)"
proof -
  obtain n where s: "stream_ok L rx'" "decodes L rx rx'" "rx_input_queue rx' = advanced n b # q"
      and n: "0 < n" "n \<le> ib_size b - ib_offset b"
    using parse_payload_stream [OF _ cpu st q off r] inv by (auto simp: rx_inv_def)
  note f = parse_payload_refs [OF r]
  have ro: "refs_ok L rx" and ok: "ib_ok (rx_group L rx) b"
    using inv q by (simp_all add: rx_inv_def stream_ok_def)
  have h: "held rx' = held rx" "rx_group L rx' = rx_group L rx"
    using f q queued_advanced [OF q s(3)] by (auto simp: held_def rx_group_def queued_def)
  have b: "refs rx (ib_bid b) \<le> ib_offset b" "ib_size b < 2 ^ 31" "ib_bid b \<notin> ib_bid ` set q"
    using ro q by (simp_all add: refs_ok_def queued_def)
  have fr: "refs rx' = (refs rx)(ib_bid b := refs rx (ib_bid b) + 1)"
    using f by blast
  have "ib_bid c \<noteq> ib_bid b" if "c \<in> set q" for c
    using b(3) that by (metis image_eqI)
  then have "\<forall>c \<in> set (advanced n b # q). refs rx' (ib_bid c) \<le> ib_offset c \<and> ib_size c < 2 ^ 31"
    using ro b n by (simp add: refs_ok_def q fr)
  moreover have "refs rx (ib_bid b) + 1 < 2 ^ 31"
    using b n by linarith
  then have "\<forall>bid. refs rx' bid < 2 ^ 31"
    using ro by (simp add: refs_ok_def fr)
  moreover have "\<forall>bid < bg_buffer_count (rx_group L rx). rx_refcounts rx' ! unat bid = of_nat (refs rx' bid)"
    using ro f ok by (auto simp: refs_ok_def nth_update_word ib_ok_def word_less_nat_alt fr)
  ultimately have "refs_ok L rx'"
    using ro f queued_advanced [OF q s(3)] s(3) by (simp add: refs_ok_def h)
  moreover have "\<exists>cs. trace w' = trace w @ cs \<and> returned_bids (get_bgid (rx_group L rx)) cs = [] \<and>
      recv_multishot_cache w' = recv_multishot_cache w"
    using f by (auto simp: log_call_def)
  then have "gives L (rx, w) (rx', w')"
    using f h by (auto intro: gives_quiet)
  ultimately show ?thesis
    using s f by (auto simp: rx_inv_def same_control_def)
qed

text \<open>A step either keeps the invariant and decodes, or fails as the reference decoder does.\<close>

definition step_result :: "links \<Rightarrow> receiver \<times> world \<Rightarrow> unit result \<times> receiver \<times> world \<Rightarrow> bool" where
  "step_result L s out \<longleftrightarrow> (case fst out of
      Inl e \<Rightarrow> rejects L (fst s) e
    | Inr _ \<Rightarrow> rx_inv L (fst (snd out)) \<and> unread (fst (snd out)) \<and> decodes L (fst s) (fst (snd out)) \<and>
        gives L s (snd out) \<and> same_control (fst s) (fst (snd out)))"

lemma step_result_trans:
  assumes "decodes L (fst s) (fst s')" and "gives L s s'" and "same_control (fst s) (fst s')"
    and "step_result L s' out"
  shows "step_result L s out"
  using assms
  by (auto simp: step_result_def split: sum.splits
      intro: decodes_rejects decodes_trans gives_trans same_control_trans)

lemma parse_step_inv:
  assumes inv: "rx_inv L rx" and un: "unread rx" and cpu: "wf_cpu (processor P)" and ne: "rx_input_queue rx \<noteq> []"
  shows "step_result L (rx, w) (parse_step P L rx w)"
proof -
  obtain b q where q: "rx_input_queue rx = b # q"
    using ne by (cases "rx_input_queue rx") auto
  have off: "ib_offset b < ib_size b" and tl: "\<forall>c \<in> set q. ib_offset c < ib_size c"
    using un by (simp_all add: unread_def q)
  have ok: "stream_ok L rx"
    using inv by (simp add: rx_inv_def)
  define body where "body = (case rx_state rx of
      PARSING_HEADER \<Rightarrow> parse_header P L b rx w
    | PARSING_PAYLOAD \<Rightarrow> parse_payload P L b rx w
    | Unnamed_state _ \<Rightarrow> (Inl (Error InvalidEnumValue), rx, w))"
  obtain rv rx1 w1 where body: "body = (rv, rx1, w1)"
    by (cases body)
  have step: "parse_step P L rx w = (case rv of Inl e \<Rightarrow> (Inl e, rx1, w1) | Inr _ \<Rightarrow> finish_buffer P L rx1 w1)"
    using off by (simp add: parse_step_def q Let_def body_def [symmetric] body split: sum.split)
  have "rejects L rx e" if "rv = Inl e" for e
    using that body parse_header_stream [OF ok _ q off] parse_payload_stream [OF ok cpu _ q off] ok
    by (cases "rx_state rx") (fastforce simp: body_def stream_ok_def state_ok_def)+
  moreover have "rx_inv L rx1 \<and> decodes L rx rx1 \<and> gives L (rx, w) (rx1, w1) \<and> same_control rx rx1 \<and>
      (\<exists>n. rx_input_queue rx1 = advanced n b # q)" if "rv = Inr u" for u
    using that body parse_header_inv [OF inv _ q off] parse_payload_inv [OF inv cpu _ q off] ok
    by (cases "rx_state rx") (simp_all add: body_def stream_ok_def state_ok_def)
  moreover have "step_result L (rx1, w1) (finish_buffer P L rx1 w1)"
    if "rx_inv L rx1" "rx_input_queue rx1 = advanced n b # q" for n
    using finish_buffer_inv [OF that tl, of P w1 "fst (finish_buffer P L rx1 w1)"
      "fst (snd (finish_buffer P L rx1 w1))" "snd (snd (finish_buffer P L rx1 w1))"]
    by (simp add: step_result_def)
  ultimately show ?thesis
    using step_result_trans [of L "(rx, w)" "(rx1, w1)" "finish_buffer P L rx1 w1"]
    by (cases rv) (auto simp: step, simp add: step_result_def)
qed

lemma parse_loop_inv:
  assumes "rx_inv L rx" and "unread rx" and "wf_cpu (processor P)"
  shows "step_result L (rx, w) (parse_loop P L rx w) \<and>
    (fst (parse_loop P L rx w) = Inr () \<longrightarrow> rx_input_queue (fst (snd (parse_loop P L rx w))) = [])"
  using assms
proof (induction P L rx w rule: parse_loop.induct)
  case (1 P L rx w)
  show ?case
  proof (cases "rx_input_queue rx = []")
    case True
    have "gives L (rx, w) (rx, w)"
      by (rule gives_quiet [where cs = "[]"]) simp_all
    with True "1.prems" show ?thesis
      by (simp add: parse_loop.simps [of P L rx w] step_result_def decodes_same same_control_def)
  next
    case False
    obtain rv rx1 w1 where s: "parse_step P L rx w = (rv, rx1, w1)"
      by (cases "parse_step P L rx w")
    note step = parse_step_inv [OF "1.prems"(1,2,3) False, of w, unfolded s]
    show ?thesis
    proof (cases rv)
      case (Inl e)
      then show ?thesis
        using step False by (simp add: parse_loop.simps [of P L rx w] s step_result_def)
    next
      case (Inr u)
      then show ?thesis
        using "1.IH" [OF False s [symmetric] Inr refl] step False "1.prems"(3)
          step_result_trans [of L "(rx, w)" "(rx1, w1)" "parse_loop P L rx1 w1"]
        by (simp add: parse_loop.simps [of P L rx w] s step_result_def [of L _ "(_, _)"])
    qed
  qed
qed

end
