(* ===== verification/Receiver_Handlers.thy ===== *)
theory Receiver_Handlers
  imports Receiver_Buffers
begin

text \<open>
  The receiver's completion handlers: after any handler that succeeds, the invariant holds, the
  input queue is empty, and a write is in flight exactly when a frame waits for the device.
\<close>

section \<open>Arming\<close>

lemma quiet_gives: "quiet w w' \<Longrightarrow> rx_bg rx' = rx_bg rx \<Longrightarrow> held rx' = held rx \<Longrightarrow> gives L (rx, w) (rx', w')"
  by (auto simp: quiet_def intro: gives_quiet)

text \<open>The feature check has been made, as it is when the session starts.\<close>

definition cache_ready :: "platform \<Rightarrow> world \<Rightarrow> bool" where
  "cache_ready P w \<longleftrightarrow> (HAVE_PREP_RECV_MULTISHOT P \<longrightarrow> recv_multishot_cache w \<noteq> None)"

lemma quiet_cache_ready: "quiet w w' \<Longrightarrow> cache_ready P w' = cache_ready P w"
  by (simp add: quiet_def cache_ready_def)

lemma arm_recv_quiet:
  assumes "arm_recv P L rx w = (rv, w')" and "cache_ready P w" and "rx_is_valid rx"
  shows "quiet w w' \<and> (\<forall>e. rv = Inl e \<longrightarrow> ring_failure e)"
proof -
  obtain rv1 w1 where s: "get_sqe P (lk_ring L) w = (rv1, w1)"
    by (cases "get_sqe P (lk_ring L) w")
  note q1 = get_sqe_quiet [OF s]
  show ?thesis
  proof (cases rv1)
    case (Inl e)
    then show ?thesis
      using assms(1,3) s q1 by (auto simp: arm_recv_def)
  next
    case (Inr u)
    have ready: "cache_ready P w1"
      using assms(2) q1 quiet_cache_ready by blast
    let ?tag = "Sqe_set_data64 (serialize (set_type RECV new_operation))"
    obtain c where c: "\<And>g. added_bid g c = []"
        "arm_recv P L rx w = (case submit P (lk_ring L)
          (log_call (Sqe_buffer_select (get_bgid (rx_group L rx))) (log_call c (log_call ?tag w1))) of
            (Inl e, w) \<Rightarrow> (Inl e, w) | (Inr _, w) \<Rightarrow> (Inr (), w))"
    proof (cases "HAVE_PREP_RECV_MULTISHOT P")
      case True
      then obtain m where m: "recv_multishot_cache w1 = Some m"
        using ready by (auto simp: cache_ready_def)
      show ?thesis
        using m True s Inr assms(3)
        by (intro that [of "if m then Sqe_prep_recv_multishot (sock_get (lk_socket L)) else Sqe_prep_recv (sock_get (lk_socket L))"])
          (auto simp: arm_recv_def recv_multishot_def log_call_def Let_def)
    next
      case False
      with s Inr assms(3) show ?thesis
        by (intro that [of "Sqe_prep_recv (sock_get (lk_socket L))"]) (simp_all add: arm_recv_def Let_def)
    qed
    let ?w2 = "log_call (Sqe_buffer_select (get_bgid (rx_group L rx))) (log_call c (log_call ?tag w1))"
    have q2: "quiet w ?w2"
      using q1 c(1) by (intro quiet_log_call) auto
    obtain rv3 w3 where s3: "submit P (lk_ring L) ?w2 = (rv3, w3)"
      by (cases "submit P (lk_ring L) ?w2")
    show ?thesis
      using assms(1) c(2) s3 submit_quiet [OF s3] q2 by (cases rv3) (auto intro: quiet_trans)
  qed
qed

section \<open>Fields that only control\<close>

lemma control_simps [simp]:
  "frame_bids (rx\<lparr>rx_write_in_progress := x\<rparr>) = frame_bids rx"
  "frame_bids (rx\<lparr>rx_cooling_down := x\<rparr>) = frame_bids rx"
  "refs (rx\<lparr>rx_write_in_progress := x\<rparr>) = refs rx" "refs (rx\<lparr>rx_cooling_down := x\<rparr>) = refs rx"
  "held (rx\<lparr>rx_write_in_progress := x\<rparr>) = held rx" "held (rx\<lparr>rx_cooling_down := x\<rparr>) = held rx"
  "rx_group L (rx\<lparr>rx_write_in_progress := x\<rparr>) = rx_group L rx"
  "rx_group L (rx\<lparr>rx_cooling_down := x\<rparr>) = rx_group L rx"
  "payloads L (rx\<lparr>rx_write_in_progress := x\<rparr>) = payloads L rx"
  "payloads L (rx\<lparr>rx_cooling_down := x\<rparr>) = payloads L rx"
  "rx_is_valid (rx\<lparr>rx_write_in_progress := x\<rparr>) = rx_is_valid rx"
  "rx_is_valid (rx\<lparr>rx_cooling_down := x\<rparr>) = rx_is_valid rx"
  by (simp_all add: frame_bids_def refs_def held_def queued_def rx_group_def payloads_def rx_is_valid_def fun_eq_iff)

lemma control_stream [simp]:
  "buffered L (rx\<lparr>rx_write_in_progress := x\<rparr>) = buffered L rx"
  "buffered L (rx\<lparr>rx_cooling_down := x\<rparr>) = buffered L rx"
  "undecoded L (rx\<lparr>rx_write_in_progress := x\<rparr>) = undecoded L rx"
  "undecoded L (rx\<lparr>rx_cooling_down := x\<rparr>) = undecoded L rx"
  "rx_inv L (rx\<lparr>rx_write_in_progress := x\<rparr>) = rx_inv L rx"
  "rx_inv L (rx\<lparr>rx_cooling_down := x\<rparr>) = rx_inv L rx"
  by (simp_all add: undecoded_def buffered_def pending_def rx_inv_def stream_ok_def state_ok_def refs_ok_def
      queued_def cong: parse_state.case_cong)

lemma rx_inv_valid: "rx_inv L rx \<Longrightarrow> rx_is_valid rx"
  by (simp add: rx_inv_def stream_ok_def)

lemma kick_write_cases:
  assumes "kick_write P L rx w = (rv, rx', w')" and "rx_is_valid rx"
    and "rx_write_in_progress rx \<longrightarrow> rx_output_queue rx \<noteq> []"
  shows "quiet w w' \<and> (\<exists>b. rx' = rx\<lparr>rx_write_in_progress := b\<rparr>) \<and> (\<forall>e. rv = Inl e \<longrightarrow> ring_failure e) \<and>
    (\<forall>u. rv = Inr u \<longrightarrow> (rx_write_in_progress rx' \<longleftrightarrow> rx_output_queue rx \<noteq> []))"
proof (cases "rx_write_in_progress rx \<or> rx_output_queue rx = []")
  case True
  have "\<exists>b. rx = rx\<lparr>rx_write_in_progress := b\<rparr>"
    by (rule exI [of _ "rx_write_in_progress rx"]) simp
  moreover have "rv = Inr ()" "rx' = rx" "w' = w"
    using True assms by (auto simp: kick_write_def split: list.splits)
  ultimately show ?thesis
    using True assms(3) quiet_refl by blast
next
  case False
  then obtain f fs where f: "rx_output_queue rx = f # fs"
    by (cases "rx_output_queue rx") auto
  obtain rv1 w1 where s: "get_sqe P (lk_ring L) w = (rv1, w1)"
    by (cases "get_sqe P (lk_ring L) w")
  note q1 = get_sqe_quiet [OF s]
  let ?w2 = "log_call (Sqe_set_data64 (serialize (set_type WRITE new_operation)))
      (log_call (Sqe_prep_writev (get_fd (lk_tun L)) (of_segments f)) w1)"
  have q2: "quiet w ?w2"
    using q1 by (intro quiet_log_call) auto
  obtain rv3 w3 where s3: "submit P (lk_ring L) ?w2 = (rv3, w3)"
    by (cases "submit P (lk_ring L) ?w2")
  have keep: "\<exists>b. rx = rx\<lparr>rx_write_in_progress := b\<rparr>"
    by (rule exI [of _ "rx_write_in_progress rx"]) simp
  have run: "kick_write P L rx w = (case rv1 of Inl e \<Rightarrow> (Inl e, rx, w1)
      | Inr _ \<Rightarrow> (case rv3 of Inl e \<Rightarrow> (Inl e, rx, w3) | Inr _ \<Rightarrow> (Inr (), rx\<lparr>rx_write_in_progress := True\<rparr>, w3)))"
    using assms(2) False by (simp add: kick_write_def f s s3 Let_def split: sum.split)
  note q3 = submit_quiet [OF s3]
  show ?thesis
  proof (cases rv1)
    case (Inl e)
    then have "rv = Inl e" "rx' = rx" "w' = w1"
      using assms(1) run by simp_all
    with q1 Inl keep show ?thesis by blast
  next
    case (Inr u1)
    show ?thesis
    proof (cases rv3)
      case (Inl e)
      then have "rv = Inl e" "rx' = rx" "w' = w3"
        using assms(1) run Inr by simp_all
      with q3 q2 Inl keep show ?thesis by (blast intro: quiet_trans)
    next
      case (Inr u3)
      then have "rv = Inr ()" "rx' = rx\<lparr>rx_write_in_progress := True\<rparr>" "w' = w3"
        using assms(1) run \<open>rv1 = Inr u1\<close> by simp_all
      moreover have "quiet w w3"
        using q3 q2 by (blast intro: quiet_trans)
      ultimately show ?thesis
        using f by auto
    qed
  qed
qed

section \<open>A finished write\<close>

text \<open>
  Releasing the buffers of a frame, where \<open>m\<close> counts the references that stay: exactly the
  buffers with no other reference are returned, once, and no count goes below zero.
\<close>

lemma release_bids_Inr:
  assumes "wf_group (rx_group L rx)" and "\<forall>b \<in> set bids. b < bg_buffer_count (rx_group L rx)"
    and "length (rx_refcounts rx) = unat (bg_buffer_count (rx_group L rx))"
    and "\<forall>b < bg_buffer_count (rx_group L rx). rx_refcounts rx ! unat b = of_nat (count_list bids b + m b)"
    and "\<forall>b. count_list bids b + m b < 2 ^ 31"
  shows "\<exists>rc cs w'. release_bids P L bids rx w = (Inr (),
       rx\<lparr>rx_refcounts := rc, rx_used_buffers := rx_used_buffers rx - of_nat (card {b \<in> set bids. m b = 0})\<rparr>, w') \<and>
     length rc = length (rx_refcounts rx) \<and>
     (\<forall>b < bg_buffer_count (rx_group L rx). rc ! unat b = of_nat (m b)) \<and>
     recv_multishot_cache w' = recv_multishot_cache w \<and> trace w' = trace w @ cs \<and>
     distinct (returned_bids (get_bgid (rx_group L rx)) cs) \<and>
     set (returned_bids (get_bgid (rx_group L rx)) cs) = {b \<in> set bids. m b = 0}"
  using assms
proof (induction bids arbitrary: rx w)
  case Nil
  then show ?case
    by (intro exI [of _ "rx_refcounts rx"] exI [of _ "[]"] exI [of _ w]) simp
next
  case (Cons bid bids)
  let ?g = "rx_group L rx"
  let ?n = "count_list bids bid + m bid"
  define rx1 where "rx1 = rx\<lparr>rx_refcounts := (rx_refcounts rx)[unat bid := of_nat ?n]\<rparr>"
  have bid: "bid < bg_buffer_count ?g" "unat bid < length (rx_refcounts rx)"
    using Cons.prems(2,3) by (simp_all add: word_less_nat_alt)
  have dec: "rx_refcounts rx ! unat bid - 1 = of_nat ?n"
    using Cons.prems(4) bid(1) by simp
  have "?n < 2 ^ 31"
    using Cons.prems(5) [rule_format, of bid] by simp
  then have sint: "sint (of_nat ?n :: s32) = int ?n"
    by (rule sint_of_nat32)
  have prems: "wf_group (rx_group L rx1)" "\<forall>b \<in> set bids. b < bg_buffer_count (rx_group L rx1)"
      "length (rx_refcounts rx1) = unat (bg_buffer_count (rx_group L rx1))"
      "\<forall>b < bg_buffer_count (rx_group L rx1). rx_refcounts rx1 ! unat b = of_nat (count_list bids b + m b)"
    using Cons.prems(1-4) bid(2) by (simp_all add: rx1_def rx_group_def nth_update_word)
  have bound: "\<forall>b. count_list bids b + m b < 2 ^ 31"
  proof
    fix b show "count_list bids b + m b < 2 ^ 31"
      using Cons.prems(5) [rule_format, of b] by (simp split: if_splits)
  qed
  show ?case
  proof (cases "?n = 0")
    case True
    let ?w = "log_call (Buf_ring_advance (bg_bgid ?g) 1)
        (log_call (Buf_ring_add (bg_bgid ?g) (buffer_offset ?g bid) (unat (bg_buffer_size ?g)) bid (bg_mask ?g) 0) w)"
    let ?rx = "rx1\<lparr>rx_used_buffers := rx_used_buffers rx1 - 1\<rparr>"
    have "release_bids P L (bid # bids) rx w = release_bids P L bids ?rx ?w"
      using True sint return_buffer_Inr [OF Cons.prems(1) bid(1)] dec bid
      by (simp add: Let_def rx1_def rx_group_def)
    moreover have set: "{b \<in> set (bid # bids). m b = 0} = insert bid {b \<in> set bids. m b = 0}"
        and "bid \<notin> {b \<in> set bids. m b = 0}"
      using True by (auto simp: count_list_0_iff)
    then have "card {b \<in> set (bid # bids). m b = 0} = Suc (card {b \<in> set bids. m b = 0})"
      by simp
    moreover obtain rc cs w' where IH: "release_bids P L bids ?rx ?w = (Inr (),
          ?rx\<lparr>rx_refcounts := rc, rx_used_buffers := rx_used_buffers ?rx - of_nat (card {b \<in> set bids. m b = 0})\<rparr>, w')"
        "length rc = length (rx_refcounts ?rx)" "\<forall>b < bg_buffer_count ?g. rc ! unat b = of_nat (m b)"
        "recv_multishot_cache w' = recv_multishot_cache ?w" "trace w' = trace ?w @ cs"
        "distinct (returned_bids (get_bgid ?g) cs)" "set (returned_bids (get_bgid ?g) cs) = {b \<in> set bids. m b = 0}"
      using Cons.IH [of ?rx ?w] prems bound by (auto simp: rx_group_def rx1_def)
    ultimately show ?thesis
      using True
      by (intro exI [of _ rc] exI [of _ "[Buf_ring_add (bg_bgid ?g) (buffer_offset ?g bid) (unat (bg_buffer_size ?g)) bid (bg_mask ?g) 0,
            Buf_ring_advance (bg_bgid ?g) 1] @ cs"] exI [of _ w'])
        (auto simp: rx1_def get_bgid_def log_call_def count_list_0_iff simp del: release_bids.simps)
  next
    case False
    have "\<not> sint (of_nat ?n :: s32) \<le> 0"
      unfolding sint using False by linarith
    then have "release_bids P L (bid # bids) rx w = release_bids P L bids rx1 w"
      using dec bid by (simp add: Let_def rx1_def)
    moreover have "{b \<in> set (bid # bids). m b = 0} = {b \<in> set bids. m b = 0}"
      using False by (auto simp: count_list_0_iff)
    moreover obtain rc cs w' where "release_bids P L bids rx1 w = (Inr (),
          rx1\<lparr>rx_refcounts := rc, rx_used_buffers := rx_used_buffers rx1 - of_nat (card {b \<in> set bids. m b = 0})\<rparr>, w')"
        "length rc = length (rx_refcounts rx1)" "\<forall>b < bg_buffer_count ?g. rc ! unat b = of_nat (m b)"
        "recv_multishot_cache w' = recv_multishot_cache w" "trace w' = trace w @ cs"
        "distinct (returned_bids (get_bgid ?g) cs)" "set (returned_bids (get_bgid ?g) cs) = {b \<in> set bids. m b = 0}"
      using Cons.IH [of rx1 w] prems bound by (auto simp: rx_group_def rx1_def)
    ultimately show ?thesis
      by (intro exI [of _ rc] exI [of _ cs] exI [of _ w']) (auto simp: rx1_def simp del: release_bids.simps)
  qed
qed

text \<open>
  Between two completions: the invariant holds, everything queued has been parsed, and a write is
  in flight exactly when a frame waits.
\<close>

definition rx_idle :: "links \<Rightarrow> receiver \<Rightarrow> bool" where
  "rx_idle L rx \<longleftrightarrow> rx_inv L rx \<and> rx_input_queue rx = [] \<and>
     (rx_write_in_progress rx \<longleftrightarrow> rx_output_queue rx \<noteq> [])"

text \<open>The end of both handlers: an optional re-arm, then the next write.\<close>

lemma rx_rearm_cases:
  assumes "rx_rearm P L rx w = (rv, rx', w')" and "cache_ready P w" and "rx_is_valid rx"
  shows "quiet w w' \<and> (\<exists>c. rx' = rx\<lparr>rx_cooling_down := c\<rparr>) \<and> (\<forall>e. rv = Inl e \<longrightarrow> ring_failure e)"
proof -
  have keep: "\<exists>c. rx = rx\<lparr>rx_cooling_down := c\<rparr>"
    by (rule exI [of _ "rx_cooling_down rx"]) simp
  obtain rv1 w1 where a: "arm_recv P L rx w = (rv1, w1)"
    by (cases "arm_recv P L rx w")
  note q = arm_recv_quiet [OF a assms(2,3)]
  show ?thesis
  proof (cases "rx_cooling_down rx \<and> unat (rx_used_buffers rx) < get_buffer_count (rx_group L rx) div 2")
    case False
    then have "rx_rearm P L rx w = (Inr (), rx, w)"
      unfolding rx_rearm_def by (rule if_not_P)
    then have "rv = Inr ()" "rx' = rx" "w' = w"
      using assms(1) by simp_all
    with keep show ?thesis by (metis quiet_refl sum.distinct(1))
  next
    case True
    then have run: "rx_rearm P L rx w = (case rv1 of Inl e \<Rightarrow> (Inl e, rx, w1)
        | Inr _ \<Rightarrow> (Inr (), rx\<lparr>rx_cooling_down := False\<rparr>, w1))"
      by (simp add: rx_rearm_def a split: sum.split)
    show ?thesis
    proof (cases rv1)
      case (Inl e)
      then have "rv = Inl e" "rx' = rx" "w' = w1"
        using assms(1) run by simp_all
      with q Inl keep show ?thesis by blast
    next
      case (Inr u)
      then have "rv = Inr ()" "rx' = rx\<lparr>rx_cooling_down := False\<rparr>" "w' = w1"
        using assms(1) run by simp_all
      with q show ?thesis by blast
    qed
  qed
qed

lemma idle_after_kick:
  assumes "kick_write P L rx w = (rv, rx', w')" and "rx_inv L rx" and "rx_input_queue rx = []"
    and "rx_write_in_progress rx \<longrightarrow> rx_output_queue rx \<noteq> []"
  shows "(\<forall>e. rv = Inl e \<longrightarrow> ring_failure e) \<and>
    (\<forall>u. rv = Inr u \<longrightarrow> rx_idle L rx' \<and> payloads L rx' = payloads L rx \<and> undecoded L rx' = undecoded L rx \<and>
       rx_output_queue rx' = rx_output_queue rx \<and> gives L (rx, w) (rx', w'))"
proof -
  note c = kick_write_cases [OF assms(1) rx_inv_valid [OF assms(2)] assms(4)]
  obtain b where "rx' = rx\<lparr>rx_write_in_progress := b\<rparr>"
    using c by blast
  then have k: "quiet w w'" "rx' = rx\<lparr>rx_write_in_progress := b\<rparr>" "\<forall>e. rv = Inl e \<longrightarrow> ring_failure e"
      "\<forall>u. rv = Inr u \<longrightarrow> (b \<longleftrightarrow> rx_output_queue rx \<noteq> [])"
    using c by simp_all
  have "gives L (rx, w) (rx', w')"
    by (rule quiet_gives [OF k(1)]) (simp_all add: k(2))
  then show ?thesis
    using k assms(2,3) by (auto simp: rx_idle_def)
qed

text \<open>Taking the written frame off the queue, with its buffers released.\<close>

definition pop_frame :: "output_frame list \<Rightarrow> s32 list \<Rightarrow> u64 \<Rightarrow> receiver \<Rightarrow> receiver" where
  "pop_frame fs rc used rx = rx\<lparr>rx_write_in_progress := False, rx_refcounts := rc, rx_used_buffers := used,
     rx_output_queue := fs\<rparr>"

lemma pop_frame_stream:
  assumes "stream_ok L rx" and "rx_output_queue rx = f # fs"
  shows "stream_ok L (pop_frame fs rc used rx)" and "undecoded L (pop_frame fs rc used rx) = undecoded L rx"
    and "payloads L (pop_frame fs rc used rx) = map (frame_payload (rx_group L rx)) fs"
    and "rx_group L (pop_frame fs rc used rx) = rx_group L rx"
  using assms
  by (simp_all add: pop_frame_def stream_ok_def state_ok_def rx_is_valid_def rx_group_def undecoded_def
      buffered_def pending_def payloads_def cong: parse_state.case_cong)

lemma handle_write_released:
  assumes inv: "rx_inv L rx" and idle: "rx_input_queue rx = []" and out: "rx_output_queue rx = f # fs"
  shows "\<exists>rc used w1. release_bids P L (of_bids f) (rx\<lparr>rx_write_in_progress := False\<rparr>) w =
      (Inr (), rx\<lparr>rx_write_in_progress := False, rx_refcounts := rc, rx_used_buffers := used\<rparr>, w1) \<and>
    rx_inv L (pop_frame fs rc used rx) \<and> gives L (rx, w) (pop_frame fs rc used rx, w1)"
proof -
  let ?g = "rx_group L rx" and ?rx = "rx\<lparr>rx_write_in_progress := False\<rparr>"
  define kept where "kept = of_bids (rx_frame rx) @ concat (map of_bids fs)"
  have ok: "stream_ok L rx" and ro: "refs_ok L rx"
    using inv by (simp_all add: rx_inv_def)
  have refs: "refs rx b = count_list (of_bids f) b + count_list kept b" for b
    by (simp add: refs_def frame_bids_def out kept_def)
  have "\<forall>b \<in> set (of_bids f). b < bg_buffer_count ?g"
    using frame_bids_bound [OF ok] by (simp add: frame_bids_def out)
  then obtain rc cs w1 where rel: "release_bids P L (of_bids f) ?rx w = (Inr (),
        ?rx\<lparr>rx_refcounts := rc, rx_used_buffers := rx_used_buffers ?rx -
          of_nat (card {b \<in> set (of_bids f). count_list kept b = 0})\<rparr>, w1)"
      "length rc = length (rx_refcounts rx)"
      "\<forall>b < bg_buffer_count ?g. rc ! unat b = of_nat (count_list kept b)"
      "recv_multishot_cache w1 = recv_multishot_cache w" "trace w1 = trace w @ cs"
      "distinct (returned_bids (get_bgid ?g) cs)"
      "set (returned_bids (get_bgid ?g) cs) = {b \<in> set (of_bids f). count_list kept b = 0}"
    using release_bids_Inr [of L ?rx "of_bids f" "count_list kept" P w] ok ro
    by (auto simp: stream_ok_def refs_ok_def refs)
  define used where "used = rx_used_buffers rx - of_nat (card {b \<in> set (of_bids f). count_list kept b = 0})"
  let ?pop = "pop_frame fs rc used rx"
  have bids: "frame_bids ?pop = kept" "refs ?pop = count_list kept" "queued ?pop = []" "queued rx = []"
    by (auto simp: pop_frame_def frame_bids_def kept_def refs_def queued_def idle fun_eq_iff)
  have h: "held rx = set (of_bids f) \<union> set kept" "held ?pop = set kept"
    using bids by (auto simp: held_def frame_bids_def out kept_def)
  then have freed: "{b \<in> set (of_bids f). count_list kept b = 0} = held rx - held ?pop"
    by (auto simp: count_list_0_iff)
  have "used = rx_used_buffers rx - of_nat (card (held rx - held ?pop))"
    unfolding freed [symmetric] by (rule used_def)
  also have "rx_used_buffers rx = of_nat (card (held rx))"
    using ro by (simp add: refs_ok_def)
  also have "of_nat (card (held rx)) - of_nat (card (held rx - held ?pop)) =
      (of_nat (card (held rx) - card (held rx - held ?pop)) :: u64)"
    by (rule of_nat_diff [symmetric]) (rule card_mono, auto)
  also have "card (held rx) - card (held rx - held ?pop) = card (held ?pop)"
    using h by (subst card_Diff_subset) (auto simp: card_mono)
  finally have used: "used = of_nat (card (held ?pop))" .
  have "refs_ok L ?pop"
    unfolding refs_ok_def pop_frame_stream(4) [OF ok out] bids(2,3)
  proof (intro conjI)
    show "\<forall>bid. count_list kept bid < 2 ^ 31"
    proof
      fix bid
      have "refs rx bid < 2 ^ 31"
        using ro unfolding refs_ok_def by blast
      then show "count_list kept bid < 2 ^ 31"
        unfolding refs by linarith
    qed
  qed (use ro rel(2,3) used in \<open>simp_all add: refs_ok_def pop_frame_def idle\<close>)
  moreover have "gives L (rx, w) (?pop, w1)"
    unfolding gives_def
    by (intro conjI exI [of _ cs]) (use rel(4-7) freed h in \<open>auto simp: pop_frame_def\<close>)
  ultimately show ?thesis
    using rel(1) pop_frame_stream(1) [OF ok out]
    by (intro exI [of _ rc] exI [of _ used] exI [of _ w1]) (simp add: rx_inv_def used_def)
qed

text \<open>
  The outcome of a handler: it fails with an error that \<open>bad\<close> allows, or it leaves the receiver
  idle, with the output queue, the payloads and the undecoded bytes related to those before.
\<close>

lemma handle_write_inv:
  assumes idle: "rx_idle L rx" and out: "rx_output_queue rx = f # fs" and ready: "cache_ready P w"
    and type: "cqe_type c = WRITE" and full: "sint (cqe_result c) = int (frame_size f)"
    and r: "handle_write_cqe P L c rx w = (rv, rx', w')"
  shows "(\<forall>e. rv = Inl e \<longrightarrow> ring_failure e) \<and>
    (\<forall>u. rv = Inr u \<longrightarrow> rx_idle L rx' \<and> payloads L rx' = tl (payloads L rx) \<and> rx_output_queue rx' = fs \<and>
       undecoded L rx' = undecoded L rx \<and> gives L (rx, w) (rx', w'))"
proof -
  have inv: "rx_inv L rx" and q: "rx_input_queue rx = []"
    using idle by (simp_all add: rx_idle_def)
  have ok: "stream_ok L rx"
    using inv by (simp add: rx_inv_def)
  obtain rc used w1 where rel: "release_bids P L (of_bids f) (rx\<lparr>rx_write_in_progress := False\<rparr>) w =
        (Inr (), rx\<lparr>rx_write_in_progress := False, rx_refcounts := rc, rx_used_buffers := used\<rparr>, w1)"
      "rx_inv L (pop_frame fs rc used rx)" "gives L (rx, w) (pop_frame fs rc used rx, w1)"
    using handle_write_released [OF inv q out] by blast
  let ?pop = "pop_frame fs rc used rx"
  obtain rv2 rx2 w2 where rearm: "rx_rearm P L ?pop w1 = (rv2, rx2, w2)"
    by (cases "rx_rearm P L ?pop w1")
  obtain rv3 rx3 w3 where kick: "kick_write P L rx2 w2 = (rv3, rx3, w3)"
    by (cases "kick_write P L rx2 w2")
  have run: "(rv, rx', w') = (case rv2 of Inl e \<Rightarrow> (Inl e, rx2, w2) | Inr _ \<Rightarrow> (rv3, rx3, w3))"
    using r rel(1) rearm kick rx_inv_valid [OF inv] type full out
    by (cases rv2) (auto simp: handle_write_cqe_def Let_def cqe_ok_def size_of_s32_int pop_frame_def)
  have "cache_ready P w1"
    using rel(3) ready by (simp add: gives_def cache_ready_def)
  from rx_rearm_cases [OF rearm this rx_inv_valid [OF rel(2)]]
  obtain cool where q2: "quiet w1 w2" "rx2 = ?pop\<lparr>rx_cooling_down := cool\<rparr>" "\<forall>e. rv2 = Inl e \<longrightarrow> ring_failure e"
    by blast
  have pop: "payloads L ?pop = tl (payloads L rx)" "undecoded L ?pop = undecoded L rx"
    using pop_frame_stream [OF ok out] by (simp_all add: payloads_def out)
  have rx2: "rx_inv L rx2" "rx_input_queue rx2 = []" "rx_write_in_progress rx2 \<longrightarrow> rx_output_queue rx2 \<noteq> []"
      and fs: "rx_output_queue rx2 = fs"
    using rel(2) q by (simp_all add: q2(2), simp_all add: pop_frame_def)
  note k = idle_after_kick [OF kick rx2]
  have "gives L (?pop, w1) (rx2, w2)"
    by (rule quiet_gives [OF q2(1)]) (simp_all add: q2(2))
  then have "gives L (rx, w) (rx2, w2)"
    by (rule gives_trans [OF rel(3)])
  with k q2 pop run fs show ?thesis
    by (cases rv2) (auto intro: gives_trans)
qed

section \<open>Received bytes\<close>

text \<open>The kernel writes received bytes to the front of a buffer of the receiver's group.\<close>

definition kernel_fill :: "receiver \<Rightarrow> u16 \<Rightarrow> u8 list \<Rightarrow> links \<Rightarrow> links" where
  "kernel_fill rx bid bs L = fill_links (the (rx_bg rx)) bid bs L"

lemma kernel_fill_simps [simp]:
  "lk_tun (kernel_fill rx bid bs L) = lk_tun L" "lk_socket (kernel_fill rx bid bs L) = lk_socket L"
  by (simp_all add: kernel_fill_def)

definition linked :: "links \<Rightarrow> receiver \<Rightarrow> bool" where
  "linked L rx \<longleftrightarrow> the (rx_bg rx) < length (buffer_groups (lk_ring L))"

lemma rx_group_fill: "linked L rx \<Longrightarrow> rx_group (kernel_fill rx bid bs L) rx = fill_buffer bid bs (rx_group L rx)"
  by (simp add: rx_group_def kernel_fill_def linked_def group_at_fill)

lemma seg_bytes_fill:
  assumes "wf_group g" and "bid < bg_buffer_count g" and "length bs \<le> unat (bg_buffer_size g)"
    and "seg_ok g b s" and "b \<noteq> bid"
  shows "seg_bytes (fill_buffer bid bs g) s = seg_bytes g s"
proof -
  obtain off where off: "iov_base s = Buffer_mem off" "buffer_offset g b \<le> off"
      "off + iov_len s \<le> buffer_offset g b + unat (bg_buffer_size g)"
    using assms(4) by (auto simp: seg_ok_def split: mem_ptr.splits)
  then show ?thesis
    using span_bytes_fill_other [OF assms(1-3,5), of "off - buffer_offset g b" "iov_len s"]
    by (simp add: seg_bytes_def)
qed

lemma frame_payload_fill:
  assumes "wf_group g" and "bid < bg_buffer_count g" and "length bs \<le> unat (bg_buffer_size g)"
    and "frame_ok g f" and "bid \<notin> set (of_bids f)"
  shows "frame_payload (fill_buffer bid bs g) f = frame_payload g f"
proof -
  have "map (seg_bytes (fill_buffer bid bs g)) ss = map (seg_bytes g) ss"
    if "list_all2 (seg_ok g) bids ss" "bid \<notin> set bids" for bids ss
    using that by induction (auto intro: seg_bytes_fill [OF assms(1-3)])
  from this [of "of_bids f" "of_segments f"] assms(4,5) show ?thesis
    by (simp add: frame_payload_def frame_ok_def del: map_eq_conv)
qed

lemma seg_ok_fill [simp]: "seg_ok (fill_buffer bid bs g) = seg_ok g"
  by (simp add: fun_eq_iff seg_ok_def split: mem_ptr.split)

lemma frame_ok_fill [simp]: "frame_ok (fill_buffer bid bs g) = frame_ok g"
  by (simp add: fun_eq_iff frame_ok_def)

text \<open>
  The receiver with a filled buffer at the end of its queue, as \<open>handle_recv_cqe_\<close> makes it: if the
  buffer was free and the queue empty, the bytes are what is undecoded after what was before.
\<close>

definition push_input :: "u16 \<Rightarrow> nat \<Rightarrow> receiver \<Rightarrow> receiver" where
  "push_input bid n rx = rx\<lparr>rx_used_buffers := rx_used_buffers rx + 1,
     rx_input_queue := rx_input_queue rx @ [\<lparr>ib_bid = bid, ib_size = n, ib_offset = 0\<rparr>]\<rparr>"

lemma push_input_inv:
  assumes inv: "rx_inv L rx" and q: "rx_input_queue rx = []" and link: "linked L rx"
    and free: "bid \<notin> held rx" "bid < bg_buffer_count (rx_group L rx)"
    and size: "0 < length bs" "length bs \<le> unat (bg_buffer_size (rx_group L rx))" "length bs < 2 ^ 31"
  defines "L' \<equiv> kernel_fill rx bid bs L"
  shows "rx_inv L' (push_input bid (length bs) rx)" and "unread (push_input bid (length bs) rx)"
    and "payloads L' (push_input bid (length bs) rx) = payloads L rx"
    and "undecoded L' (push_input bid (length bs) rx) = undecoded L rx @ bs"
    and "held (push_input bid (length bs) rx) = insert bid (held rx)"
    and "rx_group L' (push_input bid (length bs) rx) = fill_buffer bid bs (rx_group L rx)"
proof -
  let ?g = "rx_group L rx" and ?rx = "push_input bid (length bs) rx"
  have ok: "stream_ok L rx" and ro: "refs_ok L rx"
    using inv by (simp_all add: rx_inv_def)
  have g: "wf_group ?g"
    using ok by (simp add: stream_ok_def)
  have free': "bid \<notin> set (of_bids (rx_frame rx))" "\<forall>f \<in> set (rx_output_queue rx). bid \<notin> set (of_bids f)"
    using free(1) by (auto simp: held_def frame_bids_def)
  show g': "rx_group L' ?rx = fill_buffer bid bs ?g"
    using rx_group_fill [OF link, of bid bs] by (simp add: L'_def push_input_def rx_group_def)
  note fill = frame_payload_fill [OF g free(2) size(2)]
  have cur: "frame_payload (fill_buffer bid bs ?g) (rx_frame rx) = frame_payload ?g (rx_frame rx)"
    using fill ok free'(1) by (simp add: stream_ok_def)
  have "rx_frame ?rx = rx_frame rx" "rx_output_queue ?rx = rx_output_queue rx" "refs ?rx = refs rx"
      "frame_bids ?rx = frame_bids rx"
    by (simp_all add: push_input_def refs_def frame_bids_def fun_eq_iff)
  note same = this
  show "unread ?rx"
    using size(1) q by (simp add: unread_def push_input_def)
  show h: "held ?rx = insert bid (held rx)"
    by (auto simp: held_def queued_def push_input_def frame_bids_def)
  show "payloads L' ?rx = payloads L rx"
    using fill ok free'(2) by (simp add: payloads_def g' same stream_ok_def)
  have "ib_bytes (fill_buffer bid bs ?g) \<lparr>ib_bid = bid, ib_size = length bs, ib_offset = 0\<rparr> = bs"
    using span_bytes_fill_same [OF g free(2) size(2)] by (simp add: ib_bytes_def)
  then have "pending L' ?rx = bs" "pending L rx = []"
    unfolding pending_def g' by (simp_all add: push_input_def q)
  moreover have "buffered L' ?rx = buffered L rx"
    unfolding buffered_def g' same cur by (simp add: push_input_def cong: parse_state.case_cong)
  ultimately show "undecoded L' ?rx = undecoded L rx @ bs"
    by (simp add: undecoded_def)
  have "stream_ok L' ?rx"
    using ok free(2) size(2) wf_fill_buffer [OF g free(2) size(2)]
    unfolding stream_ok_def g'
    by (simp add: state_ok_def push_input_def rx_is_valid_def ib_ok_def L'_def q cong: parse_state.case_cong)
  moreover have "refs rx bid = 0"
    using free(1) by (simp add: refs_pos held_def)
  then have "refs_ok L' ?rx"
    using ro free(1) size(3) unfolding refs_ok_def g' same h
    by (simp add: queued_def push_input_def q add.commute)
  ultimately show "rx_inv L' ?rx"
    by (simp add: rx_inv_def)
qed

lemma idle_undecoded:
  "rx_idle L rx \<Longrightarrow> decode_stream (get_mtu (lk_tun L)) (undecoded L rx) = ([], undecoded L rx, None)"
  using buffered_incomplete [of L rx] by (simp add: rx_idle_def rx_inv_def undecoded_def pending_def)

text \<open>Parsing the pushed buffer, up to the end of the loop.\<close>

lemma kick_parse_pushed:
  assumes "rx_inv L rx" and "unread rx" and "wf_cpu (processor P)" and "kick_parse P L rx w = (rv, rx', w')"
  shows "(\<forall>e. rv = Inl e \<longrightarrow> rejects L rx e) \<and>
    (\<forall>u. rv = Inr u \<longrightarrow> rx_inv L rx' \<and> rx_input_queue rx' = [] \<and> gives L (rx, w) (rx', w') \<and>
       same_control rx rx' \<and> decodes L rx rx')"
proof -
  have "parse_loop P L rx w = (rv, rx', w')"
    using assms(4) rx_inv_valid [OF assms(1)] by (simp add: kick_parse_def)
  with parse_loop_inv [OF assms(1-3), of w] show ?thesis
    by (auto simp: step_result_def split: sum.splits)
qed

lemma handle_recv_inv:
  assumes idle: "rx_idle L rx" and link: "linked L rx" and ready: "cache_ready P w" and cpu: "wf_cpu (processor P)"
    and free: "bid \<notin> held rx" "bid < bg_buffer_count (rx_group L rx)"
    and size: "0 < length bs" "length bs \<le> unat (bg_buffer_size (rx_group L rx))" "length bs < 2 ^ 31"
    and cqe: "cqe_type c = RECV" "cqe_bid c = Some bid" "cqe_result c = of_nat (length bs)"
    and r: "handle_recv_cqe P (kernel_fill rx bid bs L) c rx w = (rv, rx', w')"
  defines "L' \<equiv> kernel_fill rx bid bs L"
  shows "(\<forall>e. rv = Inl e \<longrightarrow> ring_failure e \<or> err_code e = NotEnoughMemory \<or>
      decode_error (get_mtu (lk_tun L)) (undecoded L rx @ bs) = Some (err_code e)) \<and>
    (\<forall>u. rv = Inr u \<longrightarrow> rx_idle L' rx' \<and>
      (\<exists>new. payloads L' rx' = payloads L rx @ new \<and>
         decode_stream (get_mtu (lk_tun L)) (undecoded L rx @ bs) = (new, undecoded L' rx', None)) \<and>
      gives L' (push_input bid (length bs) rx, w) (rx', w'))"
proof -
  have inv: "rx_inv L rx" and q: "rx_input_queue rx = []"
    using idle by (simp_all add: rx_idle_def)
  note push = push_input_inv [OF inv q link free size, folded L'_def]
  let ?rx = "push_input bid (length bs) rx" and ?mtu = "get_mtu (lk_tun L)"
  have mtu: "get_mtu (lk_tun L') = ?mtu"
    by (simp add: L'_def)
  have sint: "sint (cqe_result c) = int (length bs)" and unat: "unat (cqe_result c) = length bs"
    using size(3) by (simp_all add: cqe(3) sint_of_nat32 unat_of_nat_eq)
  obtain ok w1 where a: "alloc P w = (ok, w1)"
    by (cases "alloc P w")
  have w1: "quiet w w1"
    unfolding alloc_world [OF a] by (intro quiet_log_call) auto
  obtain rv2 rx2 w2 where parse: "kick_parse P L' ?rx w1 = (rv2, rx2, w2)"
    by (cases "kick_parse P L' ?rx w1")
  obtain rv3 w3 where arm: "arm_recv P L' rx2 w2 = (rv3, w3)"
    by (cases "arm_recv P L' rx2 w2")
  let ?arms = "\<not> cqe_more c \<and> \<not> rx_cooling_down rx2"
  define w4 where "w4 = (if ?arms then w3 else w2)"
  obtain rv5 rx5 w5 where kick: "kick_write P L' rx2 w4 = (rv5, rx5, w5)"
    by (cases "kick_write P L' rx2 w4")
  have n0: "cqe_result c \<noteq> 0"
    using unat size(1) by auto
  have run: "handle_recv_cqe P L' c rx w = (if \<not> ok then (Inl (Error NotEnoughMemory), rx\<lparr>rx_used_buffers := rx_used_buffers rx + 1\<rparr>, w1)
      else case rv2 of Inl e \<Rightarrow> (Inl e, rx2, w2)
        | Inr _ \<Rightarrow> if ?arms \<and> (\<exists>e. rv3 = Inl e) then (Inl (projl rv3), rx2, w3) else (rv5, rx5, w5))"
    using rx_inv_valid [OF inv] cqe(1,2) n0 unat sint a parse arm kick
    by (auto simp: handle_recv_cqe_def Let_def cqe_ok_def push_input_def w4_def split: sum.split)
  note p = kick_parse_pushed [OF push(1,2) cpu parse]
  have rej: "rejects L' ?rx e \<longleftrightarrow> err_code e = NotEnoughMemory \<or> decode_error ?mtu (undecoded L rx @ bs) = Some (err_code e)" for e
    by (simp add: rejects_def mtu push(4))
  consider (mem) "rv = Inl (Error NotEnoughMemory)" | (bad) e where "rv = Inl e" "rv2 = Inl e"
    | (good) u where "rv2 = Inr u"
        "(rv, rx', w') = (if ?arms \<and> (\<exists>e. rv3 = Inl e) then (Inl (projl rv3), rx2, w3) else (rv5, rx5, w5))"
    using r [folded L'_def, unfolded run] by (cases ok; cases rv2) auto
  then show ?thesis
  proof cases
    case mem
    then show ?thesis by simp
  next
    case bad
    then show ?thesis
      using p rej by simp
  next
    case good
    then have g: "rx_inv L' rx2" "rx_input_queue rx2 = []" "gives L' (?rx, w1) (rx2, w2)" "same_control ?rx rx2"
        "decodes L' ?rx rx2"
      using p by blast+
    have "cache_ready P w2"
      using ready quiet_cache_ready [OF w1] g(3) by (simp add: gives_def cache_ready_def)
    note arm' = arm_recv_quiet [OF arm this rx_inv_valid [OF g(1)]]
    have "gives L' (?rx, w) (?rx, w1)"
      by (rule quiet_gives [OF w1]) simp_all
    then have g2: "gives L' (?rx, w) (rx2, w2)"
      using g(3) by (rule gives_trans)
    have "gives L' (rx2, w2) (rx2, w4)"
      unfolding w4_def using arm' by (intro quiet_gives) simp_all
    with g2 have g4: "gives L' (?rx, w) (rx2, w4)"
      by (rule gives_trans)
    obtain new where new: "payloads L' rx2 = payloads L rx @ new"
        "decode_stream ?mtu (undecoded L rx @ bs) =
          (new @ decoded ?mtu (undecoded L' rx2), decode_rest ?mtu (undecoded L' rx2), decode_error ?mtu (undecoded L' rx2))"
      using g(5) by (auto simp: decodes_def mtu push(3,4))
    have "rx_write_in_progress rx2 \<longrightarrow> payloads L' rx2 \<noteq> []"
      using g(4) idle new(1) by (simp add: same_control_def rx_idle_def push_input_def payloads_def)
    then have wip: "rx_write_in_progress rx2 \<longrightarrow> rx_output_queue rx2 \<noteq> []"
      by (simp add: payloads_def)
    note k = idle_after_kick [OF kick g(1,2) wip]
    show ?thesis
    proof (cases "?arms \<and> (\<exists>e. rv3 = Inl e)")
      case True
      then show ?thesis
        using good(2) arm' by auto
    next
      case False
      then have res: "rv = rv5" "rx' = rx5" "w' = w5"
        using good(2) by (simp_all only: if_False prod.inject)
      show ?thesis
      proof (cases rv5)
        case (Inl e)
        then show ?thesis using k res by auto
      next
        case (Inr u5)
        then have k5: "rx_idle L' rx5" "payloads L' rx5 = payloads L' rx2" "undecoded L' rx5 = undecoded L' rx2"
            "gives L' (rx2, w4) (rx5, w5)"
          using k by auto
        have "decode_stream ?mtu (undecoded L rx @ bs) = (new, undecoded L' rx5, None)"
          using new(2) idle_undecoded [OF k5(1)] k5(3) by (simp add: mtu decoded_def decode_rest_def decode_error_def)
        then show ?thesis
          using Inr res k5 new(1) gives_trans [OF g4 k5(4)] by auto
      qed
    qed
  qed
qed

text \<open>The kernel has no buffer left: the receiver notes it and writes on.\<close>

lemma handle_enobufs_inv:
  assumes idle: "rx_idle L rx" and cqe: "cqe_type c = RECV" "sint (cqe_result c) < 0" "sint (cqe_error c) = ENOBUFS"
      "\<not> cqe_more c"
    and r: "handle_recv_cqe P L c rx w = (rv, rx', w')"
  shows "(\<forall>e. rv = Inl e \<longrightarrow> ring_failure e) \<and>
    (\<forall>u. rv = Inr u \<longrightarrow> rx_idle L rx' \<and> payloads L rx' = payloads L rx \<and> undecoded L rx' = undecoded L rx \<and>
       rx_cooling_down rx' \<and> gives L (rx, w) (rx', w'))"
proof -
  let ?rx = "rx\<lparr>rx_cooling_down := True\<rparr>"
  have valid: "rx_is_valid rx"
    using idle rx_inv_valid by (auto simp: rx_idle_def)
  then have kick: "kick_write P L ?rx w = (rv, rx', w')"
    using r cqe by (simp add: handle_recv_cqe_def cqe_ok_def)
  have "gives L (rx, w) (?rx, w)"
    by (rule quiet_gives) simp_all
  moreover have "\<exists>b. rx' = ?rx\<lparr>rx_write_in_progress := b\<rparr>"
    using kick_write_cases [OF kick] valid idle by (simp add: rx_idle_def)
  then have "rx_cooling_down rx'"
    by auto
  ultimately show ?thesis
    using idle_after_kick [OF kick] idle by (auto simp: rx_idle_def intro: gives_trans)
qed

end
