(* ===== verification/Receiver_System.thy ===== *)
theory Receiver_System
  imports Receiver_Handlers
begin

text \<open>
  The receiver with the kernel, the socket and the TUN device around it, as a state machine: the
  kernel owns the buffers that it was given, fills one with the next bytes of the stream, and
  writes the frames it is handed. Every interleaving of the two kinds of completions is a run.
\<close>

record rx_system =
  sy_rx :: receiver
  sy_links :: links
  sy_world :: world
  sy_free :: "u16 set"
  sy_received :: "u8 list"
  sy_written :: "u8 list list"

definition sy_group :: "rx_system \<Rightarrow> buffer_group" where
  "sy_group s = rx_group (sy_links s) (sy_rx s)"

definition sy_mtu :: "rx_system \<Rightarrow> u32" where
  "sy_mtu s = get_mtu (lk_tun (sy_links s))"

text \<open>The buffers given back between two moments, through the ring of the receiver's group.\<close>

definition given_back :: "rx_system \<Rightarrow> world \<Rightarrow> u16 set" where
  "given_back s w' = set (returned_bids (get_bgid (sy_group s)) (calls_since (sy_world s) w'))"

text \<open>
  The start: a receiver has been created on a well-formed ring, the kernel owns the buffers that
  the creation gave it, and the first receive has been armed.
\<close>

definition rx_start :: "platform \<Rightarrow> rx_system \<Rightarrow> bool" where
  "rx_start P s \<longleftrightarrow> (\<exists>ring tun sock len sz r w r' w1.
     wf_ring r \<and> create_receiver P ring tun sock len sz r w = (Inr (sy_rx s), r', w1) \<and>
     lk_ring (sy_links s) = r' \<and> arm_recv P (sy_links s) (sy_rx s) w1 = (Inr (), sy_world s) \<and>
     sy_free s = set (returned_bids (get_bgid (sy_group s)) (calls_since w w1)) \<and>
     sy_received s = [] \<and> sy_written s = [])"

inductive rx_step :: "platform \<Rightarrow> rx_system \<Rightarrow> rx_system \<Rightarrow> bool" for P where
  Received: "\<lbrakk>bid \<in> sy_free s; 0 < length bs; length bs \<le> unat (bg_buffer_size (sy_group s)); length bs < 2 ^ 31;
      L' = kernel_fill (sy_rx s) bid bs (sy_links s);
      rx_handle_cqe P L' (mk_cqe RECV (of_nat (length bs)) (Some bid) m) (sy_rx s) (sy_world s) = (Inr u, rx', w')\<rbrakk> \<Longrightarrow>
    rx_step P s (s\<lparr>sy_rx := rx', sy_links := L', sy_world := w', sy_free := (sy_free s - {bid}) \<union> given_back s w',
      sy_received := sy_received s @ bs\<rparr>)"
| No_buffers: "\<lbrakk>rx_handle_cqe P (sy_links s) (mk_cqe RECV (- of_int ENOBUFS) None False) (sy_rx s) (sy_world s) = (Inr u, rx', w')\<rbrakk> \<Longrightarrow>
    rx_step P s (s\<lparr>sy_rx := rx', sy_world := w', sy_free := sy_free s \<union> given_back s w'\<rparr>)"
| Written: "\<lbrakk>rx_write_in_progress (sy_rx s); rx_output_queue (sy_rx s) = f # fs; sint r = int (frame_size f);
      rx_handle_cqe P (sy_links s) (mk_cqe WRITE r None m) (sy_rx s) (sy_world s) = (Inr u, rx', w')\<rbrakk> \<Longrightarrow>
    rx_step P s (s\<lparr>sy_rx := rx', sy_world := w', sy_free := sy_free s \<union> given_back s w',
      sy_written := sy_written s @ [frame_payload (sy_group s) f]\<rparr>)"

inductive rx_reachable :: "platform \<Rightarrow> rx_system \<Rightarrow> bool" for P where
  Start: "rx_start P s \<Longrightarrow> rx_reachable P s"
| Step: "rx_reachable P s \<Longrightarrow> rx_step P s s' \<Longrightarrow> rx_reachable P s'"

section \<open>The invariant\<close>

definition sys_inv :: "platform \<Rightarrow> rx_system \<Rightarrow> bool" where
  "sys_inv P s \<longleftrightarrow> rx_idle (sy_links s) (sy_rx s) \<and> linked (sy_links s) (sy_rx s) \<and> cache_ready P (sy_world s) \<and>
     sy_free s \<inter> held (sy_rx s) = {} \<and> sy_free s \<union> held (sy_rx s) = {b. b < bg_buffer_count (sy_group s)} \<and>
     decode_stream (sy_mtu s) (sy_received s) =
       (sy_written s @ payloads (sy_links s) (sy_rx s), undecoded (sy_links s) (sy_rx s), None)"

lemma given_back_gives:
  assumes "gives L (rx, sy_world s) (rx', w')" and "rx_group L rx = g" and "get_bgid g = get_bgid (sy_group s)"
  shows "given_back s w' = held rx - held rx'"
  using assms by (auto simp: gives_def given_back_def calls_since_def)

text \<open>Creation.\<close>

lemma arm_recv_caches:
  assumes "arm_recv P L rx w = (Inr u, w')"
  shows "cache_ready P w'"
  using assms recv_multishot_caches
  by (auto simp: arm_recv_def Let_def cache_ready_def log_call_def split: if_splits sum.splits prod.splits
      dest!: submit_cases)

lemma start_inv:
  assumes "rx_start P s"
  shows "sys_inv P s"
proof -
  obtain ring tun sock len sz r w r' w1 where s: "wf_ring r"
      "create_receiver P ring tun sock len sz r w = (Inr (sy_rx s), r', w1)"
      "lk_ring (sy_links s) = r'" "arm_recv P (sy_links s) (sy_rx s) w1 = (Inr (), sy_world s)"
      "sy_free s = set (returned_bids (get_bgid (sy_group s)) (calls_since w w1))"
      "sy_received s = []" "sy_written s = []"
    using assms unfolding rx_start_def by blast
  let ?w = "log_call Alloc w"
  obtain i where i: "create_buffer_group P len sz r ?w = (Inr i, r', w1)"
      "sy_rx s = (new_receiver P)\<lparr>rx_ring := Some ring, rx_tun := Some tun, rx_socket := Some sock,
         rx_refcounts := replicate (unat len) 0, rx_bg := Some i\<rparr>"
    using s(2) by (auto simp: create_receiver_def Let_def alloc_def call_def split: if_splits sum.splits prod.splits)
  obtain g cs where g: "made_group P r len sz g" "i = length (buffer_groups r)"
      "r' = r\<lparr>next_bgid := next_bgid r + 1, buffer_groups := buffer_groups r @ [g]\<rparr>"
      "trace w1 = trace ?w @ cs" "returned_bids (bg_bgid g) cs = bids_upto len"
    using create_buffer_group_Inr [OF i(1)] by blast
  have at: "sy_group s = g"
    by (simp add: sy_group_def rx_group_def group_at_def s(3) g(2,3) i(2))
  have count: "bg_buffer_count g = len" "wf_group g"
    using g(1) by (simp_all add: made_group_def)
  have free: "sy_free s = {b. b < len}"
    using s(5) g(4,5) by (simp add: at calls_since_def get_bgid_def set_bids_upto)
  have empty: "held (sy_rx s) = {}" "refs (sy_rx s) = (\<lambda>b. 0)"
    by (simp_all add: held_def queued_def frame_bids_def refs_def fun_eq_iff i(2) new_receiver_def)
  have "stream_ok (sy_links s) (sy_rx s)"
    unfolding stream_ok_def at [unfolded sy_group_def]
    using count(2) by (simp add: i(2) new_receiver_def rx_is_valid_def state_ok_def wf_new_header wire_size_def)
  moreover have "refs_ok (sy_links s) (sy_rx s)"
    unfolding refs_ok_def at [unfolded sy_group_def] empty
    by (simp add: i(2) new_receiver_def queued_def count word_less_nat_alt)
  ultimately have "rx_idle (sy_links s) (sy_rx s)"
    by (simp add: rx_idle_def rx_inv_def i(2) new_receiver_def)
  moreover have "undecoded (sy_links s) (sy_rx s) = []" "payloads (sy_links s) (sy_rx s) = []"
    by (simp_all add: undecoded_def buffered_def pending_def payloads_def i(2) new_receiver_def)
  moreover have "linked (sy_links s) (sy_rx s)"
    by (simp add: linked_def s(3) g(2,3) i(2))
  ultimately show ?thesis
    using arm_recv_caches [OF s(4)] free count(1) s(6,7)
    by (simp add: sys_inv_def empty at decode_short wire_size_def)
qed

text \<open>Every step keeps it.\<close>

lemma received_inv:
  assumes inv: "sys_inv P s" and cpu: "wf_cpu (processor P)"
    and bs: "bid \<in> sy_free s" "0 < length bs" "length bs \<le> unat (bg_buffer_size (sy_group s))" "length bs < 2 ^ 31"
    and r: "rx_handle_cqe P (kernel_fill (sy_rx s) bid bs (sy_links s)) (mk_cqe RECV (of_nat (length bs)) (Some bid) m)
      (sy_rx s) (sy_world s) = (rv, rx', w')"
  defines "s' \<equiv> s\<lparr>sy_rx := rx', sy_links := kernel_fill (sy_rx s) bid bs (sy_links s), sy_world := w',
      sy_free := (sy_free s - {bid}) \<union> given_back s w', sy_received := sy_received s @ bs\<rparr>"
  shows "(\<forall>e. rv = Inl e \<longrightarrow> ring_failure e \<or> err_code e = NotEnoughMemory \<or>
      decode_error (sy_mtu s) (sy_received s @ bs) = Some (err_code e)) \<and> (\<forall>u. rv = Inr u \<longrightarrow> sys_inv P s')"
proof -
  let ?L = "sy_links s" and ?rx = "sy_rx s"
  let ?L' = "kernel_fill ?rx bid bs ?L"
  have i: "rx_idle ?L ?rx" "linked ?L ?rx" "cache_ready P (sy_world s)" "sy_free s \<inter> held ?rx = {}"
      "sy_free s \<union> held ?rx = {b. b < bg_buffer_count (sy_group s)}"
      "decode_stream (sy_mtu s) (sy_received s) = (sy_written s @ payloads ?L ?rx, undecoded ?L ?rx, None)"
    using inv by (simp_all add: sys_inv_def)
  have free: "bid \<notin> held ?rx" "bid < bg_buffer_count (rx_group ?L ?rx)"
    using i(4,5) bs(1) by (auto simp: sy_group_def)
  have valid: "rx_is_valid ?rx"
    using i(1) rx_inv_valid by (auto simp: rx_idle_def)
  have r': "handle_recv_cqe P ?L' (mk_cqe RECV (of_nat (length bs)) (Some bid) m) ?rx (sy_world s) = (rv, rx', w')"
    using r valid by (simp add: rx_handle_cqe_def)
  note h = handle_recv_inv [OF i(1-3) cpu free bs(2) bs(3) [unfolded sy_group_def] bs(4) _ _ _ r']
  have dec: "decode_stream (sy_mtu s) (sy_received s @ bs) =
      (sy_written s @ payloads ?L ?rx @ decoded (sy_mtu s) (undecoded ?L ?rx @ bs),
       decode_rest (sy_mtu s) (undecoded ?L ?rx @ bs), decode_error (sy_mtu s) (undecoded ?L ?rx @ bs))"
    using decode_append [of "sy_mtu s" "sy_received s" bs] i(6)
    by (simp add: decoded_def decode_rest_def decode_error_def)
  show ?thesis
  proof (cases rv)
    case (Inl e)
    then show ?thesis
      using h dec by (auto simp: decode_error_def sy_mtu_def)
  next
    case (Inr u)
    then obtain new where n: "rx_idle ?L' rx'" "payloads ?L' rx' = payloads ?L ?rx @ new"
        "decode_stream (sy_mtu s) (undecoded ?L ?rx @ bs) = (new, undecoded ?L' rx', None)"
        "gives ?L' (push_input bid (length bs) ?rx, sy_world s) (rx', w')"
      using h by (auto simp: sy_mtu_def)
    have push: "held (push_input bid (length bs) ?rx) = insert bid (held ?rx)"
        "rx_group ?L' (push_input bid (length bs) ?rx) = fill_buffer bid bs (sy_group s)"
      using push_input_inv [OF _ _ i(2) free bs(2) bs(3) [unfolded sy_group_def] bs(4)] i(1)
      by (simp_all add: rx_idle_def sy_group_def)
    have bg: "rx_bg rx' = rx_bg ?rx"
      using n(4) by (simp add: gives_def push_input_def)
    have g': "sy_group s' = fill_buffer bid bs (sy_group s)"
      using rx_group_fill [OF i(2), of bid bs] bg by (simp add: s'_def sy_group_def rx_group_def)
    have given: "given_back s w' = insert bid (held ?rx) - held rx'"
      using given_back_gives [OF n(4) push(2)] push(1) by (simp add: get_bgid_def)
    have sub: "held rx' \<subseteq> insert bid (held ?rx)"
      using n(4) push(1) by (simp add: gives_def)
    have "sy_free s' \<inter> held rx' = {}" "sy_free s' \<union> held rx' = sy_free s \<union> held ?rx"
      using i(4) bs(1) sub by (auto simp: s'_def given)
    moreover have "decode_stream (sy_mtu s') (sy_received s') =
        (sy_written s' @ payloads ?L' rx', undecoded ?L' rx', None)"
      using dec n(2,3) by (simp add: s'_def sy_mtu_def decoded_def decode_rest_def decode_error_def)
    moreover have "linked ?L' rx'"
      using i(2) bg by (simp add: linked_def kernel_fill_def)
    moreover have "cache_ready P w'"
      using n(4) i(3) by (simp add: gives_def cache_ready_def)
    ultimately show ?thesis
      using Inr n(1) i(5) g' by (simp add: sys_inv_def) (simp add: s'_def)
  qed
qed

text \<open>The two steps that receive nothing: buffers may come back, and written frames leave the queue.\<close>

lemma quiet_step_inv:
  assumes inv: "sys_inv P s" and idle: "rx_idle (sy_links s) rx'"
    and gives: "gives (sy_links s) (sy_rx s, sy_world s) (rx', w')"
    and un: "undecoded (sy_links s) rx' = undecoded (sy_links s) (sy_rx s)"
    and out: "sy_written s @ payloads (sy_links s) (sy_rx s) = written @ payloads (sy_links s) rx'"
  shows "sys_inv P (s\<lparr>sy_rx := rx', sy_world := w', sy_free := sy_free s \<union> given_back s w', sy_written := written\<rparr>)"
proof -
  have bg: "rx_bg rx' = rx_bg (sy_rx s)" and sub: "held rx' \<subseteq> held (sy_rx s)"
    using gives by (simp_all add: gives_def)
  have "given_back s w' = held (sy_rx s) - held rx'"
    by (rule given_back_gives [OF gives refl]) (simp add: sy_group_def)
  moreover have "cache_ready P w'"
    using inv gives by (simp add: sys_inv_def gives_def cache_ready_def)
  ultimately show ?thesis
    using inv sub idle un out
    by (auto simp: sys_inv_def sy_group_def sy_mtu_def rx_group_def linked_def bg)
qed

lemma sint_minus_enobufs: "sint (- of_int ENOBUFS :: s32) = - ENOBUFS" "sint (- (- of_int ENOBUFS) :: s32) = ENOBUFS"
  by (simp_all add: ENOBUFS_def)

lemma no_buffers_inv:
  assumes inv: "sys_inv P s"
    and r: "rx_handle_cqe P (sy_links s) (mk_cqe RECV (- of_int ENOBUFS) None False) (sy_rx s) (sy_world s) = (Inr u, rx', w')"
  shows "sys_inv P (s\<lparr>sy_rx := rx', sy_world := w', sy_free := sy_free s \<union> given_back s w'\<rparr>) \<and> rx_cooling_down rx'"
proof -
  let ?c = "mk_cqe RECV (- of_int ENOBUFS) None False"
  have idle: "rx_idle (sy_links s) (sy_rx s)"
    using inv by (simp add: sys_inv_def)
  have "rx_is_valid (sy_rx s)"
    using idle rx_inv_valid by (auto simp: rx_idle_def)
  then have r': "handle_recv_cqe P (sy_links s) ?c (sy_rx s) (sy_world s) = (Inr u, rx', w')"
    using r by (simp add: rx_handle_cqe_def)
  have c: "cqe_type ?c = RECV" "sint (cqe_result ?c) < 0" "sint (cqe_error ?c) = ENOBUFS" "\<not> cqe_more ?c"
    by (simp_all add: cqe_error_def sint_minus_enobufs ENOBUFS_def)
  have "sys_inv P (s\<lparr>sy_rx := rx', sy_world := w', sy_free := sy_free s \<union> given_back s w', sy_written := sy_written s\<rparr>)"
    using handle_enobufs_inv [OF idle c r'] by (intro quiet_step_inv [OF inv]) auto
  then show ?thesis
    using handle_enobufs_inv [OF idle c r'] by simp
qed

lemma written_inv:
  assumes inv: "sys_inv P s" and out: "rx_output_queue (sy_rx s) = f # fs" and full: "sint r = int (frame_size f)"
    and h: "rx_handle_cqe P (sy_links s) (mk_cqe WRITE r None m) (sy_rx s) (sy_world s) = (rv, rx', w')"
  shows "(\<forall>e. rv = Inl e \<longrightarrow> ring_failure e) \<and>
    (\<forall>u. rv = Inr u \<longrightarrow> rx_output_queue rx' = fs \<and>
       sys_inv P (s\<lparr>sy_rx := rx', sy_world := w', sy_free := sy_free s \<union> given_back s w',
         sy_written := sy_written s @ [frame_payload (sy_group s) f]\<rparr>))"
proof -
  have idle: "rx_idle (sy_links s) (sy_rx s)" and ready: "cache_ready P (sy_world s)"
    using inv by (simp_all add: sys_inv_def)
  have "rx_is_valid (sy_rx s)"
    using idle rx_inv_valid by (auto simp: rx_idle_def)
  then have h': "handle_write_cqe P (sy_links s) (mk_cqe WRITE r None m) (sy_rx s) (sy_world s) = (rv, rx', w')"
    using h by (simp add: rx_handle_cqe_def)
  have "payloads (sy_links s) (sy_rx s) = frame_payload (sy_group s) f # tl (payloads (sy_links s) (sy_rx s))"
    by (simp add: payloads_def out sy_group_def)
  then show ?thesis
    using handle_write_inv [OF idle out ready _ _ h'] full
    by (auto intro!: quiet_step_inv [OF inv])
qed

lemma reachable_inv:
  assumes "rx_reachable P s" and "wf_cpu (processor P)"
  shows "sys_inv P s"
  using assms
proof (induction rule: rx_reachable.induct)
  case (Start s)
  then show ?case by (simp add: start_inv)
next
  case (Step s s')
  then have inv: "sys_inv P s"
    by simp
  from Step.hyps(2) show ?case
  proof (cases rule: rx_step.cases)
    case (Received bid bs L' m u rx' w')
    then show ?thesis
      using received_inv [OF inv Step.prems, of bid bs m "Inr u" rx' w'] by simp
  next
    case (No_buffers u rx' w')
    then show ?thesis
      using no_buffers_inv [OF inv, of u rx' w'] by simp
  next
    case (Written f fs r m u rx' w')
    then show ?thesis
      using written_inv [OF inv, of f fs r m "Inr u" rx' w'] by simp
  qed
qed

section \<open>An example run\<close>

text \<open>Two buffers of 32 bytes, and a first completion that brings the frame of a one-byte packet.\<close>

definition example_tun :: tun_device where
  "example_tun = \<lparr>tun_fd = fd_new 7, tun_nl = make_socket 6 AF_UNSPEC, tun_index = 1, tun_name = ''tun0'', tun_mtu = 1400\<rparr>"

definition example_sock :: socket where
  "example_sock = make_socket 8 AF_INET"

text \<open>The feature check of the kernel has been made before the receiver is created.\<close>

definition example_world :: world where
  "example_world = initial_world\<lparr>recv_multishot_cache := Some True\<rparr>"

definition example_created :: "receiver result \<times> io_uring \<times> world" where
  "example_created = create_receiver friendly 4 5 6 2 32 example_ring example_world"

definition example_links :: links where
  "example_links = \<lparr>lk_ring = fst (snd example_created), lk_tun = example_tun, lk_socket = example_sock\<rparr>"

definition example_armed :: "unit result \<times> world" where
  "example_armed = arm_recv friendly example_links (projr (fst example_created)) (snd (snd example_created))"

definition example_system :: rx_system where
  "example_system = \<lparr>sy_rx = projr (fst example_created), sy_links = example_links, sy_world = snd example_armed,
     sy_free = {0, 1}, sy_received = [], sy_written = []\<rparr>"

lemma example_start: "rx_start friendly example_system"
proof -
  have c: "\<not> isl (fst example_created)"
    by code_simp
  have a: "fst example_armed = Inr ()"
    by code_simp
  have free: "returned_bids (get_bgid (sy_group example_system))
      (calls_since example_world (snd (snd example_created))) = [0, 1]"
    by code_simp
  show ?thesis
    unfolding rx_start_def
  proof (intro exI conjI)
    show "create_receiver friendly 4 5 6 2 32 example_ring example_world =
        (Inr (sy_rx example_system), fst (snd example_created), snd (snd example_created))"
      unfolding example_created_def [symmetric] using c
      by (simp add: example_system_def)
    show "arm_recv friendly (sy_links example_system) (sy_rx example_system) (snd (snd example_created)) =
        (Inr (), sy_world example_system)"
      using a by (cases example_armed) (simp_all add: example_system_def example_armed_def)
    show "sy_free example_system = set (returned_bids (get_bgid (sy_group example_system))
        (calls_since example_world (snd (snd example_created))))"
      unfolding free by (simp add: example_system_def)
  qed (simp_all add: wf_ring_def example_ring_def example_system_def example_links_def)
qed

definition example_bytes :: "u8 list" where
  "example_bytes = encode_stream [[7]]"

definition example_handled :: "unit result \<times> receiver \<times> world" where
  "example_handled = rx_handle_cqe friendly (kernel_fill (sy_rx example_system) 0 example_bytes (sy_links example_system))
     (mk_cqe RECV (of_nat (length example_bytes)) (Some 0) True) (sy_rx example_system) (sy_world example_system)"

lemma example_handled_eval:
  "(case example_handled of (rv, rx, w) \<Rightarrow> (rv, rx_bg rx, frame_bids rx, rx_output_queue rx)) =
   (Inr (), Some 0, [0], [\<lparr>of_bids = [0], of_segments = [\<lparr>iov_base = Buffer_mem 16, iov_len = 1\<rparr>]\<rparr>])"
  by code_simp

lemma example_handledE:
  obtains rx w where "example_handled = (Inr (), rx, w)" "rx_bg rx = Some 0" "frame_bids rx = [0]"
    "rx_output_queue rx = [\<lparr>of_bids = [0], of_segments = [\<lparr>iov_base = Buffer_mem 16, iov_len = 1\<rparr>]\<rparr>]"
proof -
  obtain rv rx w where e: "example_handled = (rv, rx, w)"
    by (cases example_handled)
  show thesis
    using example_handled_eval by (intro that [of rx w]) (simp_all add: e)
qed

definition example_next :: rx_system where
  "example_next = example_system\<lparr>sy_rx := fst (snd example_handled),
     sy_links := kernel_fill (sy_rx example_system) 0 example_bytes (sy_links example_system),
     sy_world := snd (snd example_handled),
     sy_free := (sy_free example_system - {0}) \<union> given_back example_system (snd (snd example_handled)),
     sy_received := sy_received example_system @ example_bytes\<rparr>"

lemma friendly_cpu: "wf_cpu (processor friendly)"
  by (simp add: wf_sse42_cpu)

lemma length_example_bytes: "length example_bytes = 17"
  by (simp add: example_bytes_def encode_stream_def encode_frame_def wire_size_def)

lemma example_group: "bg_buffer_size (sy_group example_system) = 32" "bg_buffer_count (sy_group example_system) = 2"
  by code_simp+

lemma example_reachable: "rx_reachable friendly example_system" "rx_reachable friendly example_next"
proof -
  show start: "rx_reachable friendly example_system"
    by (rule rx_reachable.Start [OF example_start])
  obtain rx w where h: "example_handled = (Inr (), rx, w)"
    by (rule example_handledE)
  have "rx_step friendly example_system example_next"
    unfolding example_next_def h fst_conv snd_conv
    by (rule rx_step.Received [where m = True and u = "()"])
      (use h in \<open>simp_all add: length_example_bytes example_group example_handled_def, simp add: example_system_def\<close>)
  with start show "rx_reachable friendly example_next"
    by (rule rx_reachable.Step)
qed

lemma example_next_facts:
  "frame_bids (sy_rx example_next) = [0]" "bg_buffer_count (sy_group example_next) = 2"
  "rx_output_queue (sy_rx example_next) =
     [\<lparr>of_bids = [0], of_segments = [\<lparr>iov_base = Buffer_mem 16, iov_len = 1\<rparr>]\<rparr>]"
proof -
  obtain rx w where h: "example_handled = (Inr (), rx, w)" "rx_bg rx = Some 0" "frame_bids rx = [0]"
      "rx_output_queue rx = [\<lparr>of_bids = [0], of_segments = [\<lparr>iov_base = Buffer_mem 16, iov_len = 1\<rparr>]\<rparr>]"
    by (rule example_handledE)
  have rx: "sy_rx example_next = rx"
    by (simp add: example_next_def h(1))
  show "frame_bids (sy_rx example_next) = [0]" and "rx_output_queue (sy_rx example_next) =
     [\<lparr>of_bids = [0], of_segments = [\<lparr>iov_base = Buffer_mem 16, iov_len = 1\<rparr>]\<rparr>]"
    unfolding rx by (rule h)+
  have bg: "rx_bg (sy_rx example_system) = Some 0"
    by code_simp
  have "linked (sy_links example_system) (sy_rx example_system)"
    using start_inv [OF example_start] by (simp add: sys_inv_def)
  from rx_group_fill [OF this, of 0 example_bytes]
  have "sy_group example_next = fill_buffer 0 example_bytes (sy_group example_system)"
    unfolding sy_group_def rx by (simp add: rx_group_def h(2) bg example_next_def)
  then show "bg_buffer_count (sy_group example_next) = 2"
    by (simp add: example_group)
qed

section \<open>Properties\<close>

text \<open>
  C10: the receiver is the reference decoder. Whatever the sizes in which the stream arrives, and
  however its completions interleave with those of the writes, the packets written to the TUN
  device, then those that wait for it, are the frames of the bytes received so far, in order; and
  the bytes that the receiver still buffers are exactly the incomplete last frame.
\<close>

theorem receiver_refines_decoder:
  assumes "rx_reachable P s" and "wf_cpu (processor P)"
  shows "decode_stream (sy_mtu s) (sy_received s) =
    (sy_written s @ payloads (sy_links s) (sy_rx s), undecoded (sy_links s) (sy_rx s), None)"
  using reachable_inv [OF assms] by (simp add: sys_inv_def)

theorem receiver_refines_decoder_witness:
  "rx_reachable friendly example_next \<and> payloads (sy_links example_next) (sy_rx example_next) = [[7]]"
proof -
  have "sy_received example_next = encode_stream [[7]]" "sy_written example_next = []" "sy_mtu example_next = 1400"
    by (simp_all add: example_next_def example_system_def example_bytes_def sy_mtu_def example_links_def
        example_tun_def get_mtu_def)
  moreover have "decode_stream 1400 (encode_stream [[7]]) = ([[7]], [], None)"
    using decode_encode_frames [of "[[7]]" 1400 "[]"]
    by (simp add: packet_ok_def decoded_def decode_rest_def decode_error_def decode_short wire_size_def encode_stream_def)
  ultimately show ?thesis
    using receiver_refines_decoder [OF example_reachable(2) friendly_cpu] example_reachable(2) by simp
qed

text \<open>
  C12: no buffer is lost, shared or returned twice. At every moment each buffer of the group is
  owned either by the kernel or by the receiver; the receiver owns the ones that a frame still
  refers to, the reference count of each is the number of these references, and
  \<open>used_buffers_\<close> is the number of buffers that the kernel does not have.
\<close>

theorem receiver_buffers_accounted:
  assumes "rx_reachable P s" and "wf_cpu (processor P)"
  shows "sy_free s \<inter> held (sy_rx s) = {} \<and> sy_free s \<union> held (sy_rx s) = {b. b < bg_buffer_count (sy_group s)} \<and>
    held (sy_rx s) = set (frame_bids (sy_rx s)) \<and>
    (\<forall>bid < bg_buffer_count (sy_group s).
      sint (rx_refcounts (sy_rx s) ! unat bid) = int (count_list (frame_bids (sy_rx s)) bid)) \<and>
    unat (rx_used_buffers (sy_rx s)) + card (sy_free s) = unat (bg_buffer_count (sy_group s))"
proof -
  have inv: "rx_idle (sy_links s) (sy_rx s)" "sy_free s \<inter> held (sy_rx s) = {}"
      "sy_free s \<union> held (sy_rx s) = {b. b < bg_buffer_count (sy_group s)}"
    using reachable_inv [OF assms] by (simp_all add: sys_inv_def)
  have ro: "refs_ok (sy_links s) (sy_rx s)" and q: "rx_input_queue (sy_rx s) = []"
    using inv(1) by (simp_all add: rx_idle_def rx_inv_def)
  have held: "held (sy_rx s) = set (frame_bids (sy_rx s))"
    by (simp add: held_def queued_def q)
  have counts: "sint (rx_refcounts (sy_rx s) ! unat bid) = int (count_list (frame_bids (sy_rx s)) bid)"
    if "bid < bg_buffer_count (sy_group s)" for bid
  proof -
    have "refs (sy_rx s) bid < 2 ^ 31"
      using ro unfolding refs_ok_def by blast
    with ro that show ?thesis
      by (simp add: refs_ok_def sy_group_def sint_of_nat32 refs_def)
  qed
  have "card (held (sy_rx s)) < 2 ^ 64"
    using card_held_bound [of "sy_rx s"] by simp
  then have used: "unat (rx_used_buffers (sy_rx s)) = card (held (sy_rx s))"
    using ro by (simp add: refs_ok_def unat_of_nat_eq)
  have "card (sy_free s) + card (held (sy_rx s)) = card {b. b < bg_buffer_count (sy_group s)}"
    unfolding inv(3) [symmetric] by (rule card_Un_disjoint [symmetric]) (use inv(2) in auto)
  also have "\<dots> = unat (bg_buffer_count (sy_group s))"
    using distinct_card [OF distinct_bids_upto] by (simp add: set_bids_upto [symmetric])
  finally show ?thesis
    using inv(2,3) held counts used by simp
qed

theorem receiver_buffers_accounted_witness:
  "sy_free example_next = {1} \<and> set (frame_bids (sy_rx example_next)) = {0} \<and>
   unat (rx_used_buffers (sy_rx example_next)) = 1"
proof -
  have bids: "frame_bids (sy_rx example_next) = [0]" and count: "bg_buffer_count (sy_group example_next) = 2"
    using example_next_facts by simp_all
  have two: "{b :: u16. b < 2} = {0, 1}"
    using set_bids_upto [of 2] by (simp add: bids_upto_def upt_rec)
  have "sy_free example_next \<inter> {0} = {}" "sy_free example_next \<union> {0} = {0, 1}"
      "unat (rx_used_buffers (sy_rx example_next)) + card (sy_free example_next) = 2"
    using receiver_buffers_accounted [OF example_reachable(2) friendly_cpu] unfolding bids count two by auto
  moreover from this(1,2) have "sy_free example_next = {0, 1} - {0}"
    by blast
  then have "sy_free example_next = {1}"
    by auto
  ultimately show ?thesis
    by (simp add: bids)
qed

text \<open>
  C14: the receiver accepts a piece of the stream exactly when the reference decoder does. If the
  handler of a completion fails, then a submission failed, memory ran out, or the bytes received
  so far are malformed and the error says how; and malformed bytes are never accepted.
\<close>

theorem receiver_rejects_malformed:
  assumes "rx_reachable P s" and "wf_cpu (processor P)"
    and "bid \<in> sy_free s" and "0 < length bs" and "length bs \<le> unat (bg_buffer_size (sy_group s))"
    and "length bs < 2 ^ 31"
    and "rx_handle_cqe P (kernel_fill (sy_rx s) bid bs (sy_links s)) (mk_cqe RECV (of_nat (length bs)) (Some bid) m)
      (sy_rx s) (sy_world s) = (rv, rx', w')"
  shows "case rv of
      Inl e \<Rightarrow> ring_failure e \<or> err_code e = NotEnoughMemory \<or>
        decode_error (sy_mtu s) (sy_received s @ bs) = Some (err_code e)
    | Inr _ \<Rightarrow> decode_error (sy_mtu s) (sy_received s @ bs) = None"
proof -
  note r = received_inv [OF reachable_inv [OF assms(1,2)] assms(2-7)]
  then show ?thesis
    by (auto simp: sys_inv_def decode_error_def sy_mtu_def split: sum.split)
qed

text \<open>
  A write is in flight exactly when a frame waits for the device, and its completion always
  finds its frame: a full write of the front frame succeeds unless a submission fails.
\<close>

theorem receiver_write_completes:
  assumes "rx_reachable P s" and "wf_cpu (processor P)"
  shows "(rx_write_in_progress (sy_rx s) \<longleftrightarrow> rx_output_queue (sy_rx s) \<noteq> []) \<and>
    (\<forall>f fs r m rv rx' w'. rx_output_queue (sy_rx s) = f # fs \<and> sint r = int (frame_size f) \<and>
       rx_handle_cqe P (sy_links s) (mk_cqe WRITE r None m) (sy_rx s) (sy_world s) = (rv, rx', w') \<longrightarrow>
       (case rv of Inl e \<Rightarrow> ring_failure e | Inr _ \<Rightarrow> rx_output_queue rx' = fs))"
proof -
  have inv: "sys_inv P s"
    by (rule reachable_inv [OF assms])
  then have "rx_write_in_progress (sy_rx s) \<longleftrightarrow> rx_output_queue (sy_rx s) \<noteq> []"
    by (simp add: sys_inv_def rx_idle_def)
  moreover have "case rv of Inl e \<Rightarrow> ring_failure e | Inr _ \<Rightarrow> rx_output_queue rx' = fs"
    if "rx_output_queue (sy_rx s) = f # fs" "sint r = int (frame_size f)"
      "rx_handle_cqe P (sy_links s) (mk_cqe WRITE r None m) (sy_rx s) (sy_world s) = (rv, rx', w')" for f fs r m rv rx' w'
    using written_inv [OF inv that] by (auto split: sum.split)
  ultimately show ?thesis
    by blast
qed

theorem receiver_rejects_malformed_witness:
  "case fst example_handled of
      Inl e \<Rightarrow> ring_failure e \<or> err_code e = NotEnoughMemory \<or> decode_error 1400 example_bytes = Some (err_code e)
    | Inr _ \<Rightarrow> decode_error 1400 example_bytes = None"
proof -
  have mtu: "sy_mtu example_system = 1400" and none: "sy_received example_system = []"
    by (simp_all add: example_system_def sy_mtu_def example_links_def example_tun_def get_mtu_def)
  have h: "rx_handle_cqe friendly (kernel_fill (sy_rx example_system) 0 example_bytes (sy_links example_system))
      (mk_cqe RECV (of_nat (length example_bytes)) (Some 0) True) (sy_rx example_system) (sy_world example_system) =
      (fst example_handled, fst (snd example_handled), snd (snd example_handled))"
    by (simp add: example_handled_def)
  have "0 \<in> sy_free example_system" "0 < length example_bytes"
      "length example_bytes \<le> unat (bg_buffer_size (sy_group example_system))" "length example_bytes < 2 ^ 31"
    by (simp_all add: length_example_bytes example_group, simp add: example_system_def)
  from receiver_rejects_malformed [OF example_reachable(1) friendly_cpu this h] show ?thesis
    by (simp only: mtu none append_Nil)
qed

theorem receiver_write_completes_witness:
  "rx_write_in_progress (sy_rx example_next) \<and> frame_size (hd (rx_output_queue (sy_rx example_next))) = 1"
  using receiver_write_completes [OF example_reachable(2) friendly_cpu]
  by (simp add: example_next_facts frame_size_def)

text \<open>
  C27: the receiver can stop for good. When the kernel runs out of buffers while no frame waits for
  the device, the receive request is over, no write is in flight, and the handler makes no call:
  it submits neither a receive nor a write, so no completion will ever come.
\<close>

theorem receiver_cooldown_stalls:
  assumes "rx_reachable P s" and "wf_cpu (processor P)" and "rx_output_queue (sy_rx s) = []"
  shows "rx_handle_cqe P (sy_links s) (mk_cqe RECV (- of_int ENOBUFS) None False) (sy_rx s) (sy_world s) =
      (Inr (), (sy_rx s)\<lparr>rx_cooling_down := True\<rparr>, sy_world s) \<and> \<not> rx_write_in_progress (sy_rx s)"
proof -
  have idle: "rx_idle (sy_links s) (sy_rx s)"
    using reachable_inv [OF assms(1,2)] by (simp add: sys_inv_def)
  then have "rx_is_valid (sy_rx s)" "\<not> rx_write_in_progress (sy_rx s)"
    using assms(3) rx_inv_valid by (auto simp: rx_idle_def)
  then show ?thesis
    using assms(3)
    by (simp add: rx_handle_cqe_def handle_recv_cqe_def kick_write_def cqe_ok_def cqe_error_def sint_minus_enobufs)
      (simp add: ENOBUFS_def)
qed

theorem receiver_cooldown_stalls_witness:
  "fst (rx_handle_cqe friendly (sy_links example_system) (mk_cqe RECV (- of_int ENOBUFS) None False)
     (sy_rx example_system) (sy_world example_system)) = Inr () \<and>
   snd (snd (rx_handle_cqe friendly (sy_links example_system) (mk_cqe RECV (- of_int ENOBUFS) None False)
     (sy_rx example_system) (sy_world example_system))) = sy_world example_system"
proof -
  have "rx_output_queue (sy_rx example_system) = []"
    by code_simp
  from receiver_cooldown_stalls [OF example_reachable(1) friendly_cpu this] show ?thesis
    by simp
qed

end
