(* ===== verification/Transmitter.thy ===== *)
theory Transmitter
  imports Devices
begin

text \<open>
  The sending data path (\<open>include/zportal/session/transmitter.hpp\<close>, \<open>src/session/transmitter.cpp\<close>):
  it takes the packets that the kernel read from the TUN device, puts a frame header before each
  and sends header and payload with one \<open>sendmsg\<close> at a time, going on after a partial send. The
  payload is sent from the buffer it was read into, which goes back to the kernel after the last
  byte.
\<close>

section \<open>State\<close>

record out_frame =
  fr_bid :: u16
  fr_size :: u32

text \<open>
  \<open>CurrentFrameState\<close>; the message header only points to \<open>segments\<close>, whose capacity decides
  whether a \<open>push_back\<close> allocates.
\<close>

record frame_state =
  cf_frame :: out_frame
  cf_header :: frame_header
  cf_bytes_sent :: nat
  cf_segments :: "iovec list"
  cf_capacity :: nat

record transmitter =
  tx_ring :: "addr option"
  tx_tun :: "addr option"
  tx_bg :: "nat option"
  tx_sock :: "addr option"
  tx_frame_queue :: "out_frame list"
  tx_cooling_down :: bool
  tx_send_in_progress :: bool
  tx_current :: "frame_state option"

definition new_transmitter :: transmitter where
  "new_transmitter = \<lparr>tx_ring = None, tx_tun = None, tx_bg = None, tx_sock = None, tx_frame_queue = [],
     tx_cooling_down = False, tx_send_in_progress = False, tx_current = None\<rparr>"

definition tx_is_valid :: "transmitter \<Rightarrow> bool" where
  "tx_is_valid tx \<longleftrightarrow> tx_ring tx \<noteq> None \<and> tx_tun tx \<noteq> None \<and> tx_sock tx \<noteq> None \<and> tx_bg tx \<noteq> None"

definition tx_group :: "links \<Rightarrow> transmitter \<Rightarrow> buffer_group" where
  "tx_group L tx = group_at (lk_ring L) (the (tx_bg tx))"

definition create_transmitter ::
    "platform \<Rightarrow> addr \<Rightarrow> addr \<Rightarrow> addr \<Rightarrow> tun_device \<Rightarrow> u16 \<Rightarrow> io_uring \<Rightarrow> world \<Rightarrow>
     transmitter result \<times> io_uring \<times> world" where
  "create_transmitter P ring tun sock tun_obj queue_length r w =
     (let tx = new_transmitter\<lparr>tx_ring := Some ring, tx_tun := Some tun, tx_sock := Some sock\<rparr>
      in case create_buffer_group P queue_length (get_mtu tun_obj) r w of
           (Inl e, r, w) \<Rightarrow> (Inl e, r, w)
         | (Inr bg, r, w) \<Rightarrow> (Inr (tx\<lparr>tx_bg := Some bg\<rparr>), r, w))"

text \<open>The move constructor: the new object, and what is left of the old one.\<close>

definition tx_move :: "transmitter \<Rightarrow> transmitter \<times> transmitter" where
  "tx_move other =
     (other, \<lparr>tx_ring = None, tx_tun = None, tx_bg = None, tx_sock = None, tx_frame_queue = [],
        tx_cooling_down = False, tx_send_in_progress = False, tx_current = None\<rparr>)"

section \<open>Arming a read\<close>

definition prep_read :: "int \<Rightarrow> u16 \<Rightarrow> world \<Rightarrow> world" where
  "prep_read fd bgid w = log_call (Sqe_buffer_select bgid) (log_call (Sqe_prep_read fd) w)"

definition arm_read :: "platform \<Rightarrow> links \<Rightarrow> transmitter \<Rightarrow> world \<Rightarrow> unit result \<times> world" where
  "arm_read P L tx w =
     (if \<not> tx_is_valid tx then (Inl (Error InvalidTransmitter), w)
      else case get_sqe P (lk_ring L) w of
        (Inl e, w) \<Rightarrow> (Inl e, w)
      | (Inr _, w) \<Rightarrow>
         (let fd = get_fd (lk_tun L);
              bgid = get_bgid (tx_group L tx);
              w = log_call (Sqe_set_data64 (serialize (set_type READ new_operation))) w;
              (prepared, w) =
                (if HAVE_PREP_READ_MULTISHOT P then
                   (case read_multishot P w of
                      (Inl e, w) \<Rightarrow> (Inl e, w)
                    | (Inr multishot, w) \<Rightarrow>
                        (Inr (), if multishot then log_call (Sqe_prep_read_multishot fd bgid) w else prep_read fd bgid w))
                 else (Inr (), prep_read fd bgid w))
          in (case prepared of
                Inl e \<Rightarrow> (Inl e, w)
              | Inr _ \<Rightarrow>
                 (case submit P (lk_ring L) w of
                    (Inl e, w) \<Rightarrow> (Inl e, w)
                  | (Inr _, w) \<Rightarrow> (Inr (), w)))))"

section \<open>Sending\<close>

definition create_frame_header :: "platform \<Rightarrow> buffer_group \<Rightarrow> out_frame \<Rightarrow> frame_header result" where
  "create_frame_header P g frame =
     (case get_buffer g (fr_bid frame) (Some (fr_size frame)) of
        Inl e \<Rightarrow> Inl e
      | Inr b \<Rightarrow>
         (let data = (bg_data_addr g + of_nat (sp_off b), span_bytes g (sp_off b) (sp_len b));
              header = new_header (byte_order P);
              header = set_size (byte_order P) (fr_size frame) header;
              header = set_crc (byte_order P) (crc32c_span (processor P) data) header
          in Inr header))"

text \<open>
  Making the state of the next frame. The local state has room for two segments, but assigning it
  to \<open>current_frame_state_\<close> copies it, and the copy of an empty vector has no capacity.
\<close>

definition start_frame ::
    "platform \<Rightarrow> links \<Rightarrow> out_frame \<Rightarrow> transmitter \<Rightarrow> world \<Rightarrow> unit result \<times> transmitter \<times> world" where
  "start_frame P L frame tx w =
     (case tx_current tx of
        Some _ \<Rightarrow> (Inr (), tx, w)
      | None \<Rightarrow>
         (case create_frame_header P (tx_group L tx) frame of
            Inl e \<Rightarrow> (Inl e, tx, w)
          | Inr header \<Rightarrow>
             (let (ok, w) = alloc P w
              in if \<not> ok then (Inl (Error NotEnoughMemory), tx, w)
                 else (Inr (), tx\<lparr>tx_current := Some \<lparr>cf_frame = frame, cf_header = header, cf_bytes_sent = 0,
                         cf_segments = [], cf_capacity = 0\<rparr>\<rparr>, w))))"

text \<open>
  \<open>push_back\<close> of a segment. A \<open>std::bad_alloc\<close> is not caught here and leaves a function that is
  \<open>noexcept\<close>.
\<close>

definition push_segment :: "platform \<Rightarrow> iovec \<Rightarrow> frame_state \<Rightarrow> world \<Rightarrow> unit result \<times> frame_state \<times> world" where
  "push_segment P seg st w =
     (let n = length (cf_segments st)
      in if n < cf_capacity st then (Inr (), st\<lparr>cf_segments := cf_segments st @ [seg]\<rparr>, w)
         else (let (ok, w) = alloc P w
               in if \<not> ok then (Inl terminated, st, log_call Std_terminate w)
                  else (Inr (), st\<lparr>cf_segments := cf_segments st @ [seg], cf_capacity := n + max n 1\<rparr>, w)))"

primrec push_segments ::
    "platform \<Rightarrow> iovec list \<Rightarrow> frame_state \<Rightarrow> world \<Rightarrow> unit result \<times> frame_state \<times> world" where
  "push_segments P [] st w = (Inr (), st, w)"
| "push_segments P (seg # segs) st w =
     (case push_segment P seg st w of
        (Inl e, st, w) \<Rightarrow> (Inl e, st, w)
      | (Inr _, st, w) \<Rightarrow> push_segments P segs st w)"

text \<open>What is left to send of the current frame.\<close>

definition rest_segments :: "buf_span \<Rightarrow> nat \<Rightarrow> iovec list" where
  "rest_segments payload bytes_sent =
     (if bytes_sent < wire_size
      then [\<lparr>iov_base = Header_mem bytes_sent, iov_len = wire_size - bytes_sent\<rparr>,
            \<lparr>iov_base = Buffer_mem (sp_off payload), iov_len = sp_len payload\<rparr>]
      else [\<lparr>iov_base = Buffer_mem (sp_off payload + (bytes_sent - wire_size)),
             iov_len = sp_len payload - (bytes_sent - wire_size)\<rparr>])"

definition submit_send :: "platform \<Rightarrow> links \<Rightarrow> transmitter \<Rightarrow> frame_state \<Rightarrow> world \<Rightarrow> unit result \<times> transmitter \<times> world" where
  "submit_send P L tx st w =
     (case get_sqe P (lk_ring L) w of
        (Inl e, w) \<Rightarrow> (Inl e, tx, w)
      | (Inr _, w) \<Rightarrow>
         (let w = log_call (Sqe_prep_sendmsg (sock_get (lk_socket L)) (cf_segments st)) w;
              w = log_call (Sqe_set_data64 (serialize (set_type SEND new_operation))) w
          in (case submit P (lk_ring L) w of
                (Inl e, w) \<Rightarrow> (Inl e, tx, w)
              | (Inr _, w) \<Rightarrow> (Inr (), tx\<lparr>tx_send_in_progress := True\<rparr>, w))))"

definition send_frame :: "platform \<Rightarrow> links \<Rightarrow> transmitter \<Rightarrow> world \<Rightarrow> unit result \<times> transmitter \<times> world" where
  "send_frame P L tx w =
     (let st = the (tx_current tx)
      in case get_buffer (tx_group L tx) (fr_bid (cf_frame st)) (Some (fr_size (cf_frame st))) of
           Inl e \<Rightarrow> (Inl e, tx, w)
         | Inr payload \<Rightarrow>
            if cf_bytes_sent st \<ge> wire_size + unat (fr_size (cf_frame st)) then (Inl (Error InvalidState), tx, w)
            else (case push_segments P (rest_segments payload (cf_bytes_sent st)) (st\<lparr>cf_segments := []\<rparr>) w of
                    (Inl e, st, w) \<Rightarrow> (Inl e, tx\<lparr>tx_current := Some st\<rparr>, w)
                  | (Inr _, st, w) \<Rightarrow> submit_send P L (tx\<lparr>tx_current := Some st\<rparr>) st w))"

definition kick_send :: "platform \<Rightarrow> links \<Rightarrow> transmitter \<Rightarrow> world \<Rightarrow> unit result \<times> transmitter \<times> world" where
  "kick_send P L tx w =
     (if tx_send_in_progress tx then (Inr (), tx, w)
      else case tx_frame_queue tx of
        [] \<Rightarrow> (Inr (), tx, w)
      | frame # _ \<Rightarrow>
         (case start_frame P L frame tx w of
            (Inl e, tx, w) \<Rightarrow> (Inl e, tx, w)
          | (Inr _, tx, w) \<Rightarrow> send_frame P L tx w))"

section \<open>Completions\<close>

definition handle_read_cqe ::
    "platform \<Rightarrow> links \<Rightarrow> cqe \<Rightarrow> transmitter \<Rightarrow> world \<Rightarrow> unit result \<times> transmitter \<times> world" where
  "handle_read_cqe P L c tx w =
     (if \<not> tx_is_valid tx then (Inl (Error InvalidTransmitter), tx, w)
      else if cqe_type c \<noteq> READ then (Inl (Error WrongOperationType), tx, w)
      else if \<not> cqe_ok c then
        (if sint (cqe_error c) = ENOBUFS \<and> \<not> cqe_more c
         then kick_send P L (tx\<lparr>tx_cooling_down := True\<rparr>) w
         else (Inl (Error_no TunReadFailed (sint (cqe_error c))), tx, w))
      else case cqe_bid c of
        None \<Rightarrow> (Inl (Error ReadCqeMissingBid), tx, w)
      | Some bid \<Rightarrow>
         (let out_frame = \<lparr>fr_bid = bid, fr_size = cqe_result c\<rparr>;
              (ok, w) = alloc P w
          in if \<not> ok then (let (_, w) = return_buffer P (tx_group L tx) bid w in (Inl (Error NotEnoughMemory), tx, w))
             else (let tx = tx\<lparr>tx_frame_queue := tx_frame_queue tx @ [out_frame]\<rparr>
                   in if \<not> cqe_more c \<and> \<not> tx_cooling_down tx then
                        (case arm_read P L tx w of
                           (Inl e, w) \<Rightarrow> (Inl e, tx, w)
                         | (Inr _, w) \<Rightarrow> kick_send P L tx w)
                      else kick_send P L tx w)))"

text \<open>The part of \<open>handle_send_cqe_\<close> that books the bytes that the socket took.\<close>

definition book_sent ::
    "platform \<Rightarrow> links \<Rightarrow> nat \<Rightarrow> transmitter \<Rightarrow> world \<Rightarrow> unit result \<times> transmitter \<times> world" where
  "book_sent P L sent tx w =
     (case tx_current tx of
        None \<Rightarrow> (Inl (Error InvalidState), tx, w)
      | Some st \<Rightarrow>
         (let total = wire_size + unat (fr_size (cf_frame st))
          in if cf_bytes_sent st + sent > total then (Inl (Error InvalidState), tx, w)
             else if cf_bytes_sent st + sent = total then
               (let bid = fr_bid (cf_frame st);
                    tx = tx\<lparr>tx_current := None, tx_frame_queue := tl (tx_frame_queue tx)\<rparr>
                in (case return_buffer P (tx_group L tx) bid w of
                      (Inl e, w) \<Rightarrow> (Inl e, tx, w)
                    | (Inr _, w) \<Rightarrow> (Inr (), tx, w)))
             else (Inr (), tx\<lparr>tx_current := Some (st\<lparr>cf_bytes_sent := cf_bytes_sent st + sent\<rparr>)\<rparr>, w)))"

definition tx_rearm :: "platform \<Rightarrow> links \<Rightarrow> transmitter \<Rightarrow> world \<Rightarrow> unit result \<times> transmitter \<times> world" where
  "tx_rearm P L tx w =
     (if tx_cooling_down tx \<and> length (tx_frame_queue tx) \<le> get_buffer_count (tx_group L tx) div 2 then
        (case arm_read P L tx w of
           (Inl e, w) \<Rightarrow> (Inl e, tx, w)
         | (Inr _, w) \<Rightarrow> (Inr (), tx\<lparr>tx_cooling_down := False\<rparr>, w))
      else (Inr (), tx, w))"

definition handle_send_cqe ::
    "platform \<Rightarrow> links \<Rightarrow> cqe \<Rightarrow> transmitter \<Rightarrow> world \<Rightarrow> unit result \<times> transmitter \<times> world" where
  "handle_send_cqe P L c tx w =
     (if \<not> tx_is_valid tx then (Inl (Error InvalidTransmitter), tx, w)
      else if cqe_type c \<noteq> SEND then (Inl (Error WrongOperationType), tx, w)
      else (let tx = tx\<lparr>tx_send_in_progress := False\<rparr>
       in if \<not> cqe_ok c then (Inl (Error_no SendFailed (sint (cqe_error c))), tx, w)
          else (let sent = size_of_s32 (cqe_result c)
                in if sent = 0 then (Inl (Error SendReturnedZero), tx, w)
                   else (case book_sent P L sent tx w of
                           (Inl e, tx, w) \<Rightarrow> (Inl e, tx, w)
                         | (Inr _, tx, w) \<Rightarrow>
                            (case tx_rearm P L tx w of
                               (Inl e, tx, w) \<Rightarrow> (Inl e, tx, w)
                             | (Inr _, tx, w) \<Rightarrow> kick_send P L tx w)))))"

definition tx_handle_cqe ::
    "platform \<Rightarrow> links \<Rightarrow> cqe \<Rightarrow> transmitter \<Rightarrow> world \<Rightarrow> unit result \<times> transmitter \<times> world" where
  "tx_handle_cqe P L c tx w =
     (if \<not> tx_is_valid tx then (Inl (Error InvalidTransmitter), tx, w)
      else if cqe_type c \<noteq> SEND \<and> cqe_type c \<noteq> READ then (Inl (Error WrongOperationType), tx, w)
      else if cqe_type c = SEND then handle_send_cqe P L c tx w
      else handle_read_cqe P L c tx w)"

end
