(* ===== verification/Transmitter_Stream.thy ===== *)
theory Transmitter_Stream
  imports Transmitter Stream_Spec
begin

text \<open>
  The transmitter as an encoder: the bytes that it still has to send are the rest of the encoding
  of its queue, across partial sends; and as the owner of the buffers of its queue.
\<close>

section \<open>The frames of the queue\<close>

definition packet_of :: "buffer_group \<Rightarrow> out_frame \<Rightarrow> u8 list" where
  "packet_of g f = span_bytes g (buffer_offset g (fr_bid f)) (unat (fr_size f))"

definition wire :: "buffer_group \<Rightarrow> out_frame \<Rightarrow> u8 list" where
  "wire g f = encode_frame (packet_of g f)"

definition out_ok :: "buffer_group \<Rightarrow> out_frame \<Rightarrow> bool" where
  "out_ok g f \<longleftrightarrow> fr_bid f < bg_buffer_count g \<and> fr_size f \<le> bg_buffer_size g"

lemma length_packet:
  assumes "wf_group g" and "out_ok g f"
  shows "length (packet_of g f) = unat (fr_size f)"
proof -
  have "buffer_offset g (fr_bid f) + unat (fr_size f) \<le> length (bg_data g)"
    using assms buffer_in_data [of g "fr_bid f"] unfolding out_ok_def word_le_nat_alt by linarith
  then show ?thesis
    by (simp add: packet_of_def span_bytes_def)
qed

lemma wire_parts:
  assumes "wf_group g" and "out_ok g f"
  shows "wire g f = wire_header (fr_size f) (crc32c_of (packet_of g f)) @ packet_of g f"
    and "length (wire g f) = wire_size + unat (fr_size f)"
  using length_packet [OF assms] by (simp_all add: wire_def encode_frame_def)

text \<open>The header that the transmitter makes is the one of the protocol.\<close>

lemma create_frame_header_Inr:
  assumes "wf_group g" and "out_ok g f" and "wf_cpu (processor P)"
  shows "\<exists>h. create_frame_header P g f = Inr h \<and>
    hdr_data h = wire_header (fr_size f) (crc32c_of (packet_of g f))"
proof -
  have "get_buffer g (fr_bid f) (Some (fr_size f)) =
      Inr \<lparr>sp_off = buffer_offset g (fr_bid f), sp_len = unat (fr_size f)\<rparr>"
    using assms(1,2) by (simp add: get_buffer_Inr out_ok_def)
  then show ?thesis
    using assms(3) make_header_data [of "byte_order P" "fr_size f"]
    by (simp add: create_frame_header_def Let_def crc32c_span_of packet_of_def make_header_def)
qed

section \<open>The invariant\<close>

definition cur_ok :: "buffer_group \<Rightarrow> frame_state \<Rightarrow> bool" where
  "cur_ok g st \<longleftrightarrow> hdr_data (cf_header st) = wire_header (fr_size (cf_frame st)) (crc32c_of (packet_of g (cf_frame st))) \<and>
     cf_bytes_sent st < wire_size + unat (fr_size (cf_frame st))"

definition tx_inv :: "links \<Rightarrow> transmitter \<Rightarrow> bool" where
  "tx_inv L tx \<longleftrightarrow> tx_is_valid tx \<and> wf_group (tx_group L tx) \<and> (\<forall>f \<in> set (tx_frame_queue tx). out_ok (tx_group L tx) f) \<and>
     distinct (map fr_bid (tx_frame_queue tx)) \<and>
     (\<forall>st. tx_current tx = Some st \<longrightarrow> (\<exists>fs. tx_frame_queue tx = cf_frame st # fs) \<and> cur_ok (tx_group L tx) st)"

text \<open>The bytes that the request in flight points to, and the bytes that are left to send.\<close>

definition in_flight :: "links \<Rightarrow> transmitter \<Rightarrow> u8 list" where
  "in_flight L tx = (case tx_current tx of
      Some st \<Rightarrow> gather (cf_header st) (tx_group L tx) (cf_segments st) | None \<Rightarrow> [])"

definition unsent :: "links \<Rightarrow> transmitter \<Rightarrow> u8 list" where
  "unsent L tx = (case tx_current tx of
      None \<Rightarrow> concat (map (wire (tx_group L tx)) (tx_frame_queue tx))
    | Some st \<Rightarrow> drop (cf_bytes_sent st) (wire (tx_group L tx) (cf_frame st)) @
        concat (map (wire (tx_group L tx)) (tl (tx_frame_queue tx))))"

text \<open>A send in flight covers the rest of the current frame.\<close>

definition flight_ok :: "links \<Rightarrow> transmitter \<Rightarrow> bool" where
  "flight_ok L tx \<longleftrightarrow> (\<exists>st sp. tx_current tx = Some st \<and>
     get_buffer (tx_group L tx) (fr_bid (cf_frame st)) (Some (fr_size (cf_frame st))) = Inr sp \<and>
     cf_segments st = rest_segments sp (cf_bytes_sent st))"

definition tx_idle :: "links \<Rightarrow> transmitter \<Rightarrow> bool" where
  "tx_idle L tx \<longleftrightarrow> tx_inv L tx \<and> (tx_send_in_progress tx \<longleftrightarrow> tx_frame_queue tx \<noteq> []) \<and>
     (tx_send_in_progress tx \<longrightarrow> flight_ok L tx)"

section \<open>Sending\<close>

definition tx_failure :: "error \<Rightarrow> bool" where
  "tx_failure e \<longleftrightarrow> ring_failure e \<or> err_code e \<in> {NotEnoughMemory, RingProbeNotSupported} \<or> e = terminated"

lemma alloc_quiet: "alloc P w = (ok, w') \<Longrightarrow> quiet w w'"
  by (auto simp: alloc_def call_def intro: quiet_log_call)

lemma push_segments_cases:
  assumes "push_segments P segs st w = (rv, st', w')"
  shows "quiet w w' \<and> (\<forall>e. rv = Inl e \<longrightarrow> e = terminated) \<and>
    (\<forall>u. rv = Inr u \<longrightarrow> (\<exists>c. st' = st\<lparr>cf_segments := cf_segments st @ segs, cf_capacity := c\<rparr>))"
  using assms
proof (induction segs arbitrary: st w)
  case Nil
  then have "rv = Inr ()" "st' = st" "w' = w"
    by simp_all
  moreover have "\<exists>c. st = st\<lparr>cf_segments := cf_segments st, cf_capacity := c\<rparr>"
    by (rule exI [of _ "cf_capacity st"]) simp
  ultimately show ?case by simp
next
  case (Cons seg segs)
  obtain ok w1 where a: "alloc P w = (ok, w1)"
    by (cases "alloc P w")
  note q = alloc_quiet [OF a]
  define st1 where "st1 c = st\<lparr>cf_segments := cf_segments st @ [seg], cf_capacity := c\<rparr>" for c
  have keep: "st\<lparr>cf_segments := cf_segments st @ [seg]\<rparr> = st1 (cf_capacity st)"
    by (simp add: st1_def)
  have step: "push_segment P seg st w = (if length (cf_segments st) < cf_capacity st then (Inr (), st1 (cf_capacity st), w)
      else if \<not> ok then (Inl terminated, st, log_call Std_terminate w1)
      else (Inr (), st1 (length (cf_segments st) + max (length (cf_segments st)) 1), w1))"
    by (simp add: push_segment_def Let_def a keep) (simp add: st1_def)
  consider (room) "push_segment P seg st w = (Inr (), st1 (cf_capacity st), w)"
    | (fail) "push_segment P seg st w = (Inl terminated, st, log_call Std_terminate w1)"
    | (grown) c where "push_segment P seg st w = (Inr (), st1 c, w1)"
    using step by metis
  then show ?case
  proof cases
    case fail
    then show ?thesis
      using Cons.prems q by (auto intro: quiet_log_call)
  next
    case room
    then show ?thesis
      using Cons.prems Cons.IH [of "st1 (cf_capacity st)" w] by (simp add: st1_def)
  next
    case grown
    then show ?thesis
      using Cons.prems Cons.IH [of "st1 c" w1] q by (simp add: st1_def) (blast intro: quiet_trans)
  qed
qed

text \<open>The segments of a send are the rest of the frame.\<close>

lemma gather_rest:
  assumes "wf_group g" and "out_ok g (cf_frame st)" and "cur_ok g st"
    and "get_buffer g (fr_bid (cf_frame st)) (Some (fr_size (cf_frame st))) = Inr sp"
  shows "gather (cf_header st) g (rest_segments sp (cf_bytes_sent st)) =
    drop (cf_bytes_sent st) (wire g (cf_frame st))"
proof -
  let ?f = "cf_frame st" and ?n = "cf_bytes_sent st"
  have sp: "sp_off sp = buffer_offset g (fr_bid ?f)" "sp_len sp = unat (fr_size ?f)"
    using get_buffer_InrD [OF assms(4)] by simp_all
  have h: "hdr_data (cf_header st) = wire_header (fr_size ?f) (crc32c_of (packet_of g ?f))"
    using assms(3) by (simp add: cur_ok_def)
  have len: "length (hdr_data (cf_header st)) = wire_size"
    by (simp add: h)
  show ?thesis
  proof (cases "?n < wire_size")
    case True
    then show ?thesis
      using len by (simp add: rest_segments_def iov_bytes_def sp wire_parts(1) [OF assms(1,2)] h
          slice_of_def packet_of_def [symmetric])
  next
    case False
    have "span_bytes g (buffer_offset g (fr_bid ?f) + (?n - wire_size)) (unat (fr_size ?f) - (?n - wire_size)) =
        drop (?n - wire_size) (packet_of g ?f)"
      by (simp add: packet_of_def span_bytes_def drop_slice_of)
    with False show ?thesis
      using len by (simp add: rest_segments_def iov_bytes_def sp wire_parts(1) [OF assms(1,2)])
  qed
qed

lemma flight_bytes:
  assumes "tx_inv L tx" and "flight_ok L tx" and "tx_current tx = Some st"
  shows "in_flight L tx = drop (cf_bytes_sent st) (wire (tx_group L tx) (cf_frame st))"
  using assms gather_rest [of "tx_group L tx" st] by (auto simp: flight_ok_def in_flight_def tx_inv_def)

lemma submit_send_cases:
  assumes "submit_send P L tx st w = (rv, tx', w')"
  shows "quiet w w' \<and> (\<forall>e. rv = Inl e \<longrightarrow> ring_failure e) \<and>
    (\<forall>u. rv = Inr u \<longrightarrow> tx' = tx\<lparr>tx_send_in_progress := True\<rparr>)"
proof -
  obtain rv1 w1 where s: "get_sqe P (lk_ring L) w = (rv1, w1)"
    by (cases "get_sqe P (lk_ring L) w")
  note q1 = get_sqe_quiet [OF s]
  let ?w2 = "log_call (Sqe_set_data64 (serialize (set_type SEND new_operation)))
      (log_call (Sqe_prep_sendmsg (sock_get (lk_socket L)) (cf_segments st)) w1)"
  have q2: "quiet w ?w2"
    using q1 by (intro quiet_log_call) auto
  obtain rv3 w3 where s3: "submit P (lk_ring L) ?w2 = (rv3, w3)"
    by (cases "submit P (lk_ring L) ?w2")
  note q3 = submit_quiet [OF s3]
  have run: "submit_send P L tx st w = (case rv1 of Inl e \<Rightarrow> (Inl e, tx, w1)
      | Inr _ \<Rightarrow> (case rv3 of Inl e \<Rightarrow> (Inl e, tx, w3) | Inr _ \<Rightarrow> (Inr (), tx\<lparr>tx_send_in_progress := True\<rparr>, w3)))"
    by (simp add: submit_send_def s s3 Let_def split: sum.split)
  have "quiet w w3"
    using q2 q3 by (blast intro: quiet_trans)
  with assms q1 q3 show ?thesis
    unfolding run by (auto split: sum.splits)
qed

text \<open>Fields that the send path does not look at.\<close>

lemma tx_group_simps [simp]:
  "tx_group L (tx\<lparr>tx_current := c\<rparr>) = tx_group L tx" "tx_group L (tx\<lparr>tx_send_in_progress := b\<rparr>) = tx_group L tx"
  "tx_group L (tx\<lparr>tx_cooling_down := b\<rparr>) = tx_group L tx" "tx_group L (tx\<lparr>tx_frame_queue := q\<rparr>) = tx_group L tx"
  "tx_is_valid (tx\<lparr>tx_current := c\<rparr>) = tx_is_valid tx" "tx_is_valid (tx\<lparr>tx_send_in_progress := b\<rparr>) = tx_is_valid tx"
  "tx_is_valid (tx\<lparr>tx_cooling_down := b\<rparr>) = tx_is_valid tx" "tx_is_valid (tx\<lparr>tx_frame_queue := q\<rparr>) = tx_is_valid tx"
  by (simp_all add: tx_group_def tx_is_valid_def)

lemma tx_control_simps [simp]:
  "tx_inv L (tx\<lparr>tx_send_in_progress := b\<rparr>) = tx_inv L tx" "tx_inv L (tx\<lparr>tx_cooling_down := b\<rparr>) = tx_inv L tx"
  "unsent L (tx\<lparr>tx_send_in_progress := b\<rparr>) = unsent L tx" "unsent L (tx\<lparr>tx_cooling_down := b\<rparr>) = unsent L tx"
  "in_flight L (tx\<lparr>tx_send_in_progress := b\<rparr>) = in_flight L tx" "in_flight L (tx\<lparr>tx_cooling_down := b\<rparr>) = in_flight L tx"
  "flight_ok L (tx\<lparr>tx_send_in_progress := b\<rparr>) = flight_ok L tx" "flight_ok L (tx\<lparr>tx_cooling_down := b\<rparr>) = flight_ok L tx"
  by (simp_all add: tx_inv_def unsent_def in_flight_def flight_ok_def cong: option.case_cong)

text \<open>What one call to \<open>kick_send_\<close> leaves: the same bytes to send, and a send in flight.\<close>

definition kicked :: "links \<Rightarrow> transmitter \<Rightarrow> transmitter \<Rightarrow> bool" where
  "kicked L tx tx' \<longleftrightarrow> tx_idle L tx' \<and> unsent L tx' = unsent L tx \<and> tx_frame_queue tx' = tx_frame_queue tx \<and>
     tx_bg tx' = tx_bg tx"

lemma send_frame_cases:
  assumes inv: "tx_inv L tx" and cur: "tx_current tx = Some st" and r: "send_frame P L tx w = (rv, tx', w')"
  shows "quiet w w' \<and> (\<forall>e. rv = Inl e \<longrightarrow> tx_failure e) \<and> (\<forall>u. rv = Inr u \<longrightarrow> kicked L tx tx')"
proof -
  let ?g = "tx_group L tx" and ?f = "cf_frame st"
  obtain fs where q: "tx_frame_queue tx = ?f # fs"
    using inv cur by (auto simp: tx_inv_def)
  have g: "wf_group ?g" and f: "out_ok ?g ?f" and st: "cur_ok ?g st"
    using inv cur q by (simp_all add: tx_inv_def)
  obtain sp where sp: "get_buffer ?g (fr_bid ?f) (Some (fr_size ?f)) = Inr sp"
    using f by (simp add: get_buffer_Inr [OF g] out_ok_def)
  obtain rv1 st1 w1 where p: "push_segments P (rest_segments sp (cf_bytes_sent st)) (st\<lparr>cf_segments := []\<rparr>) w = (rv1, st1, w1)"
    by (cases "push_segments P (rest_segments sp (cf_bytes_sent st)) (st\<lparr>cf_segments := []\<rparr>) w")
  note q1 = push_segments_cases [OF p]
  obtain rv2 tx2 w2 where s: "submit_send P L (tx\<lparr>tx_current := Some st1\<rparr>) st1 w1 = (rv2, tx2, w2)"
    by (cases "submit_send P L (tx\<lparr>tx_current := Some st1\<rparr>) st1 w1")
  note q2 = submit_send_cases [OF s]
  have run: "send_frame P L tx w = (case rv1 of Inl e \<Rightarrow> (Inl e, tx\<lparr>tx_current := Some st1\<rparr>, w1) | Inr _ \<Rightarrow> (rv2, tx2, w2))"
    using st by (simp add: send_frame_def cur sp p s cur_ok_def split: sum.split)
  show ?thesis
  proof (cases rv1)
    case (Inl e)
    then show ?thesis
      using r q1 by (auto simp: run tx_failure_def)
  next
    case (Inr u1)
    then obtain c where st1: "st1 = st\<lparr>cf_segments := rest_segments sp (cf_bytes_sent st), cf_capacity := c\<rparr>"
      using q1 by auto
    have res: "rv = rv2" "tx' = tx2" "w' = w2"
      using r Inr by (simp_all add: run)
    have "quiet w w2"
      using q1 q2 by (blast intro: quiet_trans)
    moreover have "kicked L tx tx2" if "rv2 = Inr u" for u
    proof -
      have tx2: "tx2 = tx\<lparr>tx_current := Some st1, tx_send_in_progress := True\<rparr>"
        using q2 that by simp
      have "tx_inv L tx2" "unsent L tx2 = unsent L tx"
        using inv cur by (simp_all add: tx2 tx_inv_def unsent_def st1 cur_ok_def)
      moreover have "flight_ok L tx2"
        using sp by (simp add: tx2 flight_ok_def st1)
      ultimately show ?thesis
        by (simp add: kicked_def tx_idle_def, simp add: tx2 q)
    qed
    ultimately show ?thesis
      using q2 res by (auto simp: tx_failure_def)
  qed
qed

lemma kick_send_cases:
  assumes inv: "tx_inv L tx" and fl: "tx_send_in_progress tx \<longrightarrow> flight_ok L tx" and cpu: "wf_cpu (processor P)"
    and r: "kick_send P L tx w = (rv, tx', w')"
  shows "quiet w w' \<and> (\<forall>e. rv = Inl e \<longrightarrow> tx_failure e) \<and> (\<forall>u. rv = Inr u \<longrightarrow> kicked L tx tx')"
proof (cases "tx_send_in_progress tx \<or> tx_frame_queue tx = []")
  case True
  have res: "rv = Inr ()" "tx' = tx" "w' = w"
    using True r by (auto simp: kick_send_def split: list.splits)
  have "tx_send_in_progress tx \<longrightarrow> tx_frame_queue tx \<noteq> []"
    using fl inv by (auto simp: flight_ok_def tx_inv_def)
  with True res inv fl show ?thesis
    by (auto simp: kicked_def tx_idle_def)
next
  case False
  then obtain f fs where q: "tx_frame_queue tx = f # fs"
    by (cases "tx_frame_queue tx") auto
  let ?g = "tx_group L tx"
  have g: "wf_group ?g" and f: "out_ok ?g f"
    using inv q by (simp_all add: tx_inv_def)
  have run: "kick_send P L tx w = (case start_frame P L f tx w of
      (Inl e, tx, w) \<Rightarrow> (Inl e, tx, w) | (Inr _, tx, w) \<Rightarrow> send_frame P L tx w)"
    using False q by (simp add: kick_send_def)
  show ?thesis
  proof (cases "tx_current tx")
    case (Some st)
    then have "send_frame P L tx w = (rv, tx', w')"
      using r by (simp add: run start_frame_def)
    then show ?thesis
      by (rule send_frame_cases [OF inv Some])
  next
    case None
    obtain h where h: "create_frame_header P ?g f = Inr h" "hdr_data h = wire_header (fr_size f) (crc32c_of (packet_of ?g f))"
      using create_frame_header_Inr [OF g f cpu] by blast
    obtain ok w1 where a: "alloc P w = (ok, w1)"
      by (cases "alloc P w")
    note q1 = alloc_quiet [OF a]
    define st where "st = \<lparr>cf_frame = f, cf_header = h, cf_bytes_sent = 0, cf_segments = [], cf_capacity = 0\<rparr>"
    let ?tx = "tx\<lparr>tx_current := Some st\<rparr>"
    show ?thesis
    proof (cases ok)
      case False
      then have "rv = Inl (Error NotEnoughMemory)" "w' = w1"
        using r by (simp_all add: run start_frame_def None h(1) a)
      then show ?thesis
        using q1 by (simp add: tx_failure_def)
    next
      case True
      then have s: "send_frame P L ?tx w1 = (rv, tx', w')"
        using r by (simp add: run start_frame_def None h(1) a st_def)
      have "cur_ok ?g st"
        by (simp add: cur_ok_def st_def h(2) wire_size_def)
      then have inv': "tx_inv L ?tx"
        using inv by (simp add: tx_inv_def st_def q)
      have "unsent L ?tx = unsent L tx"
        by (simp add: unsent_def None st_def q)
      then show ?thesis
        using send_frame_cases [OF inv' _ s] q1 by (auto simp: kicked_def intro: quiet_trans)
    qed
  qed
qed

section \<open>Arming a read\<close>

lemma read_multishot_quiet:
  assumes "read_multishot P w = (rv, w')"
  shows "quiet w w' \<and> (\<forall>e. rv = Inl e \<longrightarrow> err_code e = RingProbeNotSupported)"
  using assms
  by (auto simp: read_multishot_def call_def log_call_def quiet_def Let_def split: option.splits if_splits)

lemma arm_read_cases:
  assumes "arm_read P L tx w = (rv, w')" and "tx_is_valid tx"
  shows "quiet w w' \<and> (\<forall>e. rv = Inl e \<longrightarrow> tx_failure e)"
proof -
  obtain rv1 w1 where s: "get_sqe P (lk_ring L) w = (rv1, w1)"
    by (cases "get_sqe P (lk_ring L) w")
  note q1 = get_sqe_quiet [OF s]
  let ?w2 = "log_call (Sqe_set_data64 (serialize (set_type READ new_operation))) w1"
  have q2: "quiet w ?w2"
    using q1 by (intro quiet_log_call) auto
  obtain rv3 w3 where m: "read_multishot P ?w2 = (rv3, w3)"
    by (cases "read_multishot P ?w2")
  note q3 = read_multishot_quiet [OF m]
  let ?fd = "get_fd (lk_tun L)" and ?bgid = "get_bgid (tx_group L tx)"
  define multi where "multi = HAVE_PREP_READ_MULTISHOT P"
  define w4 where "w4 = (if multi then
      (case rv3 of Inr True \<Rightarrow> log_call (Sqe_prep_read_multishot ?fd ?bgid) w3 | _ \<Rightarrow> prep_read ?fd ?bgid w3)
      else prep_read ?fd ?bgid ?w2)"
  have "quiet w w3"
    using q2 q3 by (blast intro: quiet_trans)
  then have q4: "quiet w w4"
    using q2 by (auto simp: w4_def prep_read_def intro!: quiet_log_call split: sum.split bool.split)
  obtain rv5 w5 where s5: "submit P (lk_ring L) w4 = (rv5, w5)"
    by (cases "submit P (lk_ring L) w4")
  note q5 = submit_quiet [OF s5]
  have run: "arm_read P L tx w = (case rv1 of Inl e \<Rightarrow> (Inl e, w1)
      | Inr _ \<Rightarrow> if multi \<and> isl rv3 then (Inl (projl rv3), w3)
        else (case rv5 of Inl e \<Rightarrow> (Inl e, w5) | Inr _ \<Rightarrow> (Inr (), w5)))"
    using assms(2) s m s5
    by (auto simp: arm_read_def multi_def w4_def Let_def split: sum.splits if_splits)
  have "quiet w w5"
    using q4 q5 by (blast intro: quiet_trans)
  with assms(1) q1 q3 q5 \<open>quiet w w3\<close> show ?thesis
    unfolding run by (auto simp: tx_failure_def isl_def split: sum.splits if_splits)
qed

lemma tx_rearm_cases:
  assumes "tx_rearm P L tx w = (rv, tx', w')" and "tx_is_valid tx"
  shows "quiet w w' \<and> (\<exists>c. tx' = tx\<lparr>tx_cooling_down := c\<rparr>) \<and> (\<forall>e. rv = Inl e \<longrightarrow> tx_failure e)"
proof -
  have keep: "\<exists>c. tx = tx\<lparr>tx_cooling_down := c\<rparr>"
    by (rule exI [of _ "tx_cooling_down tx"]) simp
  obtain rv1 w1 where a: "arm_read P L tx w = (rv1, w1)"
    by (cases "arm_read P L tx w")
  note q = arm_read_cases [OF a assms(2)]
  show ?thesis
  proof (cases "tx_cooling_down tx \<and> length (tx_frame_queue tx) \<le> get_buffer_count (tx_group L tx) div 2")
    case False
    then have "tx_rearm P L tx w = (Inr (), tx, w)"
      unfolding tx_rearm_def by (rule if_not_P)
    then have "rv = Inr ()" "tx' = tx" "w' = w"
      using assms(1) by simp_all
    with keep show ?thesis by (metis quiet_refl sum.distinct(1))
  next
    case True
    then have run: "tx_rearm P L tx w = (case rv1 of Inl e \<Rightarrow> (Inl e, tx, w1)
        | Inr _ \<Rightarrow> (Inr (), tx\<lparr>tx_cooling_down := False\<rparr>, w1))"
      by (simp add: tx_rearm_def a split: sum.split)
    show ?thesis
    proof (cases rv1)
      case (Inl e)
      then have "rv = Inl e" "tx' = tx" "w' = w1"
        using assms(1) run by simp_all
      with q Inl keep show ?thesis by blast
    next
      case (Inr u)
      then have "rv = Inr ()" "tx' = tx\<lparr>tx_cooling_down := False\<rparr>" "w' = w1"
        using assms(1) run by simp_all
      with q show ?thesis by blast
    qed
  qed
qed

section \<open>Buffers\<close>

text \<open>The transmitter owns the buffers of the packets in its queue.\<close>

definition owned :: "transmitter \<Rightarrow> u16 set" where
  "owned tx = fr_bid ` set (tx_frame_queue tx)"

definition tx_gives :: "links \<Rightarrow> transmitter \<times> world \<Rightarrow> transmitter \<times> world \<Rightarrow> bool" where
  "tx_gives L s s' \<longleftrightarrow> tx_bg (fst s') = tx_bg (fst s) \<and> owned (fst s') \<subseteq> owned (fst s) \<and>
     (\<exists>cs. trace (snd s') = trace (snd s) @ cs \<and>
        distinct (returned_bids (get_bgid (tx_group L (fst s))) cs) \<and>
        set (returned_bids (get_bgid (tx_group L (fst s))) cs) = owned (fst s) - owned (fst s'))"

lemma tx_gives_quiet:
  assumes "quiet w w'" and "tx_bg tx' = tx_bg tx" and "owned tx' = owned tx"
  shows "tx_gives L (tx, w) (tx', w')"
  using assms by (auto simp: tx_gives_def quiet_def)

lemma tx_gives_trans [trans]:
  assumes "tx_gives L s s'" and "tx_gives L s' s''"
  shows "tx_gives L s s''"
proof -
  have g: "tx_group L (fst s') = tx_group L (fst s)"
    using assms(1) by (simp add: tx_gives_def tx_group_def)
  obtain cs where cs: "trace (snd s') = trace (snd s) @ cs"
      "distinct (returned_bids (get_bgid (tx_group L (fst s))) cs)"
      "set (returned_bids (get_bgid (tx_group L (fst s))) cs) = owned (fst s) - owned (fst s')"
    using assms(1) by (auto simp: tx_gives_def)
  obtain ds where ds: "trace (snd s'') = trace (snd s') @ ds"
      "distinct (returned_bids (get_bgid (tx_group L (fst s))) ds)"
      "set (returned_bids (get_bgid (tx_group L (fst s))) ds) = owned (fst s') - owned (fst s'')"
    using assms(2) g by (auto simp: tx_gives_def)
  show ?thesis
    using assms cs ds unfolding tx_gives_def by (intro conjI exI [of _ "cs @ ds"]) auto
qed

lemma kicked_gives: "quiet w w' \<Longrightarrow> kicked L tx tx' \<Longrightarrow> tx_gives L (tx, w) (tx', w')"
  by (rule tx_gives_quiet) (simp_all add: kicked_def owned_def)

section \<open>Completions\<close>

text \<open>Booking \<open>n\<close> bytes that the socket took of those in flight.\<close>

lemma book_sent_inv:
  assumes inv: "tx_inv L tx" and cur: "tx_current tx = Some st"
    and n: "0 < n" "cf_bytes_sent st + n \<le> wire_size + unat (fr_size (cf_frame st))"
  shows "\<exists>tx' w'. book_sent P L n tx w = (Inr (), tx', w') \<and> tx_inv L tx' \<and>
    unsent L tx = take n (drop (cf_bytes_sent st) (wire (tx_group L tx) (cf_frame st))) @ unsent L tx' \<and>
    tx_gives L (tx, w) (tx', w') \<and> tx_send_in_progress tx' = tx_send_in_progress tx"
proof -
  let ?g = "tx_group L tx" and ?f = "cf_frame st"
  obtain fs where q: "tx_frame_queue tx = ?f # fs"
    using inv cur by (auto simp: tx_inv_def)
  have g: "wf_group ?g" and f: "out_ok ?g ?f" and st: "cur_ok ?g st" and d: "distinct (map fr_bid (?f # fs))"
    using inv cur q by (simp_all add: tx_inv_def)
  have bid: "fr_bid ?f < bg_buffer_count ?g"
    using f by (simp add: out_ok_def)
  note len = wire_parts(2) [OF g f]
  show ?thesis
  proof (cases "cf_bytes_sent st + n = wire_size + unat (fr_size ?f)")
    case True
    let ?tx = "tx\<lparr>tx_current := None, tx_frame_queue := fs\<rparr>"
    let ?w = "log_call (Buf_ring_advance (bg_bgid ?g) 1) (log_call (Buf_ring_add (bg_bgid ?g)
        (buffer_offset ?g (fr_bid ?f)) (unat (bg_buffer_size ?g)) (fr_bid ?f) (bg_mask ?g) 0) w)"
    have "book_sent P L n tx w = (Inr (), ?tx, ?w)"
      using True return_buffer_Inr [OF g bid] by (simp add: book_sent_def cur q Let_def)
    moreover have "tx_inv L ?tx"
      using inv d by (simp add: tx_inv_def q)
    moreover have "unsent L tx = take n (drop (cf_bytes_sent st) (wire ?g ?f)) @ unsent L ?tx"
      using True len by (simp add: unsent_def cur q)
    moreover have "owned tx - owned ?tx = {fr_bid ?f}" "owned ?tx \<subseteq> owned tx"
      using d by (auto simp: owned_def q)
    then have "tx_gives L (tx, w) (?tx, ?w)"
      by (simp add: tx_gives_def get_bgid_def)
    ultimately show ?thesis
      by (intro exI [of _ ?tx] exI [of _ ?w]) simp
  next
    case False
    let ?st = "st\<lparr>cf_bytes_sent := cf_bytes_sent st + n\<rparr>"
    let ?tx = "tx\<lparr>tx_current := Some ?st\<rparr>"
    have "book_sent P L n tx w = (Inr (), ?tx, w)"
      using False n(2) by (simp add: book_sent_def cur Let_def)
    moreover have "tx_inv L ?tx"
      using inv st False n(2) q by (simp add: tx_inv_def cur_ok_def)
    moreover have "unsent L tx = take n (drop (cf_bytes_sent st) (wire ?g ?f)) @ unsent L ?tx"
      using n(2) len by (simp add: unsent_def cur q add.commute flip: drop_drop append_assoc)
    moreover have "tx_gives L (tx, w) (?tx, w)"
      by (rule tx_gives_quiet) (simp_all add: owned_def)
    ultimately show ?thesis
      by (intro exI [of _ ?tx] exI [of _ w]) simp
  qed
qed

lemma handle_send_inv:
  assumes idle: "tx_idle L tx" and busy: "tx_send_in_progress tx" and cpu: "wf_cpu (processor P)"
    and n: "0 < n" "n \<le> length (in_flight L tx)"
    and cqe: "cqe_type c = SEND" "sint (cqe_result c) = int n"
    and r: "handle_send_cqe P L c tx w = (rv, tx', w')"
  shows "(\<forall>e. rv = Inl e \<longrightarrow> tx_failure e) \<and>
    (\<forall>u. rv = Inr u \<longrightarrow> tx_idle L tx' \<and> unsent L tx = take n (in_flight L tx) @ unsent L tx' \<and>
       tx_gives L (tx, w) (tx', w'))"
proof -
  have inv: "tx_inv L tx" and fl: "flight_ok L tx"
    using idle busy by (simp_all add: tx_idle_def)
  obtain st where cur: "tx_current tx = Some st"
    using fl by (auto simp: flight_ok_def)
  note flight = flight_bytes [OF inv fl cur]
  have "out_ok (tx_group L tx) (cf_frame st)" "wf_group (tx_group L tx)"
    using inv cur by (auto simp: tx_inv_def)
  then have "cf_bytes_sent st + n \<le> wire_size + unat (fr_size (cf_frame st))"
    using n wire_parts(2) [of "tx_group L tx" "cf_frame st"] by (simp add: flight)
  let ?tx = "tx\<lparr>tx_send_in_progress := False\<rparr>"
  have inv': "tx_inv L ?tx" "tx_current ?tx = Some st"
    using inv cur by simp_all
  obtain tx1 w1 where b: "book_sent P L n ?tx w = (Inr (), tx1, w1)" "tx_inv L tx1"
      "unsent L tx = take n (in_flight L tx) @ unsent L tx1"
      "tx_gives L (?tx, w) (tx1, w1)" "\<not> tx_send_in_progress tx1"
    using book_sent_inv [OF inv' n(1) \<open>cf_bytes_sent st + n \<le> _\<close>, of P w] by (auto simp: flight)
  have valid: "tx_is_valid tx" "tx_is_valid tx1"
    using inv b(2) by (simp_all add: tx_inv_def)
  obtain rv2 tx2 w2 where rearm: "tx_rearm P L tx1 w1 = (rv2, tx2, w2)"
    by (cases "tx_rearm P L tx1 w1")
  note q2 = tx_rearm_cases [OF rearm valid(2)]
  then obtain cool where tx2: "tx2 = tx1\<lparr>tx_cooling_down := cool\<rparr>"
    by blast
  obtain rv3 tx3 w3 where kick: "kick_send P L tx2 w2 = (rv3, tx3, w3)"
    by (cases "kick_send P L tx2 w2")
  have "size_of_s32 (cqe_result c) = n"
    using cqe(2) by (simp add: size_of_s32_int)
  then have run: "(rv, tx', w') = (case rv2 of Inl e \<Rightarrow> (Inl e, tx2, w2) | Inr _ \<Rightarrow> (rv3, tx3, w3))"
    using r valid(1) cqe n(1) b(1) rearm kick
    by (cases rv2) (auto simp: handle_send_cqe_def Let_def cqe_ok_def)
  have "tx_inv L tx2" "tx_send_in_progress tx2 \<longrightarrow> flight_ok L tx2"
    using b(2,5) by (simp_all add: tx2)
  note k = kick_send_cases [OF this cpu kick]
  have "tx_gives L (tx, w) (?tx, w)"
    by (rule tx_gives_quiet) (simp_all add: owned_def)
  also have "tx_gives L (?tx, w) (tx1, w1)"
    by (rule b(4))
  also have "tx_gives L (tx1, w1) (tx2, w2)"
    using q2 by (intro tx_gives_quiet) (simp_all add: tx2 owned_def)
  finally have give: "tx_gives L (tx, w) (tx2, w2)" .
  have "tx_gives L (tx, w) (tx3, w3)" if "rv3 = Inr u" for u
    using give kicked_gives [of w2 w3 L tx2 tx3] k that by (blast intro: tx_gives_trans)
  moreover have "unsent L tx2 = unsent L tx1"
    by (simp add: tx2)
  ultimately show ?thesis
    using run k q2 b(3) by (cases rv2) (auto simp: kicked_def)
qed

section \<open>A packet from the device\<close>

definition tx_linked :: "links \<Rightarrow> transmitter \<Rightarrow> bool" where
  "tx_linked L tx \<longleftrightarrow> the (tx_bg tx) < length (buffer_groups (lk_ring L))"

definition tx_fill :: "transmitter \<Rightarrow> u16 \<Rightarrow> u8 list \<Rightarrow> links \<Rightarrow> links" where
  "tx_fill tx bid bs L = fill_links (the (tx_bg tx)) bid bs L"

lemma tx_group_fill: "tx_linked L tx \<Longrightarrow> tx_group (tx_fill tx bid bs L) tx = fill_buffer bid bs (tx_group L tx)"
  by (simp add: tx_group_def tx_fill_def tx_linked_def group_at_fill)

lemma packet_of_fill:
  assumes "wf_group g" and "bid < bg_buffer_count g" and "length bs \<le> unat (bg_buffer_size g)"
    and "out_ok g f" and "fr_bid f \<noteq> bid"
  shows "packet_of (fill_buffer bid bs g) f = packet_of g f"
  using span_bytes_fill_other [OF assms(1-3,5), of 0 "unat (fr_size f)"] assms(4)
  by (simp add: packet_of_def out_ok_def word_le_nat_alt)

lemma out_ok_fill [simp]: "out_ok (fill_buffer bid bs g) = out_ok g"
  by (simp add: fun_eq_iff out_ok_def)

lemma wire_fill:
  assumes "wf_group g" and "bid < bg_buffer_count g" and "length bs \<le> unat (bg_buffer_size g)"
    and "\<forall>f \<in> set q. out_ok g f" and "bid \<notin> fr_bid ` set q"
  shows "map (wire (fill_buffer bid bs g)) q = map (wire g) q"
proof (rule map_cong [OF refl])
  fix f
  assume f: "f \<in> set q"
  then have "fr_bid f \<noteq> bid"
    using assms(5) by blast
  then show "wire (fill_buffer bid bs g) f = wire g f"
    using packet_of_fill [OF assms(1-3)] assms(4) f by (simp add: wire_def)
qed

text \<open>The transmitter with the packet at the end of its queue.\<close>

definition push_frame :: "u16 \<Rightarrow> nat \<Rightarrow> transmitter \<Rightarrow> transmitter" where
  "push_frame bid n tx = tx\<lparr>tx_frame_queue := tx_frame_queue tx @ [\<lparr>fr_bid = bid, fr_size = of_nat n\<rparr>]\<rparr>"

lemma push_frame_inv:
  assumes inv: "tx_inv L tx" and fl: "tx_send_in_progress tx \<longrightarrow> flight_ok L tx" and link: "tx_linked L tx"
    and free: "bid \<notin> owned tx" "bid < bg_buffer_count (tx_group L tx)"
    and size: "length bs \<le> unat (bg_buffer_size (tx_group L tx))"
  defines "L' \<equiv> tx_fill tx bid bs L"
  shows "tx_inv L' (push_frame bid (length bs) tx)"
    and "tx_send_in_progress tx \<longrightarrow> flight_ok L' (push_frame bid (length bs) tx)"
    and "unsent L' (push_frame bid (length bs) tx) = unsent L tx @ encode_frame bs"
    and "owned (push_frame bid (length bs) tx) = insert bid (owned tx)"
    and "tx_group L' (push_frame bid (length bs) tx) = fill_buffer bid bs (tx_group L tx)"
proof -
  let ?g = "tx_group L tx" and ?tx = "push_frame bid (length bs) tx" and ?q = "tx_frame_queue tx"
  let ?f = "\<lparr>fr_bid = bid, fr_size = of_nat (length bs)\<rparr>"
  have g: "wf_group ?g" and q: "\<forall>f \<in> set ?q. out_ok ?g f"
    using inv by (simp_all add: tx_inv_def)
  show g': "tx_group L' ?tx = fill_buffer bid bs ?g"
    using tx_group_fill [OF link, of bid bs] by (simp add: L'_def push_frame_def)
  show "owned ?tx = insert bid (owned tx)"
    by (auto simp: owned_def push_frame_def)
  have len: "unat (of_nat (length bs) :: u32) = length bs"
    using size unat_less_pow [of "bg_buffer_size ?g"] by (intro unat_of_nat_eq) simp
  have new: "out_ok ?g ?f"
    using free(2) size by (simp add: out_ok_def word_le_nat_alt len)
  have pkt: "packet_of (fill_buffer bid bs ?g) ?f = bs"
    using span_bytes_fill_same [OF g free(2) size] by (simp add: packet_of_def len)
  have wires: "map (wire (fill_buffer bid bs ?g)) ?q = map (wire ?g) ?q"
    using free(1) by (intro wire_fill [OF g free(2) size q]) (simp add: owned_def)
  have cur: "cur_ok (fill_buffer bid bs ?g) st" if "cur_ok ?g st" "cf_frame st \<in> set ?q" for st
  proof -
    have "fr_bid (cf_frame st) \<noteq> bid"
      using that(2) free(1) by (auto simp: owned_def)
    then show ?thesis
      using that packet_of_fill [OF g free(2) size, of "cf_frame st"] q by (simp add: cur_ok_def)
  qed
  show "tx_inv L' ?tx"
    unfolding tx_inv_def g' out_ok_fill
    using inv new free(1) wf_fill_buffer [OF g free(2) size] cur
    by (auto simp: tx_inv_def push_frame_def tx_is_valid_def owned_def)
  show "tx_send_in_progress tx \<longrightarrow> flight_ok L' ?tx"
    using fl unfolding flight_ok_def g' get_buffer_fill by (simp add: push_frame_def)
  show "unsent L' ?tx = unsent L tx @ encode_frame bs"
  proof (cases "tx_current tx")
    case None
    have "wire (fill_buffer bid bs ?g) ?f = encode_frame bs"
      by (simp add: wire_def pkt)
    with None show ?thesis
      unfolding unsent_def g' by (simp add: push_frame_def wires del: map_eq_conv)
  next
    case (Some st)
    then obtain fs where fs: "?q = cf_frame st # fs"
      using inv by (auto simp: tx_inv_def)
    have "wire (fill_buffer bid bs ?g) (cf_frame st) = wire ?g (cf_frame st)"
        "map (wire (fill_buffer bid bs ?g)) fs = map (wire ?g) fs"
      using wires by (simp_all add: fs)
    then have "map (wire (fill_buffer bid bs ?g)) (tl (tx_frame_queue ?tx)) = map (wire ?g) fs @ [encode_frame bs]"
      by (simp add: push_frame_def fs wire_def pkt)
    moreover have "tx_current ?tx = Some st"
      using Some by (simp add: push_frame_def)
    ultimately show ?thesis
      unfolding unsent_def g' using \<open>wire (fill_buffer bid bs ?g) (cf_frame st) = _\<close> Some
      by (simp add: fs)
  qed
qed

lemma handle_read_inv:
  assumes idle: "tx_idle L tx" and link: "tx_linked L tx" and cpu: "wf_cpu (processor P)"
    and free: "bid \<notin> owned tx" "bid < bg_buffer_count (tx_group L tx)"
    and size: "length bs \<le> unat (bg_buffer_size (tx_group L tx))" "length bs < 2 ^ 31"
    and cqe: "cqe_type c = READ" "cqe_bid c = Some bid" "cqe_result c = of_nat (length bs)"
    and r: "handle_read_cqe P (tx_fill tx bid bs L) c tx w = (rv, tx', w')"
  defines "L' \<equiv> tx_fill tx bid bs L"
  shows "(\<forall>e. rv = Inl e \<longrightarrow> tx_failure e) \<and>
    (\<forall>u. rv = Inr u \<longrightarrow> tx_idle L' tx' \<and> unsent L' tx' = unsent L tx @ encode_frame bs \<and>
       tx_gives L' (push_frame bid (length bs) tx, w) (tx', w'))"
proof -
  have inv: "tx_inv L tx" and fl: "tx_send_in_progress tx \<longrightarrow> flight_ok L tx"
    using idle by (simp_all add: tx_idle_def)
  note push = push_frame_inv [OF inv fl link free size(1), folded L'_def]
  let ?tx = "push_frame bid (length bs) tx"
  have valid: "tx_is_valid tx" "tx_is_valid ?tx"
    using inv push(1) by (simp_all add: tx_inv_def)
  have sint: "sint (cqe_result c) = int (length bs)"
    using size(2) by (simp add: cqe(3) sint_of_nat32)
  obtain ok w1 where a: "alloc P w = (ok, w1)"
    by (cases "alloc P w")
  note q1 = alloc_quiet [OF a]
  obtain rv2 w2 where arm: "arm_read P L' ?tx w1 = (rv2, w2)"
    by (cases "arm_read P L' ?tx w1")
  note q2 = arm_read_cases [OF arm valid(2)]
  let ?arms = "\<not> cqe_more c \<and> \<not> tx_cooling_down ?tx"
  define w3 where "w3 = (if ?arms then w2 else w1)"
  obtain rv4 tx4 w4 where kick: "kick_send P L' ?tx w3 = (rv4, tx4, w4)"
    by (cases "kick_send P L' ?tx w3")
  have run: "fst (handle_read_cqe P L' c tx w) = (if \<not> ok then Inl (Error NotEnoughMemory)
        else if ?arms \<and> isl rv2 then Inl (projl rv2) else rv4)"
      "ok \<Longrightarrow> \<not> (?arms \<and> isl rv2) \<Longrightarrow> handle_read_cqe P L' c tx w = (rv4, tx4, w4)"
    using valid(1) cqe sint a arm kick
    by (auto simp: handle_read_cqe_def Let_def cqe_ok_def push_frame_def w3_def split: sum.splits prod.splits)
  have "tx_send_in_progress ?tx \<longrightarrow> flight_ok L' ?tx"
    using push(2) by (simp add: push_frame_def)
  note k = kick_send_cases [OF push(1) this cpu kick]
  have "quiet w w3"
    using q1 q2 by (auto simp: w3_def intro: quiet_trans)
  then have "quiet w w4"
    using k by (blast intro: quiet_trans)
  then have give: "tx_gives L' (?tx, w) (tx4, w4)" if "rv4 = Inr u" for u
    using kicked_gives k that by blast
  show ?thesis
  proof (cases "\<not> ok \<or> (?arms \<and> isl rv2)")
    case True
    then show ?thesis
      using run(1) r q2 by (cases rv2) (auto simp: L'_def tx_failure_def)
  next
    case False
    then have "rv = rv4" "tx' = tx4" "w' = w4"
      using run(2) r by (auto simp: L'_def)
    with k give push(3) show ?thesis
      by (auto simp: kicked_def)
  qed
qed

lemma tx_enobufs_inv:
  assumes idle: "tx_idle L tx" and cpu: "wf_cpu (processor P)"
    and cqe: "cqe_type c = READ" "sint (cqe_result c) < 0" "sint (cqe_error c) = ENOBUFS" "\<not> cqe_more c"
    and r: "handle_read_cqe P L c tx w = (rv, tx', w')"
  shows "(\<forall>e. rv = Inl e \<longrightarrow> tx_failure e) \<and>
    (\<forall>u. rv = Inr u \<longrightarrow> tx_idle L tx' \<and> unsent L tx' = unsent L tx \<and> tx_gives L (tx, w) (tx', w'))"
proof -
  let ?tx = "tx\<lparr>tx_cooling_down := True\<rparr>"
  have inv: "tx_inv L tx" "tx_inv L ?tx" "tx_send_in_progress ?tx \<longrightarrow> flight_ok L ?tx"
    using idle by (simp_all add: tx_idle_def)
  then have kick: "kick_send P L ?tx w = (rv, tx', w')"
    using r cqe by (simp add: handle_read_cqe_def cqe_ok_def tx_inv_def)
  note k = kick_send_cases [OF inv(2,3) cpu kick]
  have "tx_gives L (tx, w) (?tx, w)"
    by (rule tx_gives_quiet) (simp_all add: owned_def)
  then have "tx_gives L (tx, w) (tx', w')" if "rv = Inr u" for u
    using kicked_gives [of w w' L ?tx tx'] k that by (blast intro: tx_gives_trans)
  with k show ?thesis
    by (auto simp: kicked_def)
qed

end
