(* ===== verification/Transmitter_System.thy ===== *)
theory Transmitter_System
  imports Transmitter_Stream
begin

text \<open>
  The transmitter with the kernel, the TUN device and the socket around it, as a state machine:
  the kernel fills a buffer that it owns with the next packet, and the socket takes any non-empty
  part of the bytes in flight.
\<close>

record tx_system =
  st_tx :: transmitter
  st_links :: links
  st_world :: world
  st_free :: "u16 set"
  st_packets :: "u8 list list"
  st_sent :: "u8 list"

definition st_group :: "tx_system \<Rightarrow> buffer_group" where
  "st_group s = tx_group (st_links s) (st_tx s)"

definition tx_given_back :: "tx_system \<Rightarrow> world \<Rightarrow> u16 set" where
  "tx_given_back s w' = set (returned_bids (get_bgid (st_group s)) (calls_since (st_world s) w'))"

definition tx_start :: "platform \<Rightarrow> tx_system \<Rightarrow> bool" where
  "tx_start P s \<longleftrightarrow> (\<exists>ring tun sock len r w r'.
     wf_ring r \<and> create_transmitter P ring tun sock (lk_tun (st_links s)) len r w = (Inr (st_tx s), r', st_world s) \<and>
     lk_ring (st_links s) = r' \<and>
     st_free s = set (returned_bids (get_bgid (st_group s)) (calls_since w (st_world s))) \<and>
     st_packets s = [] \<and> st_sent s = [])"

inductive tx_step :: "platform \<Rightarrow> tx_system \<Rightarrow> tx_system \<Rightarrow> bool" for P where
  Read_packet: "\<lbrakk>bid \<in> st_free s; length bs \<le> unat (bg_buffer_size (st_group s)); length bs < 2 ^ 31;
      L' = tx_fill (st_tx s) bid bs (st_links s);
      tx_handle_cqe P L' (mk_cqe READ (of_nat (length bs)) (Some bid) m) (st_tx s) (st_world s) = (Inr u, tx', w')\<rbrakk> \<Longrightarrow>
    tx_step P s (s\<lparr>st_tx := tx', st_links := L', st_world := w', st_free := (st_free s - {bid}) \<union> tx_given_back s w',
      st_packets := st_packets s @ [bs]\<rparr>)"
| No_read_buffers: "\<lbrakk>tx_handle_cqe P (st_links s) (mk_cqe READ (- of_int ENOBUFS) None False) (st_tx s) (st_world s) = (Inr u, tx', w')\<rbrakk> \<Longrightarrow>
    tx_step P s (s\<lparr>st_tx := tx', st_world := w', st_free := st_free s \<union> tx_given_back s w'\<rparr>)"
| Sent: "\<lbrakk>tx_send_in_progress (st_tx s); 0 < n; n \<le> length (in_flight (st_links s) (st_tx s)); sint r = int n;
      tx_handle_cqe P (st_links s) (mk_cqe SEND r None m) (st_tx s) (st_world s) = (Inr u, tx', w')\<rbrakk> \<Longrightarrow>
    tx_step P s (s\<lparr>st_tx := tx', st_world := w', st_free := st_free s \<union> tx_given_back s w',
      st_sent := st_sent s @ take n (in_flight (st_links s) (st_tx s))\<rparr>)"

inductive tx_reachable :: "platform \<Rightarrow> tx_system \<Rightarrow> bool" for P where
  Start: "tx_start P s \<Longrightarrow> tx_reachable P s"
| Step: "tx_reachable P s \<Longrightarrow> tx_step P s s' \<Longrightarrow> tx_reachable P s'"

section \<open>The invariant\<close>

definition st_inv :: "tx_system \<Rightarrow> bool" where
  "st_inv s \<longleftrightarrow> tx_idle (st_links s) (st_tx s) \<and> tx_linked (st_links s) (st_tx s) \<and>
     st_free s \<inter> owned (st_tx s) = {} \<and> st_free s \<union> owned (st_tx s) = {b. b < bg_buffer_count (st_group s)} \<and>
     st_sent s @ unsent (st_links s) (st_tx s) = encode_stream (st_packets s)"

lemma tx_given_back_gives:
  assumes "tx_gives L (tx, st_world s) (tx', w')" and "get_bgid (tx_group L tx) = get_bgid (st_group s)"
  shows "tx_given_back s w' = owned tx - owned tx'"
  using assms by (auto simp: tx_gives_def tx_given_back_def calls_since_def)

lemma tx_start_inv:
  assumes "tx_start P s"
  shows "st_inv s"
proof -
  obtain ring tun sock len r w r' where s: "wf_ring r"
      "create_transmitter P ring tun sock (lk_tun (st_links s)) len r w = (Inr (st_tx s), r', st_world s)"
      "lk_ring (st_links s) = r'"
      "st_free s = set (returned_bids (get_bgid (st_group s)) (calls_since w (st_world s)))"
      "st_packets s = []" "st_sent s = []"
    using assms unfolding tx_start_def by blast
  obtain i where i: "create_buffer_group P len (get_mtu (lk_tun (st_links s))) r w = (Inr i, r', st_world s)"
      "st_tx s = new_transmitter\<lparr>tx_ring := Some ring, tx_tun := Some tun, tx_sock := Some sock, tx_bg := Some i\<rparr>"
    using s(2) by (auto simp: create_transmitter_def Let_def split: sum.splits prod.splits)
  obtain g cs where g: "made_group P r len (get_mtu (lk_tun (st_links s))) g" "i = length (buffer_groups r)"
      "r' = r\<lparr>next_bgid := next_bgid r + 1, buffer_groups := buffer_groups r @ [g]\<rparr>"
      "trace (st_world s) = trace w @ cs" "returned_bids (bg_bgid g) cs = bids_upto len"
    using create_buffer_group_Inr [OF i(1)] by blast
  have at: "st_group s = g"
    by (simp add: st_group_def tx_group_def group_at_def s(3) g(2,3) i(2))
  have count: "bg_buffer_count g = len" "wf_group g"
    using g(1) by (simp_all add: made_group_def)
  have free: "st_free s = {b. b < len}"
    using s(4) g(4,5) by (simp add: at calls_since_def get_bgid_def set_bids_upto)
  have "tx_inv (st_links s) (st_tx s)"
    unfolding tx_inv_def at [unfolded st_group_def]
    using count(2) by (simp add: i(2) new_transmitter_def tx_is_valid_def)
  then have "tx_idle (st_links s) (st_tx s)"
    by (simp add: tx_idle_def i(2) new_transmitter_def)
  moreover have "unsent (st_links s) (st_tx s) = []" "owned (st_tx s) = {}"
    by (simp_all add: unsent_def owned_def i(2) new_transmitter_def)
  moreover have "tx_linked (st_links s) (st_tx s)"
    by (simp add: tx_linked_def s(3) g(2,3) i(2))
  ultimately show ?thesis
    using free count(1) s(5,6) by (simp add: st_inv_def at encode_stream_def)
qed

lemma read_inv:
  assumes inv: "st_inv s" and cpu: "wf_cpu (processor P)"
    and bs: "bid \<in> st_free s" "length bs \<le> unat (bg_buffer_size (st_group s))" "length bs < 2 ^ 31"
    and r: "tx_handle_cqe P (tx_fill (st_tx s) bid bs (st_links s)) (mk_cqe READ (of_nat (length bs)) (Some bid) m)
      (st_tx s) (st_world s) = (rv, tx', w')"
  defines "s' \<equiv> s\<lparr>st_tx := tx', st_links := tx_fill (st_tx s) bid bs (st_links s), st_world := w',
      st_free := (st_free s - {bid}) \<union> tx_given_back s w', st_packets := st_packets s @ [bs]\<rparr>"
  shows "(\<forall>e. rv = Inl e \<longrightarrow> tx_failure e) \<and> (\<forall>u. rv = Inr u \<longrightarrow> st_inv s')"
proof -
  let ?L = "st_links s" and ?tx = "st_tx s"
  let ?L' = "tx_fill ?tx bid bs ?L"
  have i: "tx_idle ?L ?tx" "tx_linked ?L ?tx" "st_free s \<inter> owned ?tx = {}"
      "st_free s \<union> owned ?tx = {b. b < bg_buffer_count (st_group s)}"
      "st_sent s @ unsent ?L ?tx = encode_stream (st_packets s)"
    using inv by (simp_all add: st_inv_def)
  have free: "bid \<notin> owned ?tx" "bid < bg_buffer_count (tx_group ?L ?tx)"
    using i(3,4) bs(1) by (auto simp: st_group_def)
  have tinv: "tx_inv ?L ?tx" "tx_send_in_progress ?tx \<longrightarrow> flight_ok ?L ?tx"
    using i(1) by (simp_all add: tx_idle_def)
  have r': "handle_read_cqe P ?L' (mk_cqe READ (of_nat (length bs)) (Some bid) m) ?tx (st_world s) = (rv, tx', w')"
    using r tinv(1) by (simp add: tx_handle_cqe_def tx_inv_def)
  note h = handle_read_inv [OF i(1,2) cpu free bs(2) [unfolded st_group_def] bs(3) _ _ _ r']
  note push = push_frame_inv [OF tinv i(2) free bs(2) [unfolded st_group_def]]
  have "st_inv s'" if "rv = Inr u" for u
  proof -
    have n: "tx_idle ?L' tx'" "unsent ?L' tx' = unsent ?L ?tx @ encode_frame bs"
        "tx_gives ?L' (push_frame bid (length bs) ?tx, st_world s) (tx', w')"
      using h that by auto
    have bg: "tx_bg tx' = tx_bg ?tx"
      using n(3) by (simp add: tx_gives_def push_frame_def)
    have g': "st_group s' = fill_buffer bid bs (st_group s)"
      using tx_group_fill [OF i(2), of bid bs] bg by (simp add: s'_def st_group_def tx_group_def)
    have given: "tx_given_back s w' = insert bid (owned ?tx) - owned tx'"
      using tx_given_back_gives [OF n(3)] push(4,5) by (simp add: get_bgid_def st_group_def)
    have sub: "owned tx' \<subseteq> insert bid (owned ?tx)"
      using n(3) push(4) by (simp add: tx_gives_def)
    have "st_free s' \<inter> owned tx' = {}" "st_free s' \<union> owned tx' = st_free s \<union> owned ?tx"
      using i(3) bs(1) sub by (auto simp: s'_def given)
    moreover have "st_sent s' @ unsent ?L' tx' = encode_stream (st_packets s')"
      using n(2) i(5) by (simp add: s'_def encode_stream_def flip: append_assoc)
    moreover have "tx_linked ?L' tx'"
      using i(2) bg by (simp add: tx_linked_def tx_fill_def)
    ultimately show ?thesis
      using n(1) i(4) g' by (simp add: st_inv_def) (simp add: s'_def)
  qed
  with h show ?thesis by auto
qed

lemma tx_quiet_step_inv:
  assumes inv: "st_inv s" and idle: "tx_idle (st_links s) tx'"
    and gives: "tx_gives (st_links s) (st_tx s, st_world s) (tx', w')"
    and out: "st_sent s @ unsent (st_links s) (st_tx s) = sent @ unsent (st_links s) tx'"
  shows "st_inv (s\<lparr>st_tx := tx', st_world := w', st_free := st_free s \<union> tx_given_back s w', st_sent := sent\<rparr>)"
proof -
  have bg: "tx_bg tx' = tx_bg (st_tx s)" and sub: "owned tx' \<subseteq> owned (st_tx s)"
    using gives by (simp_all add: tx_gives_def)
  have "tx_given_back s w' = owned (st_tx s) - owned tx'"
    by (rule tx_given_back_gives [OF gives]) (simp add: st_group_def)
  then show ?thesis
    using inv sub idle out
    by (auto simp: st_inv_def st_group_def tx_group_def tx_linked_def bg)
qed

lemma sint_enobufs: "sint (- of_int ENOBUFS :: s32) = - ENOBUFS" "sint (- (- of_int ENOBUFS) :: s32) = ENOBUFS"
  by (simp_all add: ENOBUFS_def)

lemma tx_no_buffers_inv:
  assumes inv: "st_inv s" and cpu: "wf_cpu (processor P)"
    and r: "tx_handle_cqe P (st_links s) (mk_cqe READ (- of_int ENOBUFS) None False) (st_tx s) (st_world s) = (Inr u, tx', w')"
  shows "st_inv (s\<lparr>st_tx := tx', st_world := w', st_free := st_free s \<union> tx_given_back s w'\<rparr>)"
proof -
  let ?c = "mk_cqe READ (- of_int ENOBUFS) None False"
  have idle: "tx_idle (st_links s) (st_tx s)"
    using inv by (simp add: st_inv_def)
  then have r': "handle_read_cqe P (st_links s) ?c (st_tx s) (st_world s) = (Inr u, tx', w')"
    using r by (simp add: tx_handle_cqe_def tx_idle_def tx_inv_def)
  have c: "cqe_type ?c = READ" "sint (cqe_result ?c) < 0" "sint (cqe_error ?c) = ENOBUFS" "\<not> cqe_more ?c"
    by (simp_all add: cqe_error_def sint_enobufs ENOBUFS_def)
  have "st_inv (s\<lparr>st_tx := tx', st_world := w', st_free := st_free s \<union> tx_given_back s w', st_sent := st_sent s\<rparr>)"
    using tx_enobufs_inv [OF idle cpu c r'] by (intro tx_quiet_step_inv [OF inv]) auto
  then show ?thesis by simp
qed

lemma sent_inv:
  assumes inv: "st_inv s" and cpu: "wf_cpu (processor P)"
    and n: "tx_send_in_progress (st_tx s)" "0 < n" "n \<le> length (in_flight (st_links s) (st_tx s))" "sint r = int n"
    and h: "tx_handle_cqe P (st_links s) (mk_cqe SEND r None m) (st_tx s) (st_world s) = (rv, tx', w')"
  shows "(\<forall>e. rv = Inl e \<longrightarrow> tx_failure e) \<and>
    (\<forall>u. rv = Inr u \<longrightarrow> st_inv (s\<lparr>st_tx := tx', st_world := w', st_free := st_free s \<union> tx_given_back s w',
       st_sent := st_sent s @ take n (in_flight (st_links s) (st_tx s))\<rparr>))"
proof -
  have idle: "tx_idle (st_links s) (st_tx s)"
    using inv by (simp add: st_inv_def)
  then have h': "handle_send_cqe P (st_links s) (mk_cqe SEND r None m) (st_tx s) (st_world s) = (rv, tx', w')"
    using h by (simp add: tx_handle_cqe_def tx_idle_def tx_inv_def)
  show ?thesis
    using handle_send_inv [OF idle n(1) cpu n(2,3) _ _ h'] n(4)
    by (auto intro!: tx_quiet_step_inv [OF inv])
qed

lemma tx_reachable_inv:
  assumes "tx_reachable P s" and "wf_cpu (processor P)"
  shows "st_inv s"
  using assms
proof (induction rule: tx_reachable.induct)
  case (Start s)
  then show ?case by (simp add: tx_start_inv)
next
  case (Step s s')
  then have inv: "st_inv s"
    by simp
  from Step.hyps(2) show ?case
  proof (cases rule: tx_step.cases)
    case (Read_packet bid bs L' m u tx' w')
    then show ?thesis
      using read_inv [OF inv Step.prems, of bid bs m "Inr u" tx' w'] by simp
  next
    case (No_read_buffers u tx' w')
    then show ?thesis
      using tx_no_buffers_inv [OF inv Step.prems, of u tx' w'] by simp
  next
    case (Sent n r m u tx' w')
    then show ?thesis
      using sent_inv [OF inv Step.prems, of n r m "Inr u" tx' w'] by simp
  qed
qed

section \<open>An example run\<close>

text \<open>Two buffers of 32 bytes, and a first packet of one byte.\<close>

definition small_tun :: tun_device where
  "small_tun = \<lparr>tun_fd = fd_new 7, tun_nl = make_socket 6 AF_UNSPEC, tun_index = 1, tun_name = ''tun0'', tun_mtu = 32\<rparr>"

definition small_created :: "transmitter result \<times> io_uring \<times> world" where
  "small_created = create_transmitter friendly 4 5 6 small_tun 2 example_ring initial_world"

definition small_system :: tx_system where
  "small_system = \<lparr>st_tx = projr (fst small_created),
     st_links = \<lparr>lk_ring = fst (snd small_created), lk_tun = small_tun, lk_socket = make_socket 8 AF_INET\<rparr>,
     st_world = snd (snd small_created), st_free = {0, 1}, st_packets = [], st_sent = []\<rparr>"

lemma small_start: "tx_start friendly small_system"
proof -
  have c: "\<not> isl (fst small_created)"
    by code_simp
  have free: "returned_bids (get_bgid (st_group small_system))
      (calls_since initial_world (snd (snd small_created))) = [0, 1]"
    by code_simp
  show ?thesis
    unfolding tx_start_def
  proof (intro exI conjI)
    show "create_transmitter friendly 4 5 6 (lk_tun (st_links small_system)) 2 example_ring initial_world =
        (Inr (st_tx small_system), fst (snd small_created), st_world small_system)"
      using c by (simp add: small_system_def flip: small_created_def)
    show "st_free small_system = set (returned_bids (get_bgid (st_group small_system))
        (calls_since initial_world (st_world small_system)))"
      using free by (simp add: small_system_def)
  qed (simp_all add: wf_ring_def example_ring_def small_system_def)
qed

definition small_read :: "unit result \<times> transmitter \<times> world" where
  "small_read = tx_handle_cqe friendly (tx_fill (st_tx small_system) 0 [7] (st_links small_system))
     (mk_cqe READ 1 (Some 0) True) (st_tx small_system) (st_world small_system)"

lemma small_read_eval:
  "(case small_read of (rv, tx, w) \<Rightarrow> (rv, tx_bg tx, tx_send_in_progress tx, tx_cooling_down tx, tx_frame_queue tx)) =
   (Inr (), Some 0, True, False, [\<lparr>fr_bid = 0, fr_size = 1\<rparr>])"
  by code_simp

lemma small_readE:
  obtains tx w where "small_read = (Inr (), tx, w)" "tx_bg tx = Some 0" "tx_send_in_progress tx" "\<not> tx_cooling_down tx"
    "tx_frame_queue tx = [\<lparr>fr_bid = 0, fr_size = 1\<rparr>]"
proof -
  obtain rv tx w where e: "small_read = (rv, tx, w)"
    by (cases small_read)
  show thesis
    using small_read_eval by (intro that [of tx w]) (simp_all add: e)
qed

definition small_next :: tx_system where
  "small_next = small_system\<lparr>st_tx := fst (snd small_read),
     st_links := tx_fill (st_tx small_system) 0 [7] (st_links small_system), st_world := snd (snd small_read),
     st_free := (st_free small_system - {0}) \<union> tx_given_back small_system (snd (snd small_read)),
     st_packets := st_packets small_system @ [[7]]\<rparr>"

lemma small_group: "bg_buffer_size (st_group small_system) = 32" "bg_buffer_count (st_group small_system) = 2"
  by code_simp+

lemma wf_friendly_cpu: "wf_cpu (processor friendly)"
  by (simp add: wf_sse42_cpu)

lemma small_reachable: "tx_reachable friendly small_system" "tx_reachable friendly small_next"
proof -
  show start: "tx_reachable friendly small_system"
    by (rule tx_reachable.Start [OF small_start])
  obtain tx w where h: "small_read = (Inr (), tx, w)"
    by (rule small_readE)
  have "tx_step friendly small_system small_next"
    unfolding small_next_def h fst_conv snd_conv
    by (rule tx_step.Read_packet [where m = True and u = "()"])
      (use h in \<open>simp_all add: small_group small_read_def, simp add: small_system_def\<close>)
  with start show "tx_reachable friendly small_next"
    by (rule tx_reachable.Step)
qed

lemma small_next_facts:
  "tx_send_in_progress (st_tx small_next)" "\<not> tx_cooling_down (st_tx small_next)" "tx_frame_queue (st_tx small_next) = [\<lparr>fr_bid = 0, fr_size = 1\<rparr>]"
  "st_packets small_next = [[7]]" "st_sent small_next = []"
proof -
  obtain tx w where h: "small_read = (Inr (), tx, w)" "tx_bg tx = Some 0" "tx_send_in_progress tx" "\<not> tx_cooling_down tx"
      "tx_frame_queue tx = [\<lparr>fr_bid = 0, fr_size = 1\<rparr>]"
    by (rule small_readE)
  have tx: "st_tx small_next = tx"
    by (simp add: small_next_def h(1))
  show "tx_send_in_progress (st_tx small_next)" "\<not> tx_cooling_down (st_tx small_next)" "tx_frame_queue (st_tx small_next) = [\<lparr>fr_bid = 0, fr_size = 1\<rparr>]"
    unfolding tx by (rule h)+
  show "st_packets small_next = [[7]]" "st_sent small_next = []"
    by (simp_all add: small_next_def small_system_def)
qed

section \<open>Properties\<close>

text \<open>
  C11: the transmitter is the encoder. Whatever parts of a frame the socket takes at a time, and
  however these completions interleave with new packets, the bytes that the socket has taken, then
  those left to send, are the encoding of the packets read from the device, in order; a send is in
  flight as long as bytes are left, and it points at the next of them.
\<close>

theorem transmitter_refines_encoder:
  assumes "tx_reachable P s" and "wf_cpu (processor P)"
  shows "st_sent s @ unsent (st_links s) (st_tx s) = encode_stream (st_packets s) \<and>
    (tx_send_in_progress (st_tx s) \<longleftrightarrow> unsent (st_links s) (st_tx s) \<noteq> []) \<and>
    (tx_send_in_progress (st_tx s) \<longrightarrow> in_flight (st_links s) (st_tx s) \<noteq> [] \<and>
       (\<exists>later. unsent (st_links s) (st_tx s) = in_flight (st_links s) (st_tx s) @ later))"
proof -
  let ?L = "st_links s" and ?tx = "st_tx s"
  have inv: "st_sent s @ unsent ?L ?tx = encode_stream (st_packets s)" "tx_idle ?L ?tx"
    using tx_reachable_inv [OF assms] by (simp_all add: st_inv_def)
  have tinv: "tx_inv ?L ?tx"
    using inv(2) by (simp add: tx_idle_def)
  show ?thesis
  proof (cases "tx_send_in_progress ?tx")
    case True
    then have fl: "flight_ok ?L ?tx"
      using inv(2) by (simp add: tx_idle_def)
    then obtain st where cur: "tx_current ?tx = Some st"
      by (auto simp: flight_ok_def)
    have "out_ok (tx_group ?L ?tx) (cf_frame st)" "wf_group (tx_group ?L ?tx)" "cur_ok (tx_group ?L ?tx) st"
      using tinv cur by (auto simp: tx_inv_def)
    then have "in_flight ?L ?tx \<noteq> []"
      using wire_parts(2) [of "tx_group ?L ?tx" "cf_frame st"] flight_bytes [OF tinv fl cur] by (simp add: cur_ok_def)
    with True inv(1) show ?thesis
      by (simp add: unsent_def cur flight_bytes [OF tinv fl cur])
  next
    case False
    then have q: "tx_frame_queue ?tx = []"
      using inv(2) by (simp add: tx_idle_def)
    then have "tx_current ?tx = None"
      using tinv by (cases "tx_current ?tx") (auto simp: tx_inv_def)
    with False inv(1) q show ?thesis
      by (simp add: unsent_def)
  qed
qed

theorem transmitter_refines_encoder_witness:
  "tx_reachable friendly small_next \<and> in_flight (st_links small_next) (st_tx small_next) \<noteq> [] \<and>
   unsent (st_links small_next) (st_tx small_next) = encode_stream [[7]]"
  using transmitter_refines_encoder [OF small_reachable(2) wf_friendly_cpu] small_reachable(2)
  by (simp add: small_next_facts)

text \<open>
  C13: the buffers of the transmitter. Each buffer is owned either by the kernel or by exactly one
  packet of the queue, and it goes back to the kernel when its packet has been sent.
\<close>

theorem transmitter_buffers_accounted:
  assumes "tx_reachable P s" and "wf_cpu (processor P)"
  shows "distinct (map fr_bid (tx_frame_queue (st_tx s))) \<and>
    st_free s \<inter> owned (st_tx s) = {} \<and> st_free s \<union> owned (st_tx s) = {b. b < bg_buffer_count (st_group s)} \<and>
    length (tx_frame_queue (st_tx s)) + card (st_free s) = unat (bg_buffer_count (st_group s))"
proof -
  have inv: "tx_inv (st_links s) (st_tx s)" "st_free s \<inter> owned (st_tx s) = {}"
      "st_free s \<union> owned (st_tx s) = {b. b < bg_buffer_count (st_group s)}"
    using tx_reachable_inv [OF assms] by (simp_all add: st_inv_def tx_idle_def)
  have d: "distinct (map fr_bid (tx_frame_queue (st_tx s)))"
    using inv(1) by (simp add: tx_inv_def)
  have "card (owned (st_tx s)) = length (tx_frame_queue (st_tx s))"
    using distinct_card [OF d] by (simp add: owned_def)
  moreover have "card (st_free s) + card (owned (st_tx s)) = card {b. b < bg_buffer_count (st_group s)}"
    unfolding inv(3) [symmetric] by (rule card_Un_disjoint [symmetric]) (use inv(2) in \<open>auto simp: owned_def\<close>)
  moreover have "card {b. b < bg_buffer_count (st_group s)} = unat (bg_buffer_count (st_group s))"
    using distinct_card [OF distinct_bids_upto] by (simp add: set_bids_upto [symmetric])
  ultimately show ?thesis
    using inv(2,3) d by simp
qed

theorem transmitter_buffers_accounted_witness:
  "distinct (map fr_bid (tx_frame_queue (st_tx small_next))) \<and>
   1 + card (st_free small_next) = unat (bg_buffer_count (st_group small_next))"
  using transmitter_buffers_accounted [OF small_reachable(2) wf_friendly_cpu] by (simp add: small_next_facts)

text \<open>
  The transmitter fails only from outside: whatever the socket takes of the bytes in flight,
  the handler of the completion finds its frame, and an error can only be a failed submission,
  memory, or the feature check; the state it is in is never the cause.
\<close>

theorem transmitter_send_completes:
  assumes "tx_reachable P s" and "wf_cpu (processor P)" and "tx_send_in_progress (st_tx s)"
    and "0 < n" and "n \<le> length (in_flight (st_links s) (st_tx s))" and "sint r = int n"
  shows "case fst (tx_handle_cqe P (st_links s) (mk_cqe SEND r None m) (st_tx s) (st_world s)) of
      Inl e \<Rightarrow> ring_failure e \<or> err_code e \<in> {NotEnoughMemory, RingProbeNotSupported} \<or> e = terminated
    | Inr _ \<Rightarrow> True"
proof -
  obtain rv tx' w' where h: "tx_handle_cqe P (st_links s) (mk_cqe SEND r None m) (st_tx s) (st_world s) = (rv, tx', w')"
    by (cases "tx_handle_cqe P (st_links s) (mk_cqe SEND r None m) (st_tx s) (st_world s)")
  show ?thesis
    using sent_inv [OF tx_reachable_inv [OF assms(1,2)] assms(2-6) h] by (simp add: h tx_failure_def split: sum.split)
qed

lemma small_flight: "in_flight (st_links small_next) (st_tx small_next) \<noteq> []"
proof -
  have inv: "tx_inv (st_links small_next) (st_tx small_next)" "flight_ok (st_links small_next) (st_tx small_next)"
    using tx_reachable_inv [OF small_reachable(2) wf_friendly_cpu] small_next_facts(1)
    by (simp_all add: st_inv_def tx_idle_def)
  then obtain st where st: "tx_current (st_tx small_next) = Some st"
    by (auto simp: flight_ok_def)
  let ?g = "tx_group (st_links small_next) (st_tx small_next)"
  have "out_ok ?g (cf_frame st)" "wf_group ?g" "cur_ok ?g st"
    using inv(1) st by (auto simp: tx_inv_def)
  then show ?thesis
    using wire_parts(2) [of ?g "cf_frame st"] flight_bytes [OF inv st] by (simp add: cur_ok_def)
qed

theorem transmitter_send_completes_witness:
  "case fst (tx_handle_cqe friendly (st_links small_next) (mk_cqe SEND 1 None False) (st_tx small_next) (st_world small_next)) of
      Inl e \<Rightarrow> ring_failure e \<or> err_code e \<in> {NotEnoughMemory, RingProbeNotSupported} \<or> e = terminated
    | Inr _ \<Rightarrow> True"
proof -
  have "1 \<le> length (in_flight (st_links small_next) (st_tx small_next))"
    using small_flight by (simp add: Suc_le_eq)
  from transmitter_send_completes [OF small_reachable(2) wf_friendly_cpu small_next_facts(1) _ this, of 1 False]
  show ?thesis by simp
qed

text \<open>
  C28: the transmitter can stop for good. When the kernel's report that it has no buffer is handled
  while the queue is empty, because the last packet has been sent in between, the handler makes no
  call: the read is over, no send is in flight, and no completion will ever come.
\<close>

theorem transmitter_cooldown_stalls:
  assumes "tx_reachable P s" and "wf_cpu (processor P)" and "tx_frame_queue (st_tx s) = []"
  shows "tx_handle_cqe P (st_links s) (mk_cqe READ (- of_int ENOBUFS) None False) (st_tx s) (st_world s) =
      (Inr (), (st_tx s)\<lparr>tx_cooling_down := True\<rparr>, st_world s) \<and> \<not> tx_send_in_progress (st_tx s)"
proof -
  have idle: "tx_idle (st_links s) (st_tx s)"
    using tx_reachable_inv [OF assms(1,2)] by (simp add: st_inv_def)
  then have "tx_is_valid (st_tx s)" "\<not> tx_send_in_progress (st_tx s)"
    using assms(3) by (auto simp: tx_idle_def tx_inv_def)
  then show ?thesis
    using assms(3)
    by (simp add: tx_handle_cqe_def handle_read_cqe_def kick_send_def cqe_ok_def cqe_error_def sint_enobufs)
      (simp add: ENOBUFS_def)
qed

theorem transmitter_cooldown_stalls_witness:
  "tx_handle_cqe friendly (st_links small_system) (mk_cqe READ (- of_int ENOBUFS) None False) (st_tx small_system)
     (st_world small_system) = (Inr (), (st_tx small_system)\<lparr>tx_cooling_down := True\<rparr>, st_world small_system)"
proof -
  have "tx_frame_queue (st_tx small_system) = []"
    by code_simp
  from transmitter_cooldown_stalls [OF small_reachable(1) wf_friendly_cpu this] show ?thesis
    by simp
qed

text \<open>
  C32: an allocation can end the process. The room that \<open>kick_send_\<close> reserves for two segments is
  lost when the state is copied into the object, so the first \<open>push_back\<close> allocates outside of the
  handler for \<open>std::bad_alloc\<close>; if it fails, the exception leaves a \<open>noexcept\<close> function.
\<close>

theorem transmitter_can_terminate:
  assumes "tx_inv L tx" and "wf_cpu (processor P)" and "\<not> tx_send_in_progress tx" and "tx_current tx = None"
    and "tx_frame_queue tx \<noteq> []" and "sys P (trace w @ [Alloc]) = 0" and "sys P (trace w @ [Alloc, Alloc]) \<noteq> 0"
  shows "fst (kick_send P L tx w) = Inl terminated \<and>
    trace (snd (snd (kick_send P L tx w))) = trace w @ [Alloc, Alloc, Std_terminate]"
proof -
  let ?g = "tx_group L tx"
  obtain f fs where q: "tx_frame_queue tx = f # fs"
    using assms(5) by (cases "tx_frame_queue tx") auto
  have g: "wf_group ?g" and f: "out_ok ?g f"
    using assms(1) q by (simp_all add: tx_inv_def)
  obtain h where h: "create_frame_header P ?g f = Inr h"
    using create_frame_header_Inr [OF g f assms(2)] by blast
  have sp: "get_buffer ?g (fr_bid f) (Some (fr_size f)) =
      Inr \<lparr>sp_off = buffer_offset ?g (fr_bid f), sp_len = unat (fr_size f)\<rparr>"
    using f by (simp add: get_buffer_Inr [OF g] out_ok_def)
  show ?thesis
    using assms(3,4,6,7) q h sp
    by (simp add: kick_send_def start_frame_def alloc_def call_def send_frame_def rest_segments_def push_segment_def
        wire_size_def)
qed

definition queued_tx :: transmitter where
  "queued_tx = (st_tx small_system)\<lparr>tx_frame_queue := [\<lparr>fr_bid = 0, fr_size = 1\<rparr>]\<rparr>"

theorem transmitter_can_terminate_witness:
  "fst (kick_send (friendly\<lparr>sys := (\<lambda>tr. if length tr = 2 then 1 else 0)\<rparr>) (st_links small_system) queued_tx
     initial_world) = Inl terminated"
proof -
  let ?P = "friendly\<lparr>sys := (\<lambda>tr. if length tr = 2 then 1 else 0)\<rparr>"
  have idle: "tx_inv (st_links small_system) (st_tx small_system)"
    using tx_reachable_inv [OF small_reachable(1) wf_friendly_cpu] by (simp add: st_inv_def tx_idle_def)
  have cur: "tx_current (st_tx small_system) = None" "\<not> tx_send_in_progress (st_tx small_system)"
    by code_simp+
  have "out_ok (tx_group (st_links small_system) (st_tx small_system)) \<lparr>fr_bid = 0, fr_size = 1\<rparr>"
    using small_group by (simp add: out_ok_def st_group_def word_less_nat_alt word_le_nat_alt)
  then have "tx_inv (st_links small_system) queued_tx"
    using idle cur by (simp add: tx_inv_def queued_tx_def)
  from transmitter_can_terminate [OF this, of ?P initial_world] show ?thesis
    using cur by (simp add: queued_tx_def initial_world_def wf_sse42_cpu)
qed

end
