(* ===== verification/Wire_Link.thy ===== *)
theory Wire_Link
  imports Receiver_System Transmitter_System
begin

text \<open>
  Two ends of a connection: a transmitter, a socket that delivers in order the bytes that it took,
  and a receiver. What is proved of each end against the wire protocol composes.
\<close>

text \<open>The bytes that have arrived are a part of those that were sent.\<close>

definition carries :: "tx_system \<Rightarrow> rx_system \<Rightarrow> bool" where
  "carries t r \<longleftrightarrow> take (length (sy_received r)) (st_sent t) = sy_received r"

lemma sent_refines:
  "tx_reachable P s \<Longrightarrow> wf_cpu (processor P) \<Longrightarrow>
   st_sent s @ unsent (st_links s) (st_tx s) = encode_stream (st_packets s)"
  using tx_reachable_inv [of P s] by (simp add: st_inv_def)

lemma received_refines:
  "rx_reachable P s \<Longrightarrow> wf_cpu (processor P) \<Longrightarrow>
   decode_stream (sy_mtu s) (sy_received s) =
     (sy_written s @ payloads (sy_links s) (sy_rx s), undecoded (sy_links s) (sy_rx s), None)"
  using reachable_inv [of P s] by (simp add: sys_inv_def)

text \<open>A part of an encoded stream decodes to the first packets.\<close>

lemma decode_part:
  assumes "\<forall>p \<in> set ps. packet_ok mtu p" and "bs @ rest = encode_stream ps"
    and "decode_stream mtu bs = (qs, un, None)"
  shows "\<exists>later. ps = qs @ later" and "rest = [] \<Longrightarrow> qs = ps \<and> un = []"
proof -
  have whole: "decode_stream mtu (bs @ rest) = (ps, [], None)"
    using decode_encode_frames [OF assms(1), of "[]"]
    by (simp add: assms(2) encode_stream_def decoded_def decode_rest_def decode_error_def decode_short wire_size_def)
  have "decode_stream mtu (bs @ rest) = (qs @ decoded mtu (un @ rest), decode_rest mtu (un @ rest), decode_error mtu (un @ rest))"
    using decode_append [of mtu bs rest] assms(3) by (simp add: decoded_def decode_rest_def decode_error_def)
  with whole show "\<exists>later. ps = qs @ later"
    by auto
  show "rest = [] \<Longrightarrow> qs = ps \<and> un = []"
    using whole assms(3) by simp
qed

text \<open>
  Packets arrive. Between a transmitter and a receiver in any reachable states, with any
  delays, partial sends, and splits of the stream, the packets that the receiver has written to
  its device, and those that wait for it, are the first packets that the transmitter read from
  its own, unchanged and in order; when every byte has arrived, they are all of them and nothing
  is left over. The bytes sent so far are never rejected.
\<close>

theorem packets_arrive:
  assumes "tx_reachable P t" and "wf_cpu (processor P)" and "rx_reachable Q r" and "wf_cpu (processor Q)"
    and "carries t r" and "\<forall>p \<in> set (st_packets t). packet_ok (sy_mtu r) p"
  shows "(\<exists>later. st_packets t = (sy_written r @ payloads (sy_links r) (sy_rx r)) @ later) \<and>
    (sy_received r = encode_stream (st_packets t) \<longrightarrow>
       sy_written r @ payloads (sy_links r) (sy_rx r) = st_packets t \<and> undecoded (sy_links r) (sy_rx r) = [])"
proof -
  let ?n = "length (sy_received r)"
  note dec = received_refines [OF assms(3,4)]
  have "st_sent t = sy_received r @ drop ?n (st_sent t)"
    using assms(5) append_take_drop_id [of ?n "st_sent t"] by (simp add: carries_def)
  then have "sy_received r @ drop ?n (st_sent t) @ unsent (st_links t) (st_tx t) = encode_stream (st_packets t)"
    using sent_refines [OF assms(1,2)] by (metis append_assoc)
  from decode_part(1) [OF assms(6) this dec] show ?thesis
    using decode_part(2) [OF assms(6) _ dec, of "[]"] by simp
qed

text \<open>The example transmitter after the socket has taken the whole frame.\<close>

definition small_sent :: "unit result \<times> transmitter \<times> world" where
  "small_sent = tx_handle_cqe friendly (st_links small_next) (mk_cqe SEND 17 None False) (st_tx small_next) (st_world small_next)"

definition small_done :: tx_system where
  "small_done = small_next\<lparr>st_tx := fst (snd small_sent), st_world := snd (snd small_sent),
     st_free := st_free small_next \<union> tx_given_back small_next (snd (snd small_sent)),
     st_sent := st_sent small_next @ take 17 (in_flight (st_links small_next) (st_tx small_next))\<rparr>"

lemma small_in_flight: "in_flight (st_links small_next) (st_tx small_next) = encode_stream [[7]]"
proof -
  have inv: "tx_inv (st_links small_next) (st_tx small_next)" "flight_ok (st_links small_next) (st_tx small_next)"
    using tx_reachable_inv [OF small_reachable(2) wf_friendly_cpu] small_next_facts(1)
    by (simp_all add: st_inv_def tx_idle_def)
  then obtain st where st: "tx_current (st_tx small_next) = Some st"
    by (auto simp: flight_ok_def)
  have "unsent (st_links small_next) (st_tx small_next) = encode_stream [[7]]"
    using sent_refines [OF small_reachable(2) wf_friendly_cpu] by (simp add: small_next_facts)
  then show ?thesis
    by (simp add: unsent_def st flight_bytes [OF inv st] small_next_facts)
qed

lemma small_sent_ok: "fst small_sent = Inr ()"
proof -
  let ?L = "st_links small_next" and ?tx = "st_tx small_next"
  have inv: "tx_inv ?L ?tx" "flight_ok ?L ?tx"
    using tx_reachable_inv [OF small_reachable(2) wf_friendly_cpu] small_next_facts(1)
    by (simp_all add: st_inv_def tx_idle_def)
  then obtain st where st: "tx_current ?tx = Some st"
    by (auto simp: flight_ok_def)
  have f: "cf_frame st = \<lparr>fr_bid = 0, fr_size = 1\<rparr>" "out_ok (tx_group ?L ?tx) (cf_frame st)" "wf_group (tx_group ?L ?tx)"
    using inv(1) st small_next_facts(3) by (auto simp: tx_inv_def)
  have "length (in_flight ?L ?tx) = 17"
    by (simp add: small_in_flight encode_stream_def encode_frame_def wire_size_def)
  then have "cf_bytes_sent st = 0"
    using wire_parts(2) [OF f(3,2)] by (simp add: flight_bytes [OF inv st] f(1) wire_size_def)
  moreover have "return_buffer friendly (tx_group ?L ?tx) 0 w =
      (Inr (), log_call (Buf_ring_advance (bg_bgid (tx_group ?L ?tx)) 1) (log_call (Buf_ring_add
        (bg_bgid (tx_group ?L ?tx)) (buffer_offset (tx_group ?L ?tx) 0) (unat (bg_buffer_size (tx_group ?L ?tx))) 0
        (bg_mask (tx_group ?L ?tx)) 0) w))" for w
    using f by (intro return_buffer_Inr) (simp_all add: out_ok_def)
  moreover have "size_of_s32 (17 :: s32) = 17"
    by (subst size_of_s32_int) simp_all
  ultimately show ?thesis
    using inv(1) st f(1) small_next_facts
    by (simp add: small_sent_def tx_handle_cqe_def handle_send_cqe_def Let_def cqe_ok_def tx_inv_def book_sent_def
        tx_rearm_def kick_send_def wire_size_def)
qed

lemma small_done_reachable: "tx_reachable friendly small_done"
proof -
  have h: "small_sent = (Inr (), fst (snd small_sent), snd (snd small_sent))"
    using small_sent_ok by (metis prod.collapse)
  have "length (encode_stream [[7]]) = 17"
    by (simp add: encode_stream_def encode_frame_def wire_size_def)
  then have "tx_step friendly small_next small_done"
    unfolding small_done_def
    by (intro tx_step.Sent [where n = 17 and r = 17 and m = False and u = "()"])
      (use h small_next_facts(1) small_in_flight in \<open>simp_all add: small_sent_def\<close>)
  with small_reachable(2) show ?thesis
    by (rule tx_reachable.Step)
qed

theorem packets_arrive_witness:
  "tx_reachable friendly small_done \<and> rx_reachable friendly example_next \<and>
   sy_written example_next @ payloads (sy_links example_next) (sy_rx example_next) = st_packets small_done \<and>
   st_packets small_done = [[7]]"
proof -
  have "length (encode_stream [[7]]) = 17"
    by (simp add: encode_stream_def encode_frame_def wire_size_def)
  then have sent: "st_sent small_done = encode_stream [[7]]" "st_packets small_done = [[7]]"
    by (simp_all add: small_done_def small_in_flight small_next_facts)
  have rec: "sy_received example_next = encode_stream [[7]]" and mtu: "sy_mtu example_next = 1400"
    by (simp_all add: example_next_def example_system_def example_bytes_def sy_mtu_def example_links_def
        example_tun_def get_mtu_def)
  have "carries small_done example_next" "\<forall>p \<in> set (st_packets small_done). packet_ok (sy_mtu example_next) p"
    by (simp_all add: carries_def sent rec mtu packet_ok_def)
  from packets_arrive [OF small_done_reachable wf_friendly_cpu example_reachable(2) friendly_cpu this] show ?thesis
    using small_done_reachable example_reachable(2) by (simp add: sent rec)
qed

end
