(* ===== verification/Fd_Balance.thy ===== *)
theory Fd_Balance
  imports Socket
begin

text \<open>
  The balance of descriptors over a run of the program: what the calls have opened, what they have
  closed, and what is held in between. A function that opens descriptors is balanced when, on every
  path, those that it does not hand to its caller are closed, once.
\<close>

definition opened_by :: "platform \<Rightarrow> lib_call list \<Rightarrow> lib_call \<Rightarrow> int multiset" where
  "opened_by P tr c = (case c of
      Open_tun \<Rightarrow> if sys P tr \<ge> 0 then {#sys P tr#} else {#}
    | Sys_socket f t p \<Rightarrow> if sys P tr \<ge> 0 then {#sys P tr#} else {#}
    | Sys_accept fd fl \<Rightarrow> if sys P tr \<ge> 0 then {#sys P tr#} else {#}
    | Socketpair \<Rightarrow> if sys P tr \<ge> 0 then {#int (fst (pair_fd P tr)), int (snd (pair_fd P tr))#} else {#}
    | _ \<Rightarrow> {#})"

definition opened_fds :: "platform \<Rightarrow> world \<Rightarrow> int multiset" where
  "opened_fds P w = (\<Sum>i \<leftarrow> [0..<length (trace w)]. opened_by P (take (Suc i) (trace w)) (trace w ! i))"

definition balanced :: "platform \<Rightarrow> world \<Rightarrow> int multiset \<Rightarrow> world \<Rightarrow> int multiset \<Rightarrow> bool" where
  "balanced P w held w' held' \<longleftrightarrow>
     opened_fds P w' + closed_fds w + held = opened_fds P w + closed_fds w' + held'"

definition neutral :: "platform \<Rightarrow> lib_call \<Rightarrow> bool" where
  "neutral P c \<longleftrightarrow> closed_fd c = {#} \<and> (\<forall>tr. opened_by P tr c = {#})"

named_theorems balance \<open>balances of the operations, as elimination rules of their equations\<close>

lemma opened_log_call [simp]: "opened_fds P (log_call c w) = opened_fds P w + opened_by P (trace w @ [c]) c"
proof -
  have "opened_by P (take (Suc i) (trace w @ [c])) ((trace w @ [c]) ! i) = opened_by P (take (Suc i) (trace w)) (trace w ! i)"
    if "i \<in> set [0..<length (trace w)]" for i
    using that by (simp add: nth_append)
  then have "(\<Sum>i \<leftarrow> [0..<length (trace w)]. opened_by P (take (Suc i) (trace w @ [c])) ((trace w @ [c]) ! i)) = opened_fds P w"
    unfolding opened_fds_def by (intro arg_cong [of _ _ sum_list] map_cong refl)
  then show ?thesis
    by (simp add: opened_fds_def)
qed

lemma balanced_refl [simp]: "balanced P w h w h"
  by (simp add: balanced_def)

lemma balanced_trans [trans]:
  assumes "balanced P w h w' h'" "balanced P w' h' w'' h''"
  shows "balanced P w h w'' h''"
proof -
  have "count (opened_fds P w'' + closed_fds w + h) x = count (opened_fds P w + closed_fds w'' + h'') x" for x
    using arg_cong [OF assms(1) [unfolded balanced_def], of "\<lambda>m. count m x"]
      arg_cong [OF assms(2) [unfolded balanced_def], of "\<lambda>m. count m x"] by simp
  then show ?thesis
    by (simp add: balanced_def multiset_eq_iff)
qed

lemma balanced_frame: "balanced P w {#} w' {#} \<Longrightarrow> balanced P w h w' h"
  by (simp add: balanced_def)

lemma balanced_neutral: "neutral P c \<Longrightarrow> balanced P w h (log_call c w) h"
  by (simp add: balanced_def neutral_def)

lemma balanced_close: "balanced P w (add_mset fd h) (log_call (Close_fd fd) w) h"
  by (simp add: balanced_def opened_by_def)

text \<open>
  The rules of the collection \<open>balance\<close> chain backwards: what was balanced before a call is balanced after it.
\<close>

lemma balanced_then: "neutral P c \<Longrightarrow> balanced P w0 h0 w h \<Longrightarrow> balanced P w0 h0 (log_call c w) h"
  by (auto intro: balanced_trans balanced_neutral)

lemma neutral_simps [simp]:
  "neutral P (Sys_connect fd a)" "neutral P (Sys_bind fd a)" "neutral P (Sys_listen fd n)" "neutral P (Sys_reuseaddr fd)"
  "neutral P (Sys_getsockname fd)" "neutral P (Sys_getpeername fd)" "neutral P (Sys_send fd bs fl)" "neutral P (Sys_recv fd k fl)"
  "neutral P (Sys_getaddrinfo h s)" "neutral P Sys_freeaddrinfo" "neutral P (Ioctl_tunsetiff fd s)" "neutral P (If_nametoindex s)"
  "neutral P (Bind_netlink fd)" "neutral P (Sendmsg_netlink fd bs)" "neutral P Std_terminate" "neutral P Undefined_behaviour"
  "neutral P Alloc" "neutral P (Write_stdout s)" "neutral P (Write_stderr s)"
  by (simp_all add: neutral_def opened_by_def)

lemma balanced_fields [simp]:
  "opened_fds P (w\<lparr>nl_seq := s\<rparr>) = opened_fds P w" "closed_fds (w\<lparr>nl_seq := s\<rparr>) = closed_fds w"
  by (simp_all add: opened_fds_def closed_fds_def)

definition sock_held :: "socket \<Rightarrow> int multiset" where
  "sock_held s = held_by (Some (sock_fd s))"

lemma sock_held_simps [simp]:
  "sock_held socket_default = {#}" "sock_held (make_socket fd f) = (if fd \<ge> 0 then {#fd#} else {#})"
  by (simp_all add: sock_held_def socket_default_def make_socket_def)

section \<open>Objects that own descriptors\<close>

text \<open>
  What the program relies on of every class that owns descriptors: its end closes what it holds, a move leaves
  the source with nothing, and a move assignment ends what the target held before.
\<close>

locale fd_owner =
  fixes P :: platform and held :: "'a \<Rightarrow> int multiset" and destroy :: "'a \<Rightarrow> world \<Rightarrow> world"
    and move :: "'a \<Rightarrow> 'a \<times> 'a" and move_assign :: "'a \<Rightarrow> 'a \<Rightarrow> world \<Rightarrow> 'a \<times> 'a \<times> world"
  assumes end_closes: "balanced P w (h + held x) (destroy x w) h"
    and move_held: "held (fst (move x)) = held x" "held (snd (move x)) = {#}"
    and assign_held: "move_assign x y w = (x', y', w') \<Longrightarrow> held x' = held y \<and> held y' = {#}"
    and assign_closes: "move_assign x y w = (x', y', w') \<Longrightarrow> balanced P w (h + held x) w' h"
begin

lemma ended: "balanced P w0 h0 w (h + held x) \<Longrightarrow> balanced P w0 h0 (destroy x w) h"
  by (rule balanced_trans [OF _ end_closes])

lemma ended_last: "balanced P w0 h0 w (held x) \<Longrightarrow> balanced P w0 h0 (destroy x w) {#}"
  using ended [of w0 h0 w "{#}" x] by simp

lemma ended_empty: "held x = {#} \<Longrightarrow> balanced P w0 h0 w h \<Longrightarrow> balanced P w0 h0 (destroy x w) h"
  using ended [of w0 h0 w h x] by simp

text \<open>The usual way to keep a result: it is moved into a variable, and what is left of it ends.\<close>

lemma taken_over:
  assumes "move_assign x y w = (x', y', w')" and "balanced P w0 h0 w (h + held x + held y)"
  shows "balanced P w0 h0 (destroy y' w') (h + held x')"
proof -
  have "balanced P w (h + held y + held x) w' (h + held y)"
    using assms(1) by (rule assign_closes)
  moreover have "h + held x + held y = h + held y + held x"
    by (simp add: ac_simps)
  ultimately have "balanced P w0 h0 w' (h + held y)"
    using balanced_trans assms(2) by metis
  then show ?thesis
    using ended_empty assign_held [OF assms(1)] by simp
qed

lemma moved_out: "balanced P w0 h0 w (h + held x) \<Longrightarrow> balanced P w0 h0 (destroy (snd (move x)) w) (h + held (fst (move x)))"
  using ended_empty move_held by simp

end

interpretation owned_fd: fd_owner P "\<lambda>d. held_by (Some d)" fd_destroy fd_move fd_move_assign for P
proof
  show "balanced P w (h + held_by (Some x)) (fd_destroy x w) h" for w h x
    by (auto simp: fd_destroy_def fd_close_def fd_reset_def held_by_def fd_is_valid_def invalid_fd_def balanced_close)
  show "balanced P w (h + held_by (Some x)) w' h" if "fd_move_assign x y w = (x', y', w')" for w h x y x' y' w'
    using that by (auto simp: fd_move_assign_def fd_close_def fd_reset_def held_by_def fd_is_valid_def invalid_fd_def balanced_close
        split: if_splits)
qed (auto simp: fd_move_def fd_move_assign_def held_by_def fd_is_valid_def invalid_fd_def split: prod.splits)

interpretation owned_socket: fd_owner P sock_held socket_destroy socket_move socket_move_assign for P
proof
  show "balanced P w (h + sock_held x) (socket_destroy x w) h" for w h x
    by (auto simp: socket_destroy_eq sock_held_def held_by_def socket_is_valid_def sock_get_def fd_get_def balanced_close)
  show "balanced P w (h + sock_held x) w' h" if "socket_move_assign x y w = (x', y', w')" for w h x y x' y' w'
    using that by (auto simp: socket_move_assign_eq sock_held_def held_by_def socket_is_valid_def sock_get_def fd_get_def balanced_close)
qed (auto simp: socket_move_assign_eq socket_move_def sock_held_def socket_default_def held_by_def fd_move_def fd_is_valid_def
    fd_default_def invalid_fd_def sock_get_def fd_get_def)

lemma open_balance:
  "balanced P w h (log_call Open_tun w) (h + held_by (Some (fd_new (sys P (trace w @ [Open_tun])))))"
  "balanced P w h (log_call (Sys_socket f t p) w) (h + held_by (Some (fd_new (sys P (trace w @ [Sys_socket f t p])))))"
  "balanced P w h (log_call (Sys_accept l fl) w) (h + held_by (Some (fd_new (sys P (trace w @ [Sys_accept l fl])))))"
  by (auto simp: balanced_def opened_by_def)

lemma create_socket_balance:
  assumes "create_socket P family fl w = (r, w')"
  shows "balanced P w {#} w' (case r of Inl _ \<Rightarrow> {#} | Inr s \<Rightarrow> sock_held s)"
  using assms by (auto simp: create_socket_def call_def balanced_def opened_by_def Let_def split: if_splits)

lemma terminate_balance: "terminate w = (r, w') \<Longrightarrow> balanced P w h w' h"
  by (auto simp: terminate_def intro: balanced_neutral)

end
