(* ===== verification/Socks5.thy ===== *)
theory Socks5
  imports Fd_Balance
begin

text \<open>
  The SOCKS5 client (\<open>src/net/connection/socks5.cpp\<close>): sending and receiving all of a buffer over a
  socket that may take less, the request, the reply. The last sections read the bytes that a socket
  has carried off the trace and compare them with the protocol.
\<close>

section \<open>Sending and receiving all of a buffer\<close>

definition MSG_NOSIGNAL :: int where "MSG_NOSIGNAL = 0x4000"

function send_loop :: "platform \<Rightarrow> int \<Rightarrow> u8 list \<Rightarrow> world \<Rightarrow> unit result \<times> world" where
  "send_loop P fd data w =
     (if data = [] then (Inr (), w)
      else (let n = fst (call P (Sys_send fd data MSG_NOSIGNAL) w); w = snd (call P (Sys_send fd data MSG_NOSIGNAL) w)
            in if n = 0 then (Inl (Error SendReturnedZero), w)
               else if n < 0 then (Inl (Error_no SendFailed (errno_of P (trace w))), w)
               else send_loop P fd (drop (nat n) data) w))"
  by pat_completeness auto
termination
  by (relation "measure (\<lambda>(P, fd, data, w). length data)") auto

definition socket_send :: "platform \<Rightarrow> socket \<Rightarrow> u8 list \<Rightarrow> world \<Rightarrow> unit result \<times> world" where
  "socket_send P s data w =
     (if data = [] then (Inr (), w)
      else if \<not> socket_is_valid s then (Inl (Error InvalidSocket), w)
      else send_loop P (sock_get s) data w)"

text \<open>
  \<open>recv\<close> takes at most what it is asked for. The peer's end closes the socket; the loop returns what
  it received, the socket and the world.
\<close>

definition recv_part :: "platform \<Rightarrow> nat \<Rightarrow> nat \<Rightarrow> lib_call list \<Rightarrow> u8 list" where
  "recv_part P n room tr = take (min n room) (answer_bytes P tr @ replicate n 0)"

lemma length_recv_part [simp]: "length (recv_part P n room tr) = min n room"
  by (simp add: recv_part_def)

function recv_loop :: "platform \<Rightarrow> nat \<Rightarrow> u8 list \<Rightarrow> socket \<Rightarrow> world \<Rightarrow> u8 list result \<times> socket \<times> world" where
  "recv_loop P room acc s w =
     (if length acc \<ge> room then (Inr acc, s, w)
      else (let c = Sys_recv (sock_get s) (room - length acc) 0; n = fst (call P c w); w = snd (call P c w)
            in if n = 0 then (let (s, w) = socket_close s w in (Inl (Error PeerClosed), s, w))
               else if n < 0 then (Inl (Error_no RecvFailed (errno_of P (trace w))), s, w)
               else recv_loop P room (acc @ recv_part P (nat n) (room - length acc) (trace w)) s w))"
  by pat_completeness auto
termination
  by (relation "measure (\<lambda>(P, room, acc, s, w). room - length acc)") auto

declare send_loop.simps [simp del] recv_loop.simps [simp del]

definition socket_recv :: "platform \<Rightarrow> nat \<Rightarrow> socket \<Rightarrow> world \<Rightarrow> u8 list result \<times> socket \<times> world" where
  "socket_recv P room s w =
     (if room = 0 then (Inr [], s, w)
      else if \<not> socket_is_valid s then (Inl (Error InvalidSocket), s, w)
      else recv_loop P room [] s w)"

section \<open>SOCKS5\<close>

definition method_request :: "u8 list" where "method_request = [5, 1, 0]"

text \<open>
  The buffer of 262 bytes in which the request is built, and its length. An invalid socket address
  makes \<open>get\<close> throw, a Unix address is refused.
\<close>

definition request_buffer :: "u8 list" where "request_buffer = [5, 1, 0] @ replicate 259 0"

datatype socks_request = Request "u8 list" nat | Unsupported | Throws

definition connect_request :: "address \<Rightarrow> socks_request" where
  "connect_request a =
     (case a of
        Host_pair h \<Rightarrow>
         (let host = map byte_of_char (hp_hostname h); n = length host;
              buf = store_at 3 [3] request_buffer;
              buf = store_at 4 [of_nat n] buf;
              buf = store_at 5 host buf;
              buf = store_at (5 + n) (htons (hp_port h)) buf
          in Request buf (4 + 1 + n + 2))
      | Sock_address s \<Rightarrow>
         if ss_family s = AF_INET then
           (case address_get s of
              Inl _ \<Rightarrow> Throws
            | Inr s \<Rightarrow> Request (store_at 8 (port_bytes s) (store_at 4 (ip4_bytes s) (store_at 3 [1] request_buffer))) (4 + 4 + 2))
         else if ss_family s = AF_INET6 then
           (case address_get s of
              Inl _ \<Rightarrow> Throws
            | Inr s \<Rightarrow> Request (store_at 20 (port_bytes s) (store_at 4 (ip6_bytes s) (store_at 3 [4] request_buffer))) (4 + 16 + 2))
         else Unsupported)"

text \<open>Reading the reply to the connect command.\<close>

definition read_reply :: "platform \<Rightarrow> socket \<Rightarrow> world \<Rightarrow> unit result \<times> socket \<times> world" where
  "read_reply P s w =
     (case socket_recv P 4 s w of
        (Inl e, s, w) \<Rightarrow> (Inl e, s, w)
      | (Inr r, s, w) \<Rightarrow>
         if r ! 1 \<noteq> 0 then (Inl (Error SocksConnectFailed), s, w)
         else (let rest = (\<lambda>n s w. case socket_recv P n s w of (Inl e, s, w) \<Rightarrow> (Inl e, s, w) | (Inr _, s, w) \<Rightarrow> (Inr (), s, w))
               in if r ! 3 = 1 then rest (4 + 2) s w
                  else if r ! 3 = 4 then rest (16 + 2) s w
                  else if r ! 3 = 3 then
                    (case socket_recv P 1 s w of
                       (Inl e, s, w) \<Rightarrow> (Inl e, s, w)
                     | (Inr l, s, w) \<Rightarrow> rest (unat (l ! 0) + 2) s w)
                  else (Inl (Error SocksUnsupportedTargetFamily), s, w)))"

definition socks5_connect :: "platform \<Rightarrow> address \<Rightarrow> socket \<Rightarrow> world \<Rightarrow> unit result \<times> socket \<times> world" where
  "socks5_connect P a s w =
     (if (case a of Host_pair h \<Rightarrow> length (hp_hostname h) > 255 | _ \<Rightarrow> False) then (Inl (Error SocksHostnameTooLong), s, w)
      else (case socket_send P s method_request w of
        (Inl e, w) \<Rightarrow> (Inl e, s, w)
      | (Inr _, w) \<Rightarrow>
         (case socket_recv P 2 s w of
            (Inl e, s, w) \<Rightarrow> (Inl e, s, w)
          | (Inr m, s, w) \<Rightarrow>
             if m ! 1 = 0xFF then (Inl (Error SocksAuthMethodUnsupported), s, w)
             else if m ! 1 \<noteq> 0 then (Inl (Error SocksAuthMethodUnsupported), s, w)
             else (case connect_request a of
                Throws \<Rightarrow> (case terminate w of (r, w) \<Rightarrow> (r, s, w))
              | Unsupported \<Rightarrow> (Inl (Error SocksUnsupportedTargetFamily), s, w)
              | Request buf len \<Rightarrow>
                 (case socket_send P s (take len buf) w of
                    (Inl e, w) \<Rightarrow> (Inl e, s, w)
                  | (Inr _, w) \<Rightarrow> read_reply P s w)))))"

section \<open>What a socket has carried\<close>

text \<open>
  The bytes that the calls of a trace have put into a connection and taken out of it: a send or a
  receive that returned \<open>n\<close> has moved the first \<open>n\<close>.
\<close>

definition sent_by :: "platform \<Rightarrow> int \<Rightarrow> lib_call list \<Rightarrow> lib_call \<Rightarrow> u8 list" where
  "sent_by P fd tr c = (case c of
      Sys_send d data fl \<Rightarrow> if d = fd \<and> sys P tr > 0 then take (nat (sys P tr)) data else []
    | _ \<Rightarrow> [])"

definition received_by :: "platform \<Rightarrow> int \<Rightarrow> lib_call list \<Rightarrow> lib_call \<Rightarrow> u8 list" where
  "received_by P fd tr c = (case c of
      Sys_recv d room fl \<Rightarrow> if d = fd \<and> sys P tr > 0 then recv_part P (nat (sys P tr)) room tr else []
    | _ \<Rightarrow> [])"

definition over_trace :: "(lib_call list \<Rightarrow> lib_call \<Rightarrow> 'a list) \<Rightarrow> lib_call list \<Rightarrow> 'a list" where
  "over_trace f tr = concat (map (\<lambda>i. f (take (Suc i) tr) (tr ! i)) [0..<length tr])"

lemma over_trace_Nil [simp]: "over_trace f [] = []"
  by (simp add: over_trace_def)

lemma over_trace_snoc [simp]: "over_trace f (tr @ [c]) = over_trace f tr @ f (tr @ [c]) c"
proof -
  have "f (take (Suc i) (tr @ [c])) ((tr @ [c]) ! i) = f (take (Suc i) tr) (tr ! i)" if "i \<in> set [0..<length tr]" for i
    using that by (simp add: nth_append)
  then have "concat (map (\<lambda>i. f (take (Suc i) (tr @ [c])) ((tr @ [c]) ! i)) [0..<length tr]) = over_trace f tr"
    unfolding over_trace_def by (intro arg_cong [of _ _ concat] map_cong refl)
  then show ?thesis
    by (simp add: over_trace_def)
qed

definition sent :: "platform \<Rightarrow> int \<Rightarrow> world \<Rightarrow> u8 list" where
  "sent P fd w = over_trace (sent_by P fd) (trace w)"

definition received :: "platform \<Rightarrow> int \<Rightarrow> world \<Rightarrow> u8 list" where
  "received P fd w = over_trace (received_by P fd) (trace w)"

lemma traffic_log_call [simp]:
  "sent P fd (log_call c w) = sent P fd w @ sent_by P fd (trace w @ [c]) c"
  "received P fd (log_call c w) = received P fd w @ received_by P fd (trace w @ [c]) c"
  by (simp_all add: sent_def received_def)

text \<open>Sending and receiving a whole buffer: exactly its bytes, however the system splits them.\<close>

lemma send_loop_traffic:
  "send_loop P fd data w = (Inr (), w') \<Longrightarrow> sent P fd w' = sent P fd w @ data \<and> received P fd w' = received P fd w"
proof (induction P fd data w arbitrary: w' rule: send_loop.induct)
  case (1 P fd data w)
  then show ?case
    by (subst (asm) (2) send_loop.simps) (auto simp: sent_by_def received_by_def Let_def split: if_splits)
qed

lemma socket_send_traffic:
  assumes "socket_send P s data w = (Inr (), w')"
  shows "sent P (sock_get s) w' = sent P (sock_get s) w @ data" "received P (sock_get s) w' = received P (sock_get s) w"
  using assms send_loop_traffic by (auto simp: socket_send_def split: if_splits)

lemma recv_loop_traffic:
  assumes "recv_loop P n acc s w = (Inr r, s', w')" and "length acc \<le> n"
  shows "s' = s \<and> length r = n \<and> (\<exists>d. r = acc @ d \<and> received P (sock_get s) w' = received P (sock_get s) w @ d) \<and>
    sent P (sock_get s) w' = sent P (sock_get s) w"
  using assms
proof (induction P n acc s w arbitrary: r s' w' rule: recv_loop.induct)
  case (1 P n acc s w)
  let ?c = "Sys_recv (sock_get s) (n - length acc) 0"
  show ?case
  proof (cases "n \<le> length acc")
    case True
    with 1(2,3) show ?thesis by (subst (asm) recv_loop.simps) auto
  next
    case False
    define k where "k = sys P (trace w @ [?c])"
    define part where "part = recv_part P (nat k) (n - length acc) (trace w @ [?c])"
    have k: "k > 0" and r: "recv_loop P n (acc @ part) s (log_call ?c w) = (Inr r, s', w')"
      using 1(2) False by (subst (asm) recv_loop.simps, auto simp: Let_def k_def part_def split: if_splits prod.splits)+
    have "length (acc @ part) \<le> n"
      using False by (simp add: part_def)
    with 1(1) [OF False refl refl refl, of r s' w'] k r show ?thesis
      by (auto simp: k_def part_def received_by_def sent_by_def)
  qed
qed

lemma socket_recv_traffic:
  assumes "socket_recv P n s w = (Inr r, s', w')"
  shows "s' = s" "length r = n" "received P (sock_get s) w' = received P (sock_get s) w @ r"
    "sent P (sock_get s) w' = sent P (sock_get s) w"
  using assms recv_loop_traffic [of P n "[]" s w r s' w'] by (auto simp: socket_recv_def split: if_splits)

section \<open>The protocol\<close>

text \<open>
  The request of RFC 1928 as a server reads it: version, command, a reserved byte, then the kind of
  the destination, the destination and the port, and nothing after it.
\<close>

datatype socks_dest = Domain_name "u8 list" | Ip4_dest "u8 list" | Ip6_dest "u8 list"

definition read_dest :: "u8 \<Rightarrow> u8 list \<Rightarrow> (socks_dest \<times> nat) option" where
  "read_dest kind bs =
     (if kind = 1 \<and> length bs = 6 then Some (Ip4_dest (take 4 bs), ntohs (drop 4 bs))
      else if kind = 4 \<and> length bs = 18 then Some (Ip6_dest (take 16 bs), ntohs (drop 16 bs))
      else if kind = 3 \<and> bs \<noteq> [] \<and> length bs = unat (hd bs) + 3
        then Some (Domain_name (take (unat (hd bs)) (tl bs)), ntohs (drop (unat (hd bs)) (tl bs)))
      else None)"

definition read_request :: "u8 list \<Rightarrow> (socks_dest \<times> nat) option" where
  "read_request bs = (if take 3 bs = [5, 1, 0] \<and> length bs > 3 then read_dest (bs ! 3) (drop 4 bs) else None)"

text \<open>What is asked for, and the bytes that ask for it.\<close>

definition sendable :: "address \<Rightarrow> bool" where
  "sendable a = (case a of Host_pair h \<Rightarrow> length (hp_hostname h) \<le> 255 | Sock_address s \<Rightarrow> length (ss_data s) = 126)"

definition dest_of :: "address \<Rightarrow> socks_dest \<times> nat" where
  "dest_of a = (case a of
      Host_pair h \<Rightarrow> (Domain_name (map byte_of_char (hp_hostname h)), unat (hp_port h))
    | Sock_address s \<Rightarrow> (if ss_family s = AF_INET then Ip4_dest (ip4_bytes s) else Ip6_dest (ip6_bytes s), ntohs (port_bytes s)))"

definition request_bytes :: "address \<Rightarrow> u8 list" where
  "request_bytes a = [5, 1, 0] @ (case a of
      Host_pair h \<Rightarrow> [3, of_nat (length (hp_hostname h))] @ map byte_of_char (hp_hostname h) @ htons (hp_port h)
    | Sock_address s \<Rightarrow> if ss_family s = AF_INET then [1] @ ip4_bytes s @ port_bytes s else [4] @ ip6_bytes s @ port_bytes s)"

lemma ntohs_htons [simp]: "ntohs (htons p) = unat p"
proof -
  have "(le_val (le_bytes 2 p) :: u32) = ucast p"
  proof (rule bit_word_eqI)
    fix n assume "n < LENGTH(32)"
    then show "bit (le_val (le_bytes 2 p) :: u32) n \<longleftrightarrow> bit (ucast p :: u32) n"
      using bit_imp_le_length [of p n] by (cases "n < 16") (auto simp: bit_le_val nth_le_bytes bit_simps)
  qed
  then show ?thesis
    by (simp add: ntohs_def htons_def be_val_def unsigned_ucast_eq take_bit_nat_eq_self unat_less_pow [of p, simplified, THEN order.strict_trans])
qed

lemma connect_request_eq:
  assumes "connect_request a = Request buf len" and "sendable a"
  shows "take len buf = request_bytes a" "length buf = 262" "len \<le> 262"
proof -
  have "take len buf = request_bytes a \<and> length buf = 262 \<and> len \<le> 262"
  proof (cases a)
    case (Host_pair h)
    with assms show ?thesis
      by (auto simp: connect_request_def request_bytes_def sendable_def request_buffer_def store_at_def Let_def
          numeral_eq_Suc)
  next
    case (Sock_address s)
    with assms show ?thesis
      by (auto simp: connect_request_def request_bytes_def sendable_def request_buffer_def store_at_def
          ip4_bytes_def ip6_bytes_def port_bytes_def address_get_def slice_of_def numeral_eq_Suc split: if_splits)
  qed
  then show "take len buf = request_bytes a" "length buf = 262" "len \<le> 262"
    by auto
qed

text \<open>
  C18: the request never overruns its buffer of 262 bytes, and a server that follows the protocol
  reads back from it the very destination and port that were asked for.
\<close>

theorem request_reads_back:
  assumes "connect_request a = Request buf len" and "sendable a"
  shows "length buf = 262 \<and> len \<le> 262 \<and> read_request (take len buf) = Some (dest_of a)"
proof -
  have "read_request (request_bytes a) = Some (dest_of a)"
    using assms by (auto simp: read_request_def read_dest_def request_bytes_def dest_of_def sendable_def ip4_bytes_def
        ip6_bytes_def port_bytes_def unat_of_nat_eq Let_def split: address.splits)
  with connect_request_eq [OF assms] show ?thesis
    by simp
qed

definition example_target :: address where
  "example_target = Host_pair \<lparr>hp_hostname = ''zportal.example'', hp_port = 8080\<rparr>"

lemma example_request: "\<exists>buf. connect_request example_target = Request buf 22"
  by (simp add: connect_request_def example_target_def Let_def)

theorem request_reads_back_witness:
  "\<exists>buf. read_request (take 22 buf) = Some (Domain_name (map byte_of_char ''zportal.example''), 8080)"
proof -
  obtain buf where "connect_request example_target = Request buf 22"
    using example_request by blast
  then have "read_request (take 22 buf) = Some (dest_of example_target)"
    using request_reads_back [of example_target buf 22] by (simp add: sendable_def example_target_def)
  then show ?thesis
    by (auto simp: dest_of_def example_target_def)
qed

text \<open>What the server answers, in full: its choice of a method, then its reply to the request.\<close>

definition method_answer :: "u8 list \<Rightarrow> bool" where
  "method_answer m \<longleftrightarrow> length m = 2 \<and> m ! 1 = 0"

definition complete_reply :: "u8 list \<Rightarrow> bool" where
  "complete_reply r \<longleftrightarrow> length r > 4 \<and> r ! 1 = 0 \<and>
     (r ! 3 = 1 \<and> length r = 4 + 4 + 2 \<or> r ! 3 = 4 \<and> length r = 4 + 16 + 2 \<or>
      r ! 3 = 3 \<and> length r = 4 + 1 + unat (r ! 4) + 2)"

definition complete_answer :: "u8 list \<Rightarrow> bool" where
  "complete_answer bs \<longleftrightarrow> method_answer (take 2 bs) \<and> complete_reply (drop 2 bs)"

lemma read_reply_traffic:
  assumes "read_reply P s w = (Inr (), s', w')"
  shows "s' = s \<and> sent P (sock_get s) w' = sent P (sock_get s) w \<and>
    (\<exists>r. complete_reply r \<and> received P (sock_get s) w' = received P (sock_get s) w @ r)"
proof -
  obtain r w1 where r: "socket_recv P 4 s w = (Inr r, s, w1)" "r ! 1 = 0"
    using assms by (auto simp: read_reply_def Let_def dest!: socket_recv_traffic(1) split: prod.splits sum.splits if_splits)
  note tr = socket_recv_traffic [OF r(1)]
  have nth: "(r @ d) ! 1 = 0" "(r @ d) ! 3 = r ! 3" for d
    using tr r by (simp_all add: nth_append)
  consider (fixed) k d where "r ! 3 = 1 \<and> k = 6 \<or> r ! 3 = 4 \<and> k = 18" "socket_recv P k s w1 = (Inr d, s', w')"
    | (name) l w2 d where "r ! 3 = 3" "socket_recv P 1 s w1 = (Inr l, s, w2)" "socket_recv P (unat (l ! 0) + 2) s w2 = (Inr d, s', w')"
    using assms r by (auto simp: read_reply_def Let_def dest: socket_recv_traffic(1) split: prod.splits sum.splits if_splits)
  then show ?thesis
  proof cases
    case fixed
    note td = socket_recv_traffic [OF fixed(2)]
    have "complete_reply (r @ d)"
      using fixed(1) tr td nth r(2) by (auto simp: complete_reply_def)
    with td tr show ?thesis by auto
  next
    case name
    note tl = socket_recv_traffic [OF name(2)] and td = socket_recv_traffic [OF name(3)]
    have "(r @ l @ d) ! 4 = l ! 0"
      using tr tl by (simp add: nth_append)
    then have "complete_reply (r @ l @ d)"
      using name(1) tr tl td nth r(2) by (auto simp: complete_reply_def)
    with td tl tr show ?thesis by auto
  qed
qed

lemma socks5_connect_traffic:
  assumes "socks5_connect P a s w = (Inr (), s', w')" and "sendable a"
  shows "s' = s \<and> sent P (sock_get s) w' = sent P (sock_get s) w @ [5, 1, 0] @ request_bytes a \<and>
    (\<exists>bs. complete_answer bs \<and> received P (sock_get s) w' = received P (sock_get s) w @ bs)"
proof -
  obtain w1 m w2 buf len w3 where 1: "socket_send P s method_request w = (Inr (), w1)"
    and 2: "socket_recv P 2 s w1 = (Inr m, s, w2)" "m ! 1 = 0"
    and 3: "connect_request a = Request buf len" "socket_send P s (take len buf) w2 = (Inr (), w3)"
    and 4: "read_reply P s w3 = (Inr (), s', w')"
    using assms by (auto simp: socks5_connect_def terminate_def dest: socket_recv_traffic(1) split: prod.splits sum.splits if_splits
        socks_request.splits)
  note t1 = socket_send_traffic [OF 1] and t2 = socket_recv_traffic [OF 2(1)] and t3 = socket_send_traffic [OF 3(2)]
    and t4 = read_reply_traffic [OF 4]
  obtain r where r: "complete_reply r" "received P (sock_get s) w' = received P (sock_get s) w3 @ r"
    using t4 by blast
  have "complete_answer (m @ r)"
    using t2(2) 2(2) r(1) by (simp add: complete_answer_def method_answer_def)
  then show ?thesis
    using t1 t2 t3 t4 r connect_request_eq(1) [OF 3(1) assms(2)] by (auto simp: method_request_def)
qed

section \<open>Balance\<close>

text \<open>On every path the socket passed in is the only descriptor, held or closed.\<close>

lemma send_loop_balance: "send_loop P fd data w = (r, w') \<Longrightarrow> balanced P w h w' h"
proof (induction P fd data w arbitrary: w' rule: send_loop.induct)
  case (1 P fd data w)
  have step: "balanced P w h (log_call (Sys_send fd data MSG_NOSIGNAL) w) h"
    by (rule balanced_neutral) simp
  show ?case
    using 1(2) by (subst (asm) send_loop.simps) (auto simp: Let_def step split: if_splits dest!: 1(1) intro: balanced_trans [OF step])
qed

lemma socket_close_balance: "socket_close s w = (s', w') \<Longrightarrow> balanced P w (sock_held s) w' (sock_held s')"
  using owned_socket.end_closes [of P w "{#}" s]
  by (auto simp: socket_close_eq socket_destroy_eq sock_held_def held_by_def invalid_fd_def fd_is_valid_def)

lemma recv_loop_balance: "recv_loop P n acc s w = (r, s', w') \<Longrightarrow> balanced P w (sock_held s) w' (sock_held s')"
proof (induction P n acc s w arbitrary: r s' w' rule: recv_loop.induct)
  case (1 P n acc s w)
  let ?w = "log_call (Sys_recv (sock_get s) (n - length acc) 0) w"
  have step: "balanced P w (sock_held s) ?w (sock_held s)"
    by (rule balanced_neutral) simp
  from 1(2) have "r = Inr acc \<and> s' = s \<and> w' = w \<or> s' = s \<and> w' = ?w \<or> socket_close s ?w = (s', w') \<or>
      balanced P ?w (sock_held s) w' (sock_held s')"
    using 1(1) by (subst (asm) recv_loop.simps) (auto simp: Let_def split: if_splits prod.splits)
  then show ?case
    using step by (auto intro: balanced_trans [OF step] dest: socket_close_balance [of _ _ _ _ P])
qed

text \<open>In the form in which they chain: what was balanced before is balanced after.\<close>

lemma socket_io_balance [balance]:
  "socket_send P s data w = (r, w') \<Longrightarrow> balanced P w0 h0 w h \<Longrightarrow> balanced P w0 h0 w' h"
  "socket_recv P n s w = (r', s', w') \<Longrightarrow> balanced P w0 h0 w (sock_held s) \<Longrightarrow> balanced P w0 h0 w' (sock_held s')"
  "terminate w = (r'', w') \<Longrightarrow> balanced P w0 h0 w h \<Longrightarrow> balanced P w0 h0 w' h"
  by (auto simp: socket_send_def socket_recv_def split: if_splits
      intro: balanced_trans send_loop_balance recv_loop_balance terminate_balance)

lemma read_reply_balance [balance]:
  "read_reply P s w = (r, s', w') \<Longrightarrow> balanced P w0 h0 w (sock_held s) \<Longrightarrow> balanced P w0 h0 w' (sock_held s')"
  by (auto simp: read_reply_def Let_def split: prod.splits sum.splits if_splits elim!: balance)

lemma socks5_connect_balance [balance]:
  "socks5_connect P a s w = (r, s', w') \<Longrightarrow> balanced P w0 h0 w (sock_held s) \<Longrightarrow> balanced P w0 h0 w' (sock_held s')"
  by (auto simp: socks5_connect_def split: prod.splits sum.splits if_splits socks_request.splits elim!: balance)

end
