(* ===== verification/Connection.thy ===== *)
theory Connection
  imports Socks5
begin

text \<open>
  Making the connection of the tunnel: resolving names (\<open>src/net/resolve.cpp\<close>), connecting, also
  through a chain of SOCKS5 proxies (\<open>src/net/connection/connect.cpp\<close>), listening and accepting (\<open>src/net/connection/listen.cpp\<close>).
\<close>

section \<open>Resolving\<close>

definition EAI_BADFLAGS :: int where "EAI_BADFLAGS = - 1"
definition EAI_NONAME :: int where "EAI_NONAME = - 2"
definition EAI_AGAIN :: int where "EAI_AGAIN = - 3"
definition EAI_FAIL :: int where "EAI_FAIL = - 4"
definition EAI_FAMILY :: int where "EAI_FAMILY = - 6"
definition EAI_SOCKTYPE :: int where "EAI_SOCKTYPE = - 7"
definition EAI_SERVICE :: int where "EAI_SERVICE = - 8"
definition EAI_ADDRFAMILY :: int where "EAI_ADDRFAMILY = - 9"
definition EAI_MEMORY :: int where "EAI_MEMORY = - 10"
definition EAI_SYSTEM :: int where "EAI_SYSTEM = - 11"

definition resolve_error :: "platform \<Rightarrow> int \<Rightarrow> error" where
  "resolve_error P code =
     (if code = EAI_NONAME then Error ResolveNotFound
      else if code = EAI_MEMORY then Error NotEnoughMemory
      else if code = EAI_AGAIN then Error ResolveTemporaryFailure
      else if code = EAI_SYSTEM then Error_msg ResolveSystemError code (gai_strerror (net P) code)
      else if code \<in> {EAI_BADFLAGS, EAI_FAMILY, EAI_SOCKTYPE, EAI_SERVICE, EAI_ADDRFAMILY} then Error ResolveInvalidRequest
      else Error ResolveFailed)"

text \<open>A successful \<open>getaddrinfo\<close> returns a list; reading the head of an empty one is undefined.\<close>

definition resolve :: "platform \<Rightarrow> address \<Rightarrow> world \<Rightarrow> sock_address result \<times> world" where
  "resolve P a w =
     (case a of
        Sock_address s \<Rightarrow> (Inr s, w)
      | Host_pair h \<Rightarrow>
         (let (code, w) = call P (Sys_getaddrinfo (c_str (hp_hostname h)) (decimal (unat (hp_port h)))) w
          in if code \<noteq> 0 then (Inl (resolve_error P code), w)
             else (case answer_addrinfo P (trace w) of
                None \<Rightarrow> undefined_behaviour w
              | Some r \<Rightarrow>
                 (let w = log_call Sys_freeaddrinfo w
                  in (case from_sockaddr (host_order (net P)) (ai_addr r) (ai_addrlen r) of
                        Inl _ \<Rightarrow> (Inl (Error AddressParseFailed), w)
                      | Inr s \<Rightarrow> (Inr s, w))))))"

section \<open>Connecting and listening\<close>

text \<open>The loop over the proxies: each connects to the next one, the last to the target.\<close>

fun socks_chain :: "platform \<Rightarrow> address list \<Rightarrow> address \<Rightarrow> socket \<Rightarrow> world \<Rightarrow> unit result \<times> socket \<times> world" where
  "socks_chain P [] target s w = (Inr (), s, w)"
| "socks_chain P (p # ps) target s w =
     (case socks5_connect P (case ps of [] \<Rightarrow> target | q # _ \<Rightarrow> q) s w of
        (Inl e, s, w) \<Rightarrow> (Inl e, s, w)
      | (Inr _, s, w) \<Rightarrow> socks_chain P ps target s w)"

definition connect_to :: "platform \<Rightarrow> address \<Rightarrow> address list \<Rightarrow> world \<Rightarrow> socket result \<times> world" where
  "connect_to P target proxies w =
     (case resolve P (case proxies of [] \<Rightarrow> target | p # _ \<Rightarrow> p) w of
        (Inl e, w) \<Rightarrow> (Inl e, w)
      | (Inr a, w) \<Rightarrow>
         (case create_socket P (ss_family a) SOCK_CLOEXEC w of
            (Inl e, w) \<Rightarrow> (Inl e, w)
          | (Inr s, w) \<Rightarrow>
             (case address_get a of
                Inl _ \<Rightarrow> (case terminate w of (r, w) \<Rightarrow> (r, socket_destroy s w))
              | Inr a \<Rightarrow>
                 (let (r, w) = call P (Sys_connect (sock_get s) a) w
                  in if r \<noteq> 0 then (Inl (Error_no ConnectFailed (errno_of P (trace w))), socket_destroy s w)
                     else if proxies = [] then (Inr s, w)
                     else (case socks_chain P proxies target s w of
                             (Inl e, s, w) \<Rightarrow> (Inl e, socket_destroy s w)
                           | (Inr _, s, w) \<Rightarrow> (Inr s, w))))))"

definition create_listener :: "platform \<Rightarrow> address \<Rightarrow> world \<Rightarrow> socket result \<times> world" where
  "create_listener P a w =
     (case resolve P a w of
        (Inl e, w) \<Rightarrow> (Inl e, w)
      | (Inr a, w) \<Rightarrow>
         (case create_socket P (ss_family a) SOCK_CLOEXEC w of
            (Inl e, w) \<Rightarrow> (Inl e, w)
          | (Inr s, w) \<Rightarrow>
             (let (r, w) = call P (Sys_reuseaddr (sock_get s)) w
              in if r \<noteq> 0 then (Inl (Error_no SetSockOptFailed (errno_of P (trace w))), socket_destroy s w)
                 else (case address_get a of
                    Inl _ \<Rightarrow> (case terminate w of (r, w) \<Rightarrow> (r, socket_destroy s w))
                  | Inr a \<Rightarrow>
                     (let (r, w) = call P (Sys_bind (sock_get s) a) w
                      in if r \<noteq> 0 then (Inl (Error_no BindFailed (errno_of P (trace w))), socket_destroy s w)
                         else (let (r, w) = call P (Sys_listen (sock_get s) 1) w
                               in if r \<noteq> 0 then (Inl (Error_no ListenFailed (errno_of P (trace w))), socket_destroy s w)
                                  else (Inr s, w)))))))"

definition accept_from :: "platform \<Rightarrow> socket \<Rightarrow> world \<Rightarrow> socket result \<times> world" where
  "accept_from P listener w =
     (if \<not> socket_is_valid listener then (Inl (Error InvalidSocket), w)
      else (let (fd, w) = call P (Sys_accept (sock_get listener) SOCK_CLOEXEC) w
            in if fd < 0 then (Inl (Error_no AcceptFailed (errno_of P (trace w))), w)
               else (Inr (make_socket fd AF_UNSPEC), w)))"

section \<open>Descriptors\<close>

lemma resolve_balance [balance]:
  "resolve P a w = (r, w') \<Longrightarrow> balanced P w0 h0 w h \<Longrightarrow> balanced P w0 h0 w' h"
  by (auto simp: resolve_def call_def Let_def undefined_behaviour_def split: address.splits if_splits option.splits sum.splits prod.splits
      intro!: balanced_then)

lemma socks_chain_balance [balance]:
  "socks_chain P ps target s w = (r, s', w') \<Longrightarrow> balanced P w0 h0 w (sock_held s) \<Longrightarrow> balanced P w0 h0 w' (sock_held s')"
proof (induction P ps target s w arbitrary: s' w' rule: socks_chain.induct)
  case (2 P p ps target s w)
  obtain x s1 w1 where hop: "socks5_connect P (case ps of [] \<Rightarrow> target | q # _ \<Rightarrow> q) s w = (x, s1, w1)"
    by (metis prod_cases3)
  have b: "balanced P w0 h0 w1 (sock_held s1)"
    using hop 2(3) by (auto elim!: balance)
  show ?case
  proof (cases x)
    case (Inr u)
    with hop 2(2) have "socks_chain P ps target s1 w1 = (r, s', w')" by simp
    then show ?thesis
      using 2(1) [OF hop [symmetric] Inr refl _ b] by simp
  qed (use hop 2(2) b in auto)
qed simp

lemma create_socket_balances [balance]:
  "create_socket P f fl w = (Inr s, w') \<Longrightarrow> balanced P w0 h0 w {#} \<Longrightarrow> balanced P w0 h0 w' (sock_held s)"
  "create_socket P f fl w = (Inl e, w') \<Longrightarrow> balanced P w0 h0 w {#} \<Longrightarrow> balanced P w0 h0 w' {#}"
  using create_socket_balance [of P f fl w] by (auto intro: balanced_trans)

text \<open>What a result hands to its caller.\<close>

definition handed :: "socket result \<Rightarrow> int multiset" where
  "handed r = (case r of Inl _ \<Rightarrow> {#} | Inr s \<Rightarrow> sock_held s)"

lemma handed_simps [simp]: "handed (Inl e) = {#}" "handed (Inr s) = sock_held s"
  by (simp_all add: handed_def)

lemma connect_to_balance:
  assumes "connect_to P target proxies w = (r, w')"
  shows "balanced P w {#} w' (handed r)"
  using assms balanced_refl [of P w "{#}"]
  by (auto simp: connect_to_def call_def terminate_def split: prod.splits sum.splits if_splits intro!: balanced_then owned_socket.ended_last elim!: balance)

lemma create_listener_balance:
  assumes "create_listener P a w = (r, w')"
  shows "balanced P w {#} w' (handed r)"
  using assms balanced_refl [of P w "{#}"]
  by (auto simp: create_listener_def call_def terminate_def Let_def split: prod.splits sum.splits if_splits intro!: balanced_then owned_socket.ended_last elim!: balance)

lemma accept_from_balance:
  assumes "accept_from P l w = (r, w')"
  shows "balanced P w {#} w' (handed r)"
  using assms open_balance(3) [of P w "{#}" "sock_get l" SOCK_CLOEXEC]
  by (auto simp: accept_from_def call_def Let_def split: if_splits)

text \<open>
  C17: no path of connecting, listening or accepting leaks a descriptor or closes one twice: every
  descriptor that the function opens is either held by the socket that it returns or has been closed
  exactly once when it returns an error, also when a proxy hangs up half way through the handshake.
\<close>

theorem connections_balanced:
  "(case connect_to P target proxies w of (r, w') \<Rightarrow> balanced P w {#} w' (handed r)) \<and>
   (case create_listener P target w of (r, w') \<Rightarrow> balanced P w {#} w' (handed r)) \<and>
   (case accept_from P listener w of (r, w') \<Rightarrow> balanced P w {#} w' (handed r))"
  by (auto dest: connect_to_balance create_listener_balance accept_from_balance)

section \<open>The chain of proxies\<close>

lemma socks_chain_traffic:
  assumes "socks_chain P ps target s w = (Inr (), s', w')" and "\<forall>a \<in> set (target # tl ps). sendable a"
  shows "s' = s \<and> (ps \<noteq> [] \<longrightarrow> sent P (sock_get s) w' =
      sent P (sock_get s) w @ concat (map (\<lambda>a. [5, 1, 0] @ request_bytes a) (tl ps @ [target]))) \<and>
    (\<exists>answers. length answers = length ps \<and> (\<forall>bs \<in> set answers. complete_answer bs) \<and>
       received P (sock_get s) w' = received P (sock_get s) w @ concat answers)"
  using assms
proof (induction P ps target s w arbitrary: s' w' rule: socks_chain.induct)
  case (2 P p ps target s w)
  let ?next = "case ps of [] \<Rightarrow> target | q # _ \<Rightarrow> q"
  obtain s1 w1 where hop: "socks5_connect P ?next s w = (Inr (), s1, w1)" and rest: "socks_chain P ps target s1 w1 = (Inr (), s', w')"
    using 2(2) by (auto split: prod.splits sum.splits)
  have "sendable ?next" "\<forall>a \<in> set (target # tl ps). sendable a"
    using 2(3) by (cases ps; auto)+
  note t = socks5_connect_traffic [OF hop this(1)] and ih = 2(1) [OF hop [symmetric] refl refl rest this(2)]
  have s1: "s1 = s" and s': "s' = s"
    using t ih by simp_all
  obtain b where b: "complete_answer b" "received P (sock_get s) w1 = received P (sock_get s) w @ b"
    using t by blast
  obtain bs where bs: "length bs = length ps" "\<forall>x \<in> set bs. complete_answer x" "received P (sock_get s) w' = received P (sock_get s) w1 @ concat bs"
    using ih [unfolded s1] by blast
  have sent1: "sent P (sock_get s) w1 = sent P (sock_get s) w @ [5, 1, 0] @ request_bytes ?next"
    using t by blast
  have sent2: "sent P (sock_get s) w' = sent P (sock_get s) w1 @ concat (map (\<lambda>a. [5, 1, 0] @ request_bytes a) (tl ps @ [target]))"
    if "ps \<noteq> []" using ih [unfolded s1] that by blast
  have "sent P (sock_get s) w' = sent P (sock_get s) w @ concat (map (\<lambda>a. [5, 1, 0] @ request_bytes a) (ps @ [target]))"
  proof (cases ps)
    case Nil
    with rest sent1 show ?thesis by simp
  next
    case (Cons q qs)
    with sent1 sent2 show ?thesis by simp
  qed
  moreover have "length (b # bs) = length (p # ps)" "\<forall>x \<in> set (b # bs). complete_answer x"
      "received P (sock_get s) w' = received P (sock_get s) w @ concat (b # bs)"
    using b bs by simp_all
  ultimately show ?case
    using s' by (intro conjI impI exI [of _ "b # bs"]) simp_all
qed simp

text \<open>
  C16: a tunnel that was set up through a chain of proxies starts exactly where the handshakes end.
  The socket that \<open>connect_to\<close> returns is connected to the first proxy; what was written to it is
  one greeting and one request per hop, for the next proxy and at last for the target, in order; and
  what was read from it is one complete answer per proxy and not a byte more, so that the first byte
  the receiver reads is the first byte of the peer's stream. This holds however the system splits
  the transfers.
\<close>

theorem proxy_chain_exact:
  assumes "connect_to P target (p # ps) w = (Inr s, w')" and "\<forall>a \<in> set (target # ps). sendable a"
  shows "\<exists>a w1 w2 w3 answers. resolve P p w = (Inr a, w1) \<and> is_valid a \<and>
    create_socket P (ss_family a) SOCK_CLOEXEC w1 = (Inr s, w2) \<and> call P (Sys_connect (sock_get s) a) w2 = (0, w3) \<and>
    sent P (sock_get s) w' = sent P (sock_get s) w3 @ concat (map (\<lambda>a. [5, 1, 0] @ request_bytes a) (ps @ [target])) \<and>
    length answers = length (p # ps) \<and> (\<forall>bs \<in> set answers. complete_answer bs) \<and>
    received P (sock_get s) w' = received P (sock_get s) w3 @ concat answers"
proof -
  obtain a w1 s0 w2 w3 where c: "resolve P p w = (Inr a, w1)" "is_valid a" "create_socket P (ss_family a) SOCK_CLOEXEC w1 = (Inr s0, w2)"
    "call P (Sys_connect (sock_get s0) a) w2 = (0, w3)" "socks_chain P (p # ps) target s0 w3 = (Inr (), s, w')"
    using assms(1) by (auto simp: connect_to_def terminate_def address_get_def call_def Let_def
        simp del: socks_chain.simps split: prod.splits sum.splits if_splits)
  with socks_chain_traffic [OF c(5)] assms(2) show ?thesis
    by auto
qed

text \<open>A system on which every send takes all, and a proxy that answers with the address 0.0.0.0.\<close>

definition proxy_platform :: platform where
  "proxy_platform = friendly\<lparr>
     sys := (\<lambda>tr. case last tr of Sys_socket f t p \<Rightarrow> 3 | Sys_connect fd a \<Rightarrow> 0 | Sys_send fd data fl \<Rightarrow> int (length data)
       | Sys_recv fd n fl \<Rightarrow> int n | c \<Rightarrow> friendly_sys tr),
     answer_bytes := (\<lambda>tr. case last tr of Sys_recv fd n fl \<Rightarrow> if n = 2 then [5, 0] else if n = 4 then [5, 0, 0, 1] else replicate n 0 | c \<Rightarrow> [])\<rparr>"

definition proxy_address :: sock_address where
  "proxy_address = \<lparr>ss_family = AF_INET, ss_data = htons 1080 @ [127, 0, 0, 1] @ replicate 120 0, sa_length = 16\<rparr>"

lemma proxy_address_simps [simp]: "is_valid proxy_address" "ss_family proxy_address = AF_INET" "length (ss_data proxy_address) = 126"
  by (simp_all add: proxy_address_def is_valid_def families sockaddr_sizes)

lemma proxy_platform_sys [simp]:
  "sys proxy_platform (tr @ [Sys_socket f t p]) = 3" "sys proxy_platform (tr @ [Sys_connect fd a]) = 0"
  "sys proxy_platform (tr @ [Sys_send fd data fl]) = int (length data)" "sys proxy_platform (tr @ [Sys_recv fd n fl]) = int n"
  "answer_bytes proxy_platform (tr @ [Sys_recv fd n fl]) =
     (if n = 2 then [5, 0] else if n = 4 then [5, 0, 0, 1] else replicate n 0)"
  by (simp_all add: proxy_platform_def)

lemma proxy_platform_send: "socket_is_valid s \<Longrightarrow> data \<noteq> [] \<Longrightarrow>
    socket_send proxy_platform s data w = (Inr (), log_call (Sys_send (sock_get s) data MSG_NOSIGNAL) w)"
  by (simp add: socket_send_def send_loop.simps [of _ _ data] send_loop.simps [of _ _ "[]"])

lemma proxy_platform_recv: "socket_is_valid s \<Longrightarrow> n \<noteq> 0 \<Longrightarrow> \<exists>w'.
    socket_recv proxy_platform n s w = (Inr (if n = 2 then [5, 0] else if n = 4 then [5, 0, 0, 1] else replicate n 0), s, w')"
  by (simp add: socket_recv_def recv_loop.simps [of _ n "[]"] recv_loop.simps [of _ n] recv_part_def)

lemma example_connection: "\<exists>w. connect_to proxy_platform example_target [Sock_address proxy_address] initial_world = (Inr (make_socket 3 AF_INET), w)"
proof -
  let ?s = "make_socket 3 AF_INET"
  have s: "socket_is_valid ?s" "sock_get ?s = 3"
    by (simp_all add: make_socket_def socket_is_valid_def sock_get_def fd_is_valid_def fd_get_def fd_new_def)
  have recv: "\<exists>w'. socket_recv proxy_platform n ?s w = (Inr (if n = 2 then [5, 0] else if n = 4 then [5, 0, 0, 1] else replicate n 0), ?s, w')"
    if "n \<noteq> 0" for n w
    using proxy_platform_recv [OF s(1) that] .
  obtain buf where req: "connect_request example_target = Request buf 22"
    using example_request by blast
  then have buf: "take 22 buf \<noteq> []"
    using connect_request_eq(1) [OF req] by (auto simp: sendable_def example_target_def request_bytes_def)
  have "\<exists>w'. read_reply proxy_platform ?s w = (Inr (), ?s, w')" for w
  proof -
    obtain w1 where w1: "socket_recv proxy_platform 4 ?s w = (Inr [5, 0, 0, 1], ?s, w1)"
      using recv [of 4 w] by auto
    obtain w2 where w2: "socket_recv proxy_platform 6 ?s w1 = (Inr (replicate 6 0), ?s, w2)"
      using recv [of 6 w1] by auto
    show ?thesis
      using w1 w2 by (simp add: read_reply_def)
  qed
  note reply = this
  have "\<exists>w'. socks5_connect proxy_platform example_target ?s w = (Inr (), ?s, w')" for w
  proof -
    let ?w = "log_call (Sys_send (sock_get ?s) method_request MSG_NOSIGNAL) w"
    have m: "socket_send proxy_platform ?s method_request w = (Inr (), ?w)"
      by (rule proxy_platform_send [OF s(1)]) (simp add: method_request_def)
    obtain w1 where w1: "socket_recv proxy_platform 2 ?s ?w = (Inr [5, 0], ?s, w1)"
      using recv [of 2 ?w] by auto
    have "length (hp_hostname \<lparr>hp_hostname = ''zportal.example'', hp_port = 8080\<rparr>) \<le> 255"
      by simp
    then show ?thesis
      using reply m w1 req proxy_platform_send [OF s(1) buf, of w1]
      by (simp add: socks5_connect_def) (simp add: example_target_def)
  qed
  then obtain w4 where "socks5_connect proxy_platform example_target ?s
      (log_call (Sys_connect 3 proxy_address) (log_call (Sys_socket AF_INET (SOCK_STREAM OR SOCK_CLOEXEC) 0) initial_world)) = (Inr (), ?s, w4)"
    by blast
  then show ?thesis
    by (simp add: connect_to_def resolve_def create_socket_def address_get_def call_def s terminate_def)
qed

theorem proxy_chain_exact_witness:
  "\<exists>w w3 answer. connect_to proxy_platform example_target [Sock_address proxy_address] initial_world = (Inr (make_socket 3 AF_INET), w) \<and>
     complete_answer answer \<and> received proxy_platform 3 w = received proxy_platform 3 w3 @ answer \<and>
     sent proxy_platform 3 w = sent proxy_platform 3 w3 @ [5, 1, 0] @ request_bytes example_target"
proof -
  have fd: "sock_get (make_socket 3 AF_INET) = 3"
    by (simp add: make_socket_def sock_get_def fd_get_def fd_new_def)
  obtain w where w: "connect_to proxy_platform example_target [Sock_address proxy_address] initial_world = (Inr (make_socket 3 AF_INET), w)"
    using example_connection by blast
  have "\<forall>a \<in> set [example_target]. sendable a"
    by (simp add: sendable_def example_target_def)
  from proxy_chain_exact [of proxy_platform example_target "Sock_address proxy_address" "[]", OF w this] obtain w3 answers where
    "sent proxy_platform 3 w = sent proxy_platform 3 w3 @ [5, 1, 0] @ request_bytes example_target"
    "length answers = 1" "\<forall>bs \<in> set answers. complete_answer bs" "received proxy_platform 3 w = received proxy_platform 3 w3 @ concat answers"
    by (auto simp: fd)
  moreover from this(2) obtain y where "answers = [y]"
    by (cases answers) auto
  ultimately show ?thesis
    using w by (intro exI [of _ w] exI [of _ w3] exI [of _ y]) simp
qed

end
