(* ===== verification/Tun_Netlink.thy ===== *)
theory Tun_Netlink
  imports Tun_Device Fd_Balance
begin

text \<open>
  How a TUN device is made, configured and asked for its counters (\<open>src/net/tun.cpp\<close>): netlink
  requests with their attributes, and the walks over the replies. The integers of netlink are in
  the byte order of the host. The macros of the kernel's headers (\<open>NLMSG_OK\<close>, \<open>NLMSG_NEXT\<close>, \<open>RTA_OK\<close>,
  \<open>RTA_NEXT\<close>) are written out, with the conversions that their arguments undergo.
\<close>

section \<open>Constants of the interface\<close>

definition EINTR :: int where "EINTR = 4"
definition IFNAMSIZ :: nat where "IFNAMSIZ = 16"

definition NLMSG_HDRLEN :: nat where "NLMSG_HDRLEN = 16"
definition sizeof_ifinfomsg :: nat where "sizeof_ifinfomsg = 16"
definition sizeof_ifaddrmsg :: nat where "sizeof_ifaddrmsg = 8"

definition NLMSG_ERROR :: u16 where "NLMSG_ERROR = 2"
definition RTM_NEWLINK :: u16 where "RTM_NEWLINK = 16"
definition RTM_GETLINK :: u16 where "RTM_GETLINK = 18"
definition RTM_NEWADDR :: u16 where "RTM_NEWADDR = 20"

definition NLM_F_REQUEST :: u16 where "NLM_F_REQUEST = 1"
definition NLM_F_ACK :: u16 where "NLM_F_ACK = 4"
definition NLM_F_REPLACE :: u16 where "NLM_F_REPLACE = 0x100"
definition NLM_F_CREATE :: u16 where "NLM_F_CREATE = 0x400"

definition IFLA_MTU :: u16 where "IFLA_MTU = 4"
definition IFLA_STATS :: u16 where "IFLA_STATS = 7"
definition IFLA_STATS64 :: u16 where "IFLA_STATS64 = 23"
definition IFA_ADDRESS :: u16 where "IFA_ADDRESS = 1"
definition IFA_LOCAL :: u16 where "IFA_LOCAL = 2"
definition IFA_LABEL :: u16 where "IFA_LABEL = 3"
definition IFF_UP :: u32 where "IFF_UP = 1"

text \<open>\<open>NLMSG_ALIGN\<close> and \<open>RTA_ALIGN\<close> of a size.\<close>

definition nl_align :: "nat \<Rightarrow> nat" where
  "nl_align n = (n + 3) div 4 * 4"

definition RTA_LENGTH :: "nat \<Rightarrow> nat" where "RTA_LENGTH n = n + 4"
definition NLMSG_LENGTH :: "nat \<Rightarrow> nat" where "NLMSG_LENGTH n = n + NLMSG_HDRLEN"

definition store16 :: "endian \<Rightarrow> u16 \<Rightarrow> u8 list" where
  "store16 e v = (case e of Little_endian \<Rightarrow> le_bytes 2 v | Big_endian \<Rightarrow> rev (le_bytes 2 v))"

definition load16 :: "endian \<Rightarrow> u8 list \<Rightarrow> u16" where
  "load16 e bs = (case e of Little_endian \<Rightarrow> le_val bs | Big_endian \<Rightarrow> le_val (rev bs))"

definition load64 :: "endian \<Rightarrow> u8 list \<Rightarrow> u64" where
  "load64 e bs = (case e of Little_endian \<Rightarrow> le_val bs | Big_endian \<Rightarrow> le_val (rev bs))"

section \<open>Requests\<close>

text \<open>
  A request: the header's fields and the zeroed memory after the header, \<open>sizeof(req)\<close> less 16 bytes.
  The process id in the header is zero.
\<close>

record nl_request =
  nl_len :: nat
  nl_type :: u16
  nl_flags :: u16
  nl_seq_of :: u32
  nl_body :: "u8 list"

definition next_seq :: "world \<Rightarrow> u32 \<times> world" where
  "next_seq w = (nl_seq w, w\<lparr>nl_seq := nl_seq w + 1\<rparr>)"

text \<open>The bytes that \<open>sendmsg\<close> is given.\<close>

definition nl_bytes :: "endian \<Rightarrow> nl_request \<Rightarrow> u8 list" where
  "nl_bytes e r = take (nl_len r)
     (store32 e (of_nat (nl_len r)) @ store16 e (nl_type r) @ store16 e (nl_flags r) @ store32 e (nl_seq_of r)
      @ store32 e 0 @ nl_body r)"

definition too_small :: string where
  "too_small = ''netlink message too small for attribute''"

definition nl_add_attr :: "endian \<Rightarrow> nat \<Rightarrow> u16 \<Rightarrow> u8 list \<Rightarrow> nl_request \<Rightarrow> nl_request result" where
  "nl_add_attr e maxlen ty data r =
     (let len = RTA_LENGTH (length data);
          start = nl_align (nl_len r);
          new_len = start + nl_align len
      in if new_len > maxlen then Inl (Error_msg InvalidArgument 0 too_small)
         else Inr (r\<lparr>nl_body := store_at (start - NLMSG_HDRLEN) (store16 e (of_nat len) @ store16 e ty @ data) (nl_body r),
                     nl_len := new_len\<rparr>))"

text \<open>\<open>ifinfomsg\<close>: family, padding, type, index, flags, change mask; \<open>ifaddrmsg\<close>: family, prefix, flags, scope, index.\<close>

definition ifinfomsg :: "endian \<Rightarrow> int \<Rightarrow> u32 \<Rightarrow> u32 \<Rightarrow> u8 list" where
  "ifinfomsg e index fl change = [0, 0] @ store16 e 0 @ store32 e (of_int index) @ store32 e fl @ store32 e change"

definition ifaddrmsg :: "endian \<Rightarrow> u8 \<Rightarrow> u8 \<Rightarrow> int \<Rightarrow> u8 list" where
  "ifaddrmsg e family prefix index = [family, prefix, 0, 0] @ store32 e (of_int index)"

definition new_request :: "u16 \<Rightarrow> u16 \<Rightarrow> u32 \<Rightarrow> u8 list \<Rightarrow> nat \<Rightarrow> nl_request" where
  "new_request ty fl seq payload buf =
     \<lparr>nl_len = NLMSG_LENGTH (length payload), nl_type = ty, nl_flags = fl, nl_seq_of = seq,
      nl_body = payload @ replicate buf 0\<rparr>"

definition mtu_request :: "endian \<Rightarrow> u32 \<Rightarrow> tun_device \<Rightarrow> u32 \<Rightarrow> nl_request result" where
  "mtu_request e seq t mtu =
     nl_add_attr e (NLMSG_LENGTH sizeof_ifinfomsg + 256) IFLA_MTU (store32 e mtu)
       (new_request RTM_NEWLINK (NLM_F_REQUEST OR NLM_F_ACK) seq (ifinfomsg e (tun_index t) 0 0xFFFFFFFF) 256)"

definition cidr_request :: "endian \<Rightarrow> u32 \<Rightarrow> tun_device \<Rightarrow> cidr \<Rightarrow> nl_request result" where
  "cidr_request e seq t c =
     (let a = get_address c;
          (family, ip) = (if is_ip4 c then (AF_INET, ip4_bytes a) else (AF_INET6, ip6_bytes a));
          maxlen = NLMSG_LENGTH sizeof_ifaddrmsg + 256;
          req = new_request RTM_NEWADDR (NLM_F_REQUEST OR NLM_F_ACK OR NLM_F_CREATE OR NLM_F_REPLACE) seq
                  (ifaddrmsg e (ucast family) (get_prefix c) (tun_index t)) 256
      in case nl_add_attr e maxlen IFA_LOCAL ip req of Inl x \<Rightarrow> Inl x | Inr req \<Rightarrow>
         (case nl_add_attr e maxlen IFA_ADDRESS ip req of Inl x \<Rightarrow> Inl x | Inr req \<Rightarrow>
           (if is_ip4 c then nl_add_attr e maxlen IFA_LABEL (map byte_of_char (tun_name t) @ [0]) req
            else Inr req)))"

definition flags_request :: "endian \<Rightarrow> u32 \<Rightarrow> tun_device \<Rightarrow> u32 \<Rightarrow> nl_request" where
  "flags_request e seq t fl =
     new_request RTM_NEWLINK (NLM_F_REQUEST OR NLM_F_ACK) seq (ifinfomsg e (tun_index t) fl IFF_UP) 128"

definition stats_request :: "endian \<Rightarrow> u32 \<Rightarrow> tun_device \<Rightarrow> nl_request" where
  "stats_request e seq t =
     new_request RTM_GETLINK (NLM_F_REQUEST OR NLM_F_ACK) seq (ifinfomsg e (tun_index t) 0 0) 0"

definition nl_send_raw :: "platform \<Rightarrow> tun_device \<Rightarrow> nl_request \<Rightarrow> world \<Rightarrow> unit result \<times> world" where
  "nl_send_raw P t r w =
     (let (n, w) = call P (Sendmsg_netlink (sock_get (tun_nl t)) (nl_bytes (byte_order P) r)) w
      in if n < 0 then (Inl (Error_no SendFailed (errno_of P (trace w))), w) else (Inr (), w))"

section \<open>Walking over replies\<close>

text \<open>
  What a walk over one datagram ends with: an answer; no answer, so the next datagram is read; a
  read behind the buffer; or a step of length zero, which repeats forever.
\<close>

datatype 'a walk = Reply "'a result" | Unanswered | Overrun | Endless

definition nlmsg_len :: "endian \<Rightarrow> u8 list \<Rightarrow> nat \<Rightarrow> u32" where
  "nlmsg_len e buf pos = load32 e (slice_of pos 4 buf)"
definition nlmsg_type :: "endian \<Rightarrow> u8 list \<Rightarrow> nat \<Rightarrow> u16" where
  "nlmsg_type e buf pos = load16 e (slice_of (pos + 4) 2 buf)"
definition nlmsg_seq :: "endian \<Rightarrow> u8 list \<Rightarrow> nat \<Rightarrow> u32" where
  "nlmsg_seq e buf pos = load32 e (slice_of (pos + 8) 4 buf)"
definition nlmsg_error :: "endian \<Rightarrow> u8 list \<Rightarrow> nat \<Rightarrow> int" where
  "nlmsg_error e buf pos = sint (load32 e (slice_of (pos + 16) 4 buf))"

text \<open>\<open>static_cast<unsigned>(n)\<close>, and \<open>NLMSG_ALIGN\<close> in 32 bits.\<close>

definition unsigned_of :: "int \<Rightarrow> nat" where
  "unsigned_of n = nat (n mod 2 ^ 32)"

definition nl_step :: "u32 \<Rightarrow> nat" where
  "nl_step len = unat ((len + 3) AND NOT 3)"

text \<open>
  The loop over the messages of a datagram of \<open>n\<close> bytes at position \<open>pos\<close> of the buffer. The function
  \<open>f\<close> is the body of the loop: an outcome, or none to go on with the next message.
\<close>

function nl_walk :: "endian \<Rightarrow> u8 list \<Rightarrow> (nat \<Rightarrow> 'a walk option) \<Rightarrow> nat \<Rightarrow> int \<Rightarrow> 'a walk" where
  "nl_walk e buf f pos n =
     (if unsigned_of n < NLMSG_HDRLEN then Unanswered
      else if pos + NLMSG_HDRLEN > length buf then Overrun
      else (let len = nlmsg_len e buf pos
            in if unat len < NLMSG_HDRLEN \<or> unat len > unsigned_of n then Unanswered
               else (case f pos of
                       Some r \<Rightarrow> r
                     | None \<Rightarrow> if nl_step len = 0 then Endless
                              else nl_walk e buf f (pos + nl_step len) (n - int (nl_step len)))))"
  by pat_completeness auto
termination
  by (relation "measure (\<lambda>(e, buf, f, pos, n). length buf - pos)") (auto simp: NLMSG_HDRLEN_def)

declare nl_walk.simps [simp del]

text \<open>The body of the loop of \<open>nl_send_acked_\<close>.\<close>

definition acked_body :: "endian \<Rightarrow> u8 list \<Rightarrow> u32 \<Rightarrow> nat \<Rightarrow> unit walk option" where
  "acked_body e buf seq pos =
     (if nlmsg_seq e buf pos \<noteq> seq then None
      else if nlmsg_type e buf pos = NLMSG_ERROR then
        (if pos + 20 > length buf then Some Overrun
         else if nlmsg_error e buf pos = 0 then Some (Reply (Inr ()))
         else Some (Reply (Inl (Error_no NetlinkError (- nlmsg_error e buf pos)))))
      else None)"

record tun_stats =
  st_rx_packets :: u64
  st_tx_packets :: u64
  st_rx_bytes :: u64
  st_tx_bytes :: u64
  st_rx_dropped :: u64
  st_tx_dropped :: u64
  st_rx_errors :: u64
  st_tx_errors :: u64

definition rta_len :: "endian \<Rightarrow> u8 list \<Rightarrow> nat \<Rightarrow> nat" where
  "rta_len e buf pos = unat (load16 e (slice_of pos 2 buf))"
definition rta_type :: "endian \<Rightarrow> u8 list \<Rightarrow> nat \<Rightarrow> u16" where
  "rta_type e buf pos = load16 e (slice_of (pos + 2) 2 buf)"

text \<open>
  The structures of counters: packets, bytes, errors, dropped, each for receiving and then sending,
  in 64 or in 32 bits.
\<close>

definition stats64_at :: "endian \<Rightarrow> u8 list \<Rightarrow> nat \<Rightarrow> tun_stats" where
  "stats64_at e buf pos = (let v = (\<lambda>i. load64 e (slice_of (pos + 8 * i) 8 buf))
     in \<lparr>st_rx_packets = v 0, st_tx_packets = v 1, st_rx_bytes = v 2, st_tx_bytes = v 3,
         st_rx_dropped = v 6, st_tx_dropped = v 7, st_rx_errors = v 4, st_tx_errors = v 5\<rparr>)"

definition stats32_at :: "endian \<Rightarrow> u8 list \<Rightarrow> nat \<Rightarrow> tun_stats" where
  "stats32_at e buf pos = (let v = (\<lambda>i. ucast (load32 e (slice_of (pos + 4 * i) 4 buf)))
     in \<lparr>st_rx_packets = v 0, st_tx_packets = v 1, st_rx_bytes = v 2, st_tx_bytes = v 3,
         st_rx_dropped = v 6, st_tx_dropped = v 7, st_rx_errors = v 4, st_tx_errors = v 5\<rparr>)"

definition no_stats :: string where
  "no_stats = ''no IFLA_STATS64 / IFLA_STATS in RTM_GETLINK reply''"

text \<open>The loop over the attributes of a message; \<open>attr_len\<close> is a signed number.\<close>

function rta_walk :: "platform \<Rightarrow> u8 list \<Rightarrow> nat \<Rightarrow> int \<Rightarrow> tun_stats walk" where
  "rta_walk P buf pos attr_len =
     (let e = byte_order P
      in if attr_len < 4 then Reply (Inl (Error_msg NetlinkError 0 no_stats))
         else if pos + 4 > length buf then Overrun
         else (let len = rta_len e buf pos
               in if len < 4 \<or> int len > attr_len then Reply (Inl (Error_msg NetlinkError 0 no_stats))
                  else if rta_type e buf pos = IFLA_STATS64 \<and> len - 4 \<ge> sizeof_stats64 P then
                    (if pos + 4 + sizeof_stats64 P > length buf then Overrun else Reply (Inr (stats64_at e buf (pos + 4))))
                  else if rta_type e buf pos = IFLA_STATS \<and> len - 4 \<ge> sizeof_stats32 P then
                    (if pos + 4 + sizeof_stats32 P > length buf then Overrun else Reply (Inr (stats32_at e buf (pos + 4))))
                  else rta_walk P buf (pos + nl_align len) (attr_len - int (nl_align len))))"
  by pat_completeness auto
termination
  by (relation "measure (\<lambda>(P, buf, pos, n). length buf - pos)") (auto simp: nl_align_def)

declare rta_walk.simps [simp del]

text \<open>The body of the loop of \<open>get_stats\<close>.\<close>

definition stats_body :: "platform \<Rightarrow> u8 list \<Rightarrow> u32 \<Rightarrow> int \<Rightarrow> nat \<Rightarrow> tun_stats walk option" where
  "stats_body P buf seq index pos =
     (let e = byte_order P
      in if nlmsg_seq e buf pos \<noteq> seq then None
         else if nlmsg_type e buf pos = NLMSG_ERROR then
           (if pos + 20 > length buf then Some Overrun
            else if nlmsg_error e buf pos = 0 then None
            else Some (Reply (Inl (Error_no NetlinkError (- nlmsg_error e buf pos)))))
         else if nlmsg_type e buf pos \<noteq> RTM_NEWLINK then None
         else if pos + 24 > length buf then Some Overrun
         else if sint (load32 e (slice_of (pos + 20) 4 buf)) \<noteq> index then None
         else Some (rta_walk P buf (pos + 32) (sint (nlmsg_len e buf pos - of_nat (NLMSG_LENGTH sizeof_ifinfomsg)))))"

section \<open>The receive loops\<close>

definition rxbuf_size :: nat where "rxbuf_size = 8192"

definition fresh_rxbuf :: "platform \<Rightarrow> world \<Rightarrow> u8 list" where
  "fresh_rxbuf P w = take rxbuf_size (stale_bytes P (trace w) @ replicate rxbuf_size 0)"

text \<open>What \<open>recv\<close> leaves in the buffer: the bytes it took, then what was there before.\<close>

definition fill_rxbuf :: "platform \<Rightarrow> nat \<Rightarrow> world \<Rightarrow> u8 list \<Rightarrow> u8 list" where
  "fill_rxbuf P n w buf = store_at 0 (take (min n (length buf)) (answer_bytes P (trace w) @ replicate n 0)) buf"

definition is_unanswered :: "'a walk \<Rightarrow> bool" where
  "is_unanswered r = (case r of Unanswered \<Rightarrow> True | _ \<Rightarrow> False)"

definition is_endless :: "'a walk \<Rightarrow> bool" where
  "is_endless r = (case r of Endless \<Rightarrow> True | _ \<Rightarrow> False)"

definition walk_result :: "'a walk \<Rightarrow> world \<Rightarrow> 'a result \<times> world" where
  "walk_result r w = (case r of Reply x \<Rightarrow> (x, w) | _ \<Rightarrow> undefined_behaviour w)"

text \<open>
  The loop that reads datagrams until one holds the answer; it may never return. The argument \<open>f\<close> is
  the body of the walk, for the content of the buffer.
\<close>

partial_function (option) nl_recv_loop ::
    "platform \<Rightarrow> int \<Rightarrow> (u8 list \<Rightarrow> nat \<Rightarrow> 'a walk option) \<Rightarrow> u8 list \<Rightarrow> world \<Rightarrow> ('a result \<times> world) option" where
  "nl_recv_loop P fd f buf w =
     (let n = fst (call P (Sys_recv fd rxbuf_size 0) w);
          w = snd (call P (Sys_recv fd rxbuf_size 0) w)
      in if n < 0 then
           (if errno_of P (trace w) = EINTR then nl_recv_loop P fd f buf w
            else Some (Inl (Error_no RecvFailed (errno_of P (trace w))), w))
         else (let buf = fill_rxbuf P (nat n) w buf; r = nl_walk (byte_order P) buf (f buf) 0 n
               in if is_unanswered r then nl_recv_loop P fd f buf w
                  else if is_endless r then None
                  else Some (walk_result r w)))"

declare nl_recv_loop.simps [code]

definition nl_send_acked :: "platform \<Rightarrow> tun_device \<Rightarrow> nl_request \<Rightarrow> world \<Rightarrow> (unit result \<times> world) option" where
  "nl_send_acked P t r w =
     (case nl_send_raw P t r w of
        (Inl e, w) \<Rightarrow> Some (Inl e, w)
      | (Inr _, w) \<Rightarrow> nl_recv_loop P (sock_get (tun_nl t)) (\<lambda>buf. acked_body (byte_order P) buf (nl_seq_of r)) (fresh_rxbuf P w) w)"

definition get_stats :: "platform \<Rightarrow> tun_device \<Rightarrow> world \<Rightarrow> (tun_stats result \<times> world) option" where
  "get_stats P t w =
     (let (seq, w) = next_seq w; r = stats_request (byte_order P) seq t
      in case nl_send_raw P t r w of
           (Inl e, w) \<Rightarrow> Some (Inl e, w)
         | (Inr _, w) \<Rightarrow> nl_recv_loop P (sock_get (tun_nl t)) (\<lambda>buf. stats_body P buf seq (tun_index t)) (fresh_rxbuf P w) w)"

section \<open>Configuring and creating the device\<close>

definition set_mtu :: "platform \<Rightarrow> u32 \<Rightarrow> tun_device \<Rightarrow> world \<Rightarrow> (unit result \<times> tun_device \<times> world) option" where
  "set_mtu P mtu t w =
     (let (seq, w) = next_seq w
      in case mtu_request (byte_order P) seq t mtu of
           Inl e \<Rightarrow> Some (Inl e, t, w)
         | Inr r \<Rightarrow>
            (case nl_send_acked P t r w of
               None \<Rightarrow> None
             | Some (Inl e, w) \<Rightarrow> Some (Inl e, t, w)
             | Some (Inr _, w) \<Rightarrow> Some (Inr (), t\<lparr>tun_mtu := mtu\<rparr>, w)))"

text \<open>\<open>addr.get()\<close> throws on an invalid address, out of a \<open>noexcept\<close> function.\<close>

definition set_cidr :: "platform \<Rightarrow> cidr \<Rightarrow> tun_device \<Rightarrow> world \<Rightarrow> (unit result \<times> world) option" where
  "set_cidr P c t w =
     (case address_get (get_address c) of
        Inl _ \<Rightarrow> Some (terminate w)
      | Inr _ \<Rightarrow>
         (let (seq, w) = next_seq w
          in case cidr_request (byte_order P) seq t c of
               Inl e \<Rightarrow> Some (Inl e, w)
             | Inr r \<Rightarrow> nl_send_acked P t r w))"

definition set_up :: "platform \<Rightarrow> tun_device \<Rightarrow> world \<Rightarrow> (unit result \<times> world) option" where
  "set_up P t w = (let (seq, w) = next_seq w in nl_send_acked P t (flags_request (byte_order P) seq t IFF_UP) w)"

definition set_down :: "platform \<Rightarrow> tun_device \<Rightarrow> world \<Rightarrow> (unit result \<times> world) option" where
  "set_down P t w = (let (seq, w) = next_seq w in nl_send_acked P t (flags_request (byte_order P) seq t 0) w)"

definition AF_NETLINK :: u16 where "AF_NETLINK = 16"
definition SOCK_RAW :: int where "SOCK_RAW = 3"

text \<open>The name that \<open>strncpy\<close> puts into the request.\<close>

definition request_name :: "string \<Rightarrow> string" where
  "request_name name = take (IFNAMSIZ - 1) (c_str name)"

text \<open>The last part of the creation, when the device is open and has its name.\<close>

definition open_netlink :: "platform \<Rightarrow> cidr \<Rightarrow> u32 \<Rightarrow> tun_device \<Rightarrow> world \<Rightarrow> (unit result \<times> tun_device \<times> world) option" where
  "open_netlink P c mtu t w =
     (let (fd, w) = call P (Sys_socket AF_NETLINK (SOCK_RAW OR SOCK_CLOEXEC) 0) w;
          (n, _, w) = socket_move_assign (tun_nl t) (make_socket fd AF_UNSPEC) w;
          t = t\<lparr>tun_nl := n\<rparr>
      in if \<not> socket_is_valid (tun_nl t) then Some (Inl (Error_no SocketCreateFailed (errno_of P (trace w))), t, w)
         else (let (b, w) = call P (Bind_netlink (sock_get (tun_nl t))) w
               in if b < 0 then Some (Inl (Error_no BindFailed (errno_of P (trace w))), t, w)
                  else (case set_mtu P mtu t w of
                          None \<Rightarrow> None
                        | Some (Inl e, t, w) \<Rightarrow> Some (Inl e, t, w)
                        | Some (Inr _, t, w) \<Rightarrow>
                           (case set_cidr P c t w of
                              None \<Rightarrow> None
                            | Some (r, w) \<Rightarrow> Some (r, t, w)))))"

text \<open>
  Every failure ends the half-made object. The argument \<open>mtu0\<close> is what the uninitialised \<open>mtu_\<close> holds.
\<close>

definition create_tun_device ::
    "platform \<Rightarrow> u32 \<Rightarrow> string \<Rightarrow> cidr \<Rightarrow> u32 \<Rightarrow> world \<Rightarrow> (tun_device result \<times> world) option" where
  "create_tun_device P mtu0 name c mtu w =
     (let (fd, w) = call P Open_tun w;
          (d, _, w) = fd_move_assign fd_default (fd_new fd) w;
          t = (tun_default mtu0)\<lparr>tun_fd := d\<rparr>
      in if \<not> fd_is_valid (tun_fd t)
         then Some (let e = errno_of P (trace w) in (Inl (Error_no TunOpenFailed e), tun_destroy t w))
         else (let (r, w) = call P (Ioctl_tunsetiff (get_fd t) (request_name name)) w
          in if r < 0
             then Some (let e = errno_of P (trace w); (t, w) = tun_close t w
                        in (Inl (Error_no TunIoctlFailed e), tun_destroy t w))
             else (let t = t\<lparr>tun_name := take (IFNAMSIZ - 1) (c_str (answer_name P (trace w)))\<rparr>;
                       (i, w) = call P (If_nametoindex (tun_name t)) w;
                       t = t\<lparr>tun_index := i\<rparr>
              in if tun_index t = 0
                 then Some (let e = errno_of P (trace w); (t, w) = tun_close t w
                            in (Inl (Error_no TunNameToIndexFailed e), tun_destroy t w))
                 else (case open_netlink P c mtu t w of
                         None \<Rightarrow> None
                       | Some (Inl e, t, w) \<Rightarrow> Some (Inl e, tun_destroy t w)
                       | Some (Inr _, t, w) \<Rightarrow> Some (Inr (fst (tun_move t)), tun_destroy (snd (tun_move t)) w)))))"

section \<open>The walk stays inside the datagram\<close>

lemma unsigned_of_small: "0 \<le> n \<Longrightarrow> n < 2 ^ 32 \<Longrightarrow> unsigned_of n = nat n"
  by (simp add: unsigned_of_def)

lemma nl_align_props: "n \<le> nl_align n" "4 dvd nl_align n" "nl_align n < n + 4"
  by (auto simp: nl_align_def)

lemma nl_align_le: "4 dvd m \<Longrightarrow> n \<le> m \<Longrightarrow> nl_align n \<le> m"
  by (auto simp: nl_align_def dvd_def)

lemma sint_small: "unat (x :: u32) < 2 ^ 31 \<Longrightarrow> sint x = int (unat x)"
proof -
  assume a: "unat x < 2 ^ 31"
  have "int (unat x) < int (2 ^ 31)"
    using a by (simp only: of_nat_less_iff)
  moreover have "- (2 ^ 31) \<le> uint x"
    by (rule order_trans [of _ 0]) simp_all
  ultimately have "uint x < 2 ^ 31" "- (2 ^ 31) \<le> uint x"
    by simp_all
  then show ?thesis
    by (simp add: sint_uint signed_take_bit_int_eq_self)
qed

lemma nl_step_align:
  assumes "unat len + 3 < 2 ^ 32"
  shows "nl_step len = nl_align (unat len)"
proof -
  have u: "unat (len + 3) = unat len + 3"
    using assms by (simp add: unat_word_ariths)
  have "(len + 3) AND NOT 3 = (len + 3) AND NOT (mask 2)"
    by (simp add: mask_eq_exp_minus_1)
  also have "\<dots> = push_bit 2 (drop_bit 2 (len + 3))"
  proof (rule bit_word_eqI)
    have "Suc (Suc (n - 2)) = n" if "2 \<le> n" for n :: nat using that by arith
    then show "bit ((len + 3) AND NOT (mask 2)) n \<longleftrightarrow> bit (push_bit 2 (drop_bit 2 (len + 3))) n" for n
      by (auto simp: bit_simps not_less)
  qed
  finally have s: "nl_step len = unat ((len + 3) div 4 * 4)"
    by (simp add: nl_step_def push_bit_eq_mult drop_bit_eq_div)
  have "(unat len + 3) div 4 * 4 < 2 ^ 32"
    using assms by linarith
  then show ?thesis
    unfolding s nl_align_def unat_word_ariths(2) unat_div u by simp
qed

text \<open>
  What the kernel sends: whole messages, each padded to a multiple of four bytes; an error message
  holds its error, and a link message its \<open>ifinfomsg\<close>.
\<close>

inductive msg_at :: "endian \<Rightarrow> u8 list \<Rightarrow> nat \<Rightarrow> nat \<Rightarrow> bool" for e buf n where
  msg_first: "msg_at e buf n 0"
| msg_next: "msg_at e buf n pos \<Longrightarrow> pos + 16 \<le> n \<Longrightarrow> 16 \<le> unat (nlmsg_len e buf pos) \<Longrightarrow>
    pos + unat (nlmsg_len e buf pos) \<le> n \<Longrightarrow> msg_at e buf n (pos + nl_align (unat (nlmsg_len e buf pos)))"

definition kernel_datagram :: "endian \<Rightarrow> u8 list \<Rightarrow> nat \<Rightarrow> bool" where
  "kernel_datagram e buf n \<longleftrightarrow> 4 dvd n \<and> n \<le> length buf \<and> length buf = rxbuf_size \<and>
     (\<forall>pos. msg_at e buf n pos \<longrightarrow> pos + 16 \<le> n \<longrightarrow>
        (nlmsg_type e buf pos = NLMSG_ERROR \<longrightarrow> 20 \<le> unat (nlmsg_len e buf pos)) \<and>
        (nlmsg_type e buf pos = RTM_NEWLINK \<longrightarrow> 32 \<le> unat (nlmsg_len e buf pos)))"

definition no_overrun :: "'a walk \<Rightarrow> bool" where
  "no_overrun r \<longleftrightarrow> r \<noteq> Overrun \<and> r \<noteq> Endless"

lemma msg_at_dvd: "msg_at e buf n pos \<Longrightarrow> 4 dvd pos"
  by (induction rule: msg_at.induct) (simp_all add: nl_align_props)

lemma nl_walk_no_overrun:
  assumes "kernel_datagram e buf n"
    and f: "\<And>pos r. msg_at e buf n pos \<Longrightarrow> pos + unat (nlmsg_len e buf pos) \<le> n \<Longrightarrow> pos + 16 \<le> n \<Longrightarrow>
      f pos = Some r \<Longrightarrow> no_overrun r"
    and "msg_at e buf n pos" "pos \<le> n"
  shows "no_overrun (nl_walk e buf f pos (int n - int pos))"
  using assms(3,4)
proof (induction "n - pos" arbitrary: pos rule: less_induct)
  case less
  have n: "4 dvd n" "n \<le> rxbuf_size" "length buf = rxbuf_size" "n \<le> length buf"
    using assms(1) by (simp_all add: kernel_datagram_def)
  have u: "unsigned_of (int n - int pos) = n - pos"
    using less.prems n by (subst unsigned_of_small) (simp_all add: rxbuf_size_def nat_diff_distrib)
  show ?case
  proof (cases "n - pos < 16 \<or> unat (nlmsg_len e buf pos) < 16 \<or> unat (nlmsg_len e buf pos) > n - pos")
    case True
    then show ?thesis
      using u n by (subst nl_walk.simps) (auto simp: NLMSG_HDRLEN_def no_overrun_def Let_def)
  next
    case False
    then have len: "pos + 16 \<le> n" "16 \<le> unat (nlmsg_len e buf pos)" "pos + unat (nlmsg_len e buf pos) \<le> n"
      using less.prems by auto
    have step: "nl_step (nlmsg_len e buf pos) = nl_align (unat (nlmsg_len e buf pos))"
      using len n by (intro nl_step_align) (simp add: rxbuf_size_def)
    have "4 dvd n - pos" using n(1) msg_at_dvd [OF less.prems(1)] by (rule dvd_diff_nat)
    then have le: "nl_align (unat (nlmsg_len e buf pos)) \<le> n - pos"
      using len by (intro nl_align_le) auto
    have pos: "0 < nl_align (unat (nlmsg_len e buf pos))"
      using len(2) nl_align_props(1) [of "unat (nlmsg_len e buf pos)"] by simp
    let ?next = "pos + nl_align (unat (nlmsg_len e buf pos))"
    have "no_overrun (nl_walk e buf f ?next (int n - int ?next))"
      using less.prems len le pos by (intro less.hyps) (auto intro: msg_next)
    then show ?thesis
      using u n len pos f [OF less.prems(1) len(3,1)]
      by (subst nl_walk.simps) (auto simp: NLMSG_HDRLEN_def Let_def step algebra_simps split: option.splits)
  qed
qed

lemma rta_walk_no_overrun:
  assumes "int pos + attr_len \<le> int (length buf)"
  shows "no_overrun (rta_walk P buf pos attr_len)"
  using assms
proof (induction P buf pos attr_len rule: rta_walk.induct)
  case (1 P buf pos attr_len)
  show ?case
  proof (cases "attr_len < 4 \<or> rta_len (byte_order P) buf pos < 4 \<or> int (rta_len (byte_order P) buf pos) > attr_len")
    case True
    then show ?thesis
      using 1(2) by (subst rta_walk.simps) (auto simp: no_overrun_def Let_def)
  next
    case False
    have "no_overrun (rta_walk P buf (pos + nl_align (rta_len (byte_order P) buf pos))
        (attr_len - int (nl_align (rta_len (byte_order P) buf pos))))"
      if "\<not> (rta_type (byte_order P) buf pos = IFLA_STATS64 \<and> rta_len (byte_order P) buf pos - 4 \<ge> sizeof_stats64 P)"
        "\<not> (rta_type (byte_order P) buf pos = IFLA_STATS \<and> rta_len (byte_order P) buf pos - 4 \<ge> sizeof_stats32 P)"
      using False 1(2) that by (intro 1(1)) auto
    then show ?thesis
      using False 1(2) by (subst rta_walk.simps) (auto simp: no_overrun_def Let_def)
  qed
qed

text \<open>
  C20: the walks over the replies stay inside the buffer. On every datagram that the kernel's format
  allows, whatever its messages and attributes contain, neither the wait for an acknowledgement nor
  the search for the counters reads behind the buffer, and both end. What each attribute's length
  says is checked against what is left of its message.
\<close>

theorem netlink_walks_in_bounds:
  assumes "kernel_datagram (byte_order P) buf n"
  shows "no_overrun (nl_walk (byte_order P) buf (acked_body (byte_order P) buf seq) 0 (int n)) \<and>
    no_overrun (nl_walk (byte_order P) buf (stats_body P buf seq index) 0 (int n))"
proof -
  let ?e = "byte_order P"
  have size: "n \<le> length buf" "length buf = 8192"
    using assms by (simp_all add: kernel_datagram_def rxbuf_size_def)
  have msg: "(nlmsg_type ?e buf pos = NLMSG_ERROR \<longrightarrow> 20 \<le> unat (nlmsg_len ?e buf pos)) \<and>
      (nlmsg_type ?e buf pos = RTM_NEWLINK \<longrightarrow> 32 \<le> unat (nlmsg_len ?e buf pos))"
    if "msg_at ?e buf n pos" "pos + 16 \<le> n" for pos
    using assms that by (simp add: kernel_datagram_def)
  have acked: "no_overrun r" if "msg_at ?e buf n pos" "pos + unat (nlmsg_len ?e buf pos) \<le> n" "pos + 16 \<le> n"
      "acked_body ?e buf seq pos = Some r" for pos r
    using that msg [OF that(1,3)] size by (auto simp: acked_body_def no_overrun_def split: if_splits)
  have stats: "no_overrun r" if "msg_at ?e buf n pos" "pos + unat (nlmsg_len ?e buf pos) \<le> n" "pos + 16 \<le> n"
      "stats_body P buf seq index pos = Some r" for pos r
  proof -
    have "no_overrun (rta_walk P buf (pos + 32) (sint (nlmsg_len ?e buf pos - of_nat (NLMSG_LENGTH sizeof_ifinfomsg))))"
      if l: "32 \<le> unat (nlmsg_len ?e buf pos)"
    proof (rule rta_walk_no_overrun)
      have "unat (nlmsg_len ?e buf pos - 32) = unat (nlmsg_len ?e buf pos) - 32"
        using l by (simp add: unat_sub word_le_nat_alt)
      moreover have "unat (nlmsg_len ?e buf pos) \<le> 8192"
        using \<open>pos + unat (nlmsg_len ?e buf pos) \<le> n\<close> size by simp
      ultimately have si: "sint (nlmsg_len ?e buf pos - 32) = int (unat (nlmsg_len ?e buf pos) - 32)"
        by (simp add: sint_small)
      have "int (pos + 32) + int (unat (nlmsg_len ?e buf pos) - 32) \<le> int (length buf)"
        using l \<open>pos + unat (nlmsg_len ?e buf pos) \<le> n\<close> size by linarith
      then show "int (pos + 32) + sint (nlmsg_len ?e buf pos - of_nat (NLMSG_LENGTH sizeof_ifinfomsg)) \<le> int (length buf)"
        unfolding si [symmetric] by (simp add: NLMSG_LENGTH_def sizeof_ifinfomsg_def NLMSG_HDRLEN_def)
    qed
    then show ?thesis
      using that msg [OF that(1,3)] size
      by (auto simp: stats_body_def Let_def no_overrun_def split: if_splits)
  qed
  show ?thesis
    using nl_walk_no_overrun [OF assms acked msg_first] nl_walk_no_overrun [OF assms stats msg_first] by simp
qed


section \<open>Requests and their attributes\<close>

text \<open>
  How the attributes of a message are read, from the documentation: each begins with its length, which
  includes the four bytes of its header, and its type; the next one follows after padding.
\<close>

function attributes :: "endian \<Rightarrow> u8 list \<Rightarrow> (u16 \<times> u8 list) list" where
  "attributes e bs =
     (let len = unat (load16 e (slice_of 0 2 bs))
      in if length bs < 4 \<or> len < 4 \<or> len > length bs then []
         else (load16 e (slice_of 2 2 bs), slice_of 4 (len - 4) bs) # attributes e (drop (nl_align len) bs))"
  by pat_completeness auto
termination
  by (relation "measure (\<lambda>(e, bs). length bs)") (auto simp: nl_align_def)

declare attributes.simps [simp del]

definition attribute_bytes :: "endian \<Rightarrow> u16 \<Rightarrow> u8 list \<Rightarrow> u8 list" where
  "attribute_bytes e ty data =
     (let len = RTA_LENGTH (length data)
      in store16 e (of_nat len) @ store16 e ty @ data @ replicate (nl_align len - len) 0)"

lemma length_store16 [simp]: "length (store16 e v) = 2"
  by (cases e) (simp_all add: store16_def)

lemma load_store16 [simp]: "load16 e (store16 e v) = v"
  by (cases e) (simp_all add: store16_def load16_def le_val_bytes)

lemma load_store32 [simp]: "load32 e (store32 e v) = v"
  by (cases e) (simp_all add: store32_def load32_def le_val_bytes)

lemma length_attribute_bytes: "length (attribute_bytes e ty data) = nl_align (RTA_LENGTH (length data))"
  using nl_align_props(1) [of "RTA_LENGTH (length data)"]
  by (simp add: attribute_bytes_def Let_def RTA_LENGTH_def)

lemma attributes_cons:
  assumes "length data + 4 < 2 ^ 16"
  shows "attributes e (attribute_bytes e ty data @ rest) = (ty, data) # attributes e rest"
proof -
  have u: "unat (of_nat (length data + 4) :: u16) = length data + 4"
    by (rule unat_of_nat_eq) (use assms in simp)
  have len: "length data + 4 \<le> length (attribute_bytes e ty data @ rest)"
    using nl_align_props(1) [of "RTA_LENGTH (length data)"]
    by (simp add: length_attribute_bytes RTA_LENGTH_def)
  have s: "slice_of 0 2 (attribute_bytes e ty data @ rest) = store16 e (of_nat (length data + 4))"
    "slice_of 2 2 (attribute_bytes e ty data @ rest) = store16 e ty"
    "slice_of 4 (length data) (attribute_bytes e ty data @ rest) = data"
    by (simp_all add: attribute_bytes_def Let_def RTA_LENGTH_def slice_of_def)
  have d: "drop (nl_align (length data + 4)) (attribute_bytes e ty data @ rest) = rest"
    using length_attribute_bytes [of e ty data] by (simp add: RTA_LENGTH_def)
  show ?thesis
    unfolding attributes.simps [of e "attribute_bytes e ty data @ rest"] Let_def s(1,2) load_store16 u d
    using len s(3) by simp
qed

lemma attributes_Nil [simp]: "attributes e [] = []"
  by (subst attributes.simps) simp

text \<open>A request under construction: what follows the attributes is zero.\<close>

definition open_request :: "nat \<Rightarrow> u8 list \<Rightarrow> nl_request \<Rightarrow> bool" where
  "open_request maxlen content r \<longleftrightarrow> nl_len r = 16 + length content \<and> 4 dvd length content \<and>
     nl_len r \<le> maxlen \<and> nl_body r = content @ replicate (maxlen - nl_len r) 0"

lemma add_attr_open:
  assumes "open_request maxlen content r" and "nl_add_attr e maxlen ty data r = Inr r'"
  shows "open_request maxlen (content @ attribute_bytes e ty data) r'"
    "nl_type r' = nl_type r" "nl_flags r' = nl_flags r" "nl_seq_of r' = nl_seq_of r"
proof -
  let ?len = "RTA_LENGTH (length data)"
  have al: "nl_align (nl_len r) = nl_len r"
    using assms(1) by (auto simp: open_request_def nl_align_def dvd_def)
  have r': "nl_len r + nl_align ?len \<le> maxlen"
    "r' = r\<lparr>nl_body := store_at (nl_len r - 16) (store16 e (of_nat ?len) @ store16 e ty @ data) (nl_body r),
            nl_len := nl_len r + nl_align ?len\<rparr>"
    using assms(2) al by (auto simp: nl_add_attr_def Let_def NLMSG_HDRLEN_def split: if_splits)
  have ge: "?len \<le> nl_align ?len" by (rule nl_align_props)
  have "maxlen - nl_len r - ?len = (nl_align ?len - ?len) + (maxlen - (nl_len r + nl_align ?len))"
    using r'(1) ge by simp
  then have "replicate (maxlen - nl_len r - ?len) (0 :: u8)
      = replicate (nl_align ?len - ?len) 0 @ replicate (maxlen - (nl_len r + nl_align ?len)) 0"
    by (metis replicate_add)
  then have "nl_body r' = content @ attribute_bytes e ty data @ replicate (maxlen - (nl_len r + nl_align ?len)) 0"
    using assms(1) r' by (simp add: open_request_def store_at_def attribute_bytes_def Let_def RTA_LENGTH_def)
  then show "open_request maxlen (content @ attribute_bytes e ty data) r'"
    using assms(1) r' nl_align_props(2) [of ?len] by (simp add: open_request_def length_attribute_bytes)
  show "nl_type r' = nl_type r" "nl_flags r' = nl_flags r" "nl_seq_of r' = nl_seq_of r"
    using r'(2) by simp_all
qed

lemma add_attr_fits:
  assumes "open_request maxlen content r" and "nl_len r + nl_align (RTA_LENGTH (length data)) \<le> maxlen"
  shows "\<exists>r'. nl_add_attr e maxlen ty data r = Inr r'"
proof -
  have "nl_align (nl_len r) = nl_len r"
    using assms(1) by (auto simp: open_request_def nl_align_def dvd_def)
  then show ?thesis
    using assms(2) by (simp add: nl_add_attr_def Let_def)
qed

lemma new_request_open:
  "4 dvd length payload \<Longrightarrow> open_request (NLMSG_LENGTH (length payload) + buf) payload (new_request ty fl seq payload buf)"
  by (simp add: open_request_def new_request_def NLMSG_LENGTH_def NLMSG_HDRLEN_def)

lemma length_store32 [simp]: "length (store32 e v) = 4"
  by (cases e) (simp_all add: store32_def)

lemma open_request_bytes:
  "open_request maxlen content r \<Longrightarrow> nl_bytes e r = store32 e (of_nat (nl_len r)) @ store16 e (nl_type r) @
     store16 e (nl_flags r) @ store32 e (nl_seq_of r) @ store32 e 0 @ content"
  by (simp add: nl_bytes_def open_request_def)

text \<open>
  C21: the request that gives the device its address says what it should. For every valid network and
  every name that fits an interface, the three attributes fit the buffer of 256 bytes; the length in
  the header is the number of bytes sent; and a reader of the message finds the prefix and the index
  in its \<open>ifaddrmsg\<close>, then the address twice and, for IPv4, the name with its final zero, in order.
\<close>

theorem cidr_request_encodes:
  assumes "wf_address (cidr_address c)" and "length (tun_name t) < IFNAMSIZ"
  shows "\<exists>r. cidr_request e seq t c = Inr r \<and> length (nl_bytes e r) = nl_len r \<and> nl_len r \<le> 280 \<and>
    load32 e (slice_of 0 4 (nl_bytes e r)) = of_nat (nl_len r) \<and>
    load16 e (slice_of 4 2 (nl_bytes e r)) = RTM_NEWADDR \<and> load32 e (slice_of 8 4 (nl_bytes e r)) = seq \<and>
    slice_of 16 8 (nl_bytes e r) =
      ifaddrmsg e (if is_ip4 c then 2 else 10) (cidr_prefix c) (tun_index t) \<and>
    attributes e (drop 24 (nl_bytes e r)) =
      (let ip = (if is_ip4 c then ip4_bytes (cidr_address c) else ip6_bytes (cidr_address c))
       in [(IFA_LOCAL, ip), (IFA_ADDRESS, ip)] @
          (if is_ip4 c then [(IFA_LABEL, map byte_of_char (tun_name t) @ [0])] else []))"
proof -
  define fam where "fam = (if is_ip4 c then 2 else 10 :: u8)"
  define ip where "ip = (if is_ip4 c then ip4_bytes (cidr_address c) else ip6_bytes (cidr_address c))"
  define label where "label = map byte_of_char (tun_name t) @ [0 :: u8]"
  define pay where "pay = ifaddrmsg e fam (cidr_prefix c) (tun_index t)"
  define q0 where "q0 = new_request RTM_NEWADDR (NLM_F_REQUEST OR NLM_F_ACK OR NLM_F_CREATE OR NLM_F_REPLACE) seq pay 256"
  have len: "length ip \<le> 16" "length label \<le> 16" "length pay = 8"
    using assms by (auto simp: ip_def label_def pay_def ifaddrmsg_def wf_address_def IFNAMSIZ_def)
  have o0: "open_request 280 pay q0"
    using new_request_open [of pay 256] len(3) by (simp add: q0_def NLMSG_LENGTH_def NLMSG_HDRLEN_def)
  have a: "nl_align (RTA_LENGTH (length ip)) \<le> 20" "nl_align (RTA_LENGTH (length label)) \<le> 20"
    using len by (auto simp: nl_align_def RTA_LENGTH_def)
  let ?A = "attribute_bytes e IFA_LOCAL ip" and ?B = "attribute_bytes e IFA_ADDRESS ip" and ?C = "attribute_bytes e IFA_LABEL label"
  obtain q1 where q1: "nl_add_attr e 280 IFA_LOCAL ip q0 = Inr q1"
    using add_attr_fits [OF o0, of ip e IFA_LOCAL] a len o0 by (auto simp: open_request_def)
  note o1 = add_attr_open [OF o0 q1]
  obtain q2 where q2: "nl_add_attr e 280 IFA_ADDRESS ip q1 = Inr q2"
    using add_attr_fits [OF o1(1), of ip e IFA_ADDRESS] a len o1(1) by (auto simp: open_request_def length_attribute_bytes)
  note o2 = add_attr_open [OF o1(1) q2]
  obtain q3 where q3: "nl_add_attr e 280 IFA_LABEL label q2 = Inr q3"
    using add_attr_fits [OF o2(1), of label e IFA_LABEL] a len o2(1) by (auto simp: open_request_def length_attribute_bytes)
  note o3 = add_attr_open [OF o2(1) q3]
  define r where "r = (if is_ip4 c then q3 else q2)"
  define content where "content = pay @ ?A @ ?B @ (if is_ip4 c then ?C else [])"
  have r: "cidr_request e seq t c = Inr r"
    using q1 q2 q3 by (auto simp: cidr_request_def Let_def r_def get_address_def get_prefix_def ip_def fam_def pay_def label_def q0_def
        families NLMSG_LENGTH_def NLMSG_HDRLEN_def sizeof_ifaddrmsg_def split: if_splits)
  have orq: "open_request 280 content r"
    using o2(1) o3(1) by (simp add: r_def content_def)
  have f: "nl_type r = RTM_NEWADDR" "nl_seq_of r = seq"
    using o1 o2 o3 by (simp_all add: r_def q0_def new_request_def)
  have bytes: "nl_bytes e r = store32 e (of_nat (nl_len r)) @ store16 e (nl_type r) @
     store16 e (nl_flags r) @ store32 e (nl_seq_of r) @ store32 e 0 @ content"
    using open_request_bytes [OF orq] .
  have "attributes e (drop 24 (nl_bytes e r)) = attributes e (?A @ ?B @ (if is_ip4 c then ?C else []))"
    using len(3) by (simp add: bytes content_def)
  also have "\<dots> = [(IFA_LOCAL, ip), (IFA_ADDRESS, ip)] @ (if is_ip4 c then [(IFA_LABEL, label)] else [])"
    using len attributes_cons [of ip e] attributes_cons [of label e IFA_LABEL "[]"] by simp
  finally have attrs: "attributes e (drop 24 (nl_bytes e r)) = \<dots>" .
  have "nl_len r = 16 + length content" "nl_len r \<le> 280"
    using orq by (simp_all add: open_request_def)
  then have "length (nl_bytes e r) = nl_len r" "nl_len r \<le> 280"
    by (simp_all add: bytes)
  moreover have "slice_of 0 4 (nl_bytes e r) = store32 e (of_nat (nl_len r))" "slice_of 4 2 (nl_bytes e r) = store16 e RTM_NEWADDR"
    "slice_of 8 4 (nl_bytes e r) = store32 e seq" "slice_of 16 8 (nl_bytes e r) = pay"
    using f len(3) by (simp_all add: bytes slice_of_def content_def)
  ultimately show ?thesis
    using r attrs load_store32 by (intro exI [of _ r]) (simp add: ip_def label_def pay_def fam_def Let_def)
qed

section \<open>No descriptor is lost\<close>

definition tun_held :: "tun_device \<Rightarrow> int multiset" where
  "tun_held t = held_by (Some (tun_fd t)) + sock_held (tun_nl t)"

interpretation owned_tun: fd_owner P tun_held tun_destroy tun_move tun_move_assign for P
proof
  show ends: "balanced P w (h + tun_held t) (tun_destroy t w) h" for w h t
  proof -
    let ?w = "if tun_is_valid t then log_call (Close_fd (get_fd t)) w else w"
    have "balanced P w (h + tun_held t) ?w (h + sock_held (tun_nl t))"
      using balanced_close [of P w "get_fd t" "h + sock_held (tun_nl t)"]
      by (auto simp: tun_held_def held_by_def tun_is_valid_def get_fd_def fd_get_def ac_simps)
    also have "balanced P ?w (h + sock_held (tun_nl t)) (socket_destroy (tun_nl t) ?w) h"
      by (rule owned_socket.end_closes)
    finally show ?thesis by (simp only: tun_destroy_eq)
  qed
  show "balanced P w (h + tun_held x) w' h" if "tun_move_assign x y w = (x', y', w')" for w h x y x' y' w'
    using that ends by (auto simp: tun_move_assign_eq)
qed (auto simp: tun_move_eq tun_move_assign_eq tun_held_def tun_default_def)

lemma nl_send_raw_balance: "nl_send_raw P t r w = (x, w') \<Longrightarrow> balanced P w h w' h"
  by (auto simp: nl_send_raw_def call_def Let_def intro: balanced_neutral split: if_splits)

lemma walk_result_balance: "walk_result r w = (x, w') \<Longrightarrow> balanced P w h w' h"
  by (auto simp: walk_result_def undefined_behaviour_def intro: balanced_neutral split: walk.splits)

lemma nl_recv_loop_balance:
  assumes "nl_recv_loop P fd f buf w = Some (x, w')"
  shows "balanced P w h w' h"
proof -
  have "balanced P w h (snd y) h" if "nl_recv_loop P fd f buf w = Some y" for y
  proof (rule nl_recv_loop.raw_induct [where Pa = "\<lambda>((((P, fd), f), buf), w) y. balanced P w h (snd y) h", unfolded prod.case, OF _ that])
    fix loop :: "platform \<Rightarrow> int \<Rightarrow> (u8 list \<Rightarrow> nat \<Rightarrow> 'a walk option) \<Rightarrow> u8 list \<Rightarrow> world \<Rightarrow> ('a result \<times> world) option"
      and P fd f buf w y
    let ?w = "log_call (Sys_recv fd rxbuf_size 0) w"
    assume IH: "\<And>P fd f buf w y. loop P fd f buf w = Some y \<Longrightarrow> balanced P w h (snd y) h"
      and body: "(let n = fst (call P (Sys_recv fd rxbuf_size 0) w); w = snd (call P (Sys_recv fd rxbuf_size 0) w)
         in if n < 0 then (if errno_of P (trace w) = EINTR then loop P fd f buf w
              else Some (Inl (Error_no RecvFailed (errno_of P (trace w))), w))
            else let buf = fill_rxbuf P (nat n) w buf; r = nl_walk (byte_order P) buf (f buf) 0 n
                 in if is_unanswered r then loop P fd f buf w else if is_endless r then None else Some (walk_result r w)) = Some y"
    have "balanced P w h ?w h"
      by (rule balanced_neutral) simp
    moreover have "balanced P ?w h (snd y) h"
      using body IH walk_result_balance [of _ ?w "fst y" "snd y" P h] by (auto simp: Let_def split: if_splits)
    ultimately show "balanced P w h (snd y) h"
      by (rule balanced_trans)
  qed
  then show ?thesis
    using assms by fastforce
qed

lemma nl_send_acked_balance: "nl_send_acked P t r w = Some (x, w') \<Longrightarrow> balanced P w h w' h"
  by (auto simp: nl_send_acked_def split: prod.splits sum.splits dest: nl_send_raw_balance nl_recv_loop_balance
      intro: balanced_trans)

lemma next_seq_balance: "next_seq w = (s, w') \<Longrightarrow> balanced P w h w' h"
  by (auto simp: next_seq_def balanced_def)

lemma set_mtu_balance:
  assumes "set_mtu P mtu t w = Some (x, t', w')"
  shows "balanced P w h w' h" "tun_held t' = tun_held t"
  using assms next_seq_balance [of w "fst (next_seq w)" "snd (next_seq w)" P h] nl_send_acked_balance [of P t _ "snd (next_seq w)" _ _ h]
  by (auto simp: set_mtu_def tun_held_def split: prod.splits sum.splits option.splits intro: balanced_trans)

lemma set_cidr_balance:
  assumes "set_cidr P c t w = Some (x, w')"
  shows "balanced P w h w' h"
  using assms next_seq_balance [of w "fst (next_seq w)" "snd (next_seq w)" P h] nl_send_acked_balance [of P t _ "snd (next_seq w)" _ _ h]
  by (auto simp: set_cidr_def split: prod.splits sum.splits option.splits intro: balanced_trans terminate_balance)

lemma open_netlink_balance:
  assumes "open_netlink P c mtu t w = Some (x, t', w')" and "tun_nl t = socket_default"
  shows "balanced P w (tun_held t) w' (tun_held t')"
proof -
  define fd where "fd = sys P (trace w @ [Sys_socket AF_NETLINK (SOCK_RAW OR SOCK_CLOEXEC) 0])"
  define w1 where "w1 = log_call (Sys_socket AF_NETLINK (SOCK_RAW OR SOCK_CLOEXEC) 0) w"
  define t1 where "t1 = t\<lparr>tun_nl := make_socket fd AF_UNSPEC\<rparr>"
  have a: "socket_move_assign (tun_nl t) (make_socket fd AF_UNSPEC) w1 = (make_socket fd AF_UNSPEC, socket_default, w1)"
    using assms(2) by (simp add: socket_move_assign_eq socket_is_valid_def socket_default_def fd_default_def fd_is_valid_def
        invalid_fd_def make_socket_def sock_get_def fd_get_def fd_new_def)
  have b1: "balanced P w (tun_held t) w1 (tun_held t1)"
    using open_balance(2) [of P w "tun_held t" AF_NETLINK "SOCK_RAW OR SOCK_CLOEXEC" 0] assms(2)
    by (simp add: w1_def t1_def tun_held_def fd_def make_socket_def sock_held_def socket_default_def)
  define w2 where "w2 = log_call (Bind_netlink (sock_get (tun_nl t1))) w1"
  have n1: "tun_nl t1 = make_socket fd AF_UNSPEC"
    by (simp add: t1_def)
  have b2: "balanced P w1 h w2 h" for h
    unfolding w2_def by (rule balanced_neutral) simp
  have o: "open_netlink P c mtu t w =
     (if \<not> socket_is_valid (tun_nl t1) then Some (Inl (Error_no SocketCreateFailed (errno_of P (trace w1))), t1, w1)
      else if sys P (trace w2) < 0 then Some (Inl (Error_no BindFailed (errno_of P (trace w2))), t1, w2)
      else (case set_mtu P mtu t1 w2 of None \<Rightarrow> None | Some (Inl e, t, w) \<Rightarrow> Some (Inl e, t, w)
            | Some (Inr _, t, w) \<Rightarrow> (case set_cidr P c t w of None \<Rightarrow> None | Some (r, w) \<Rightarrow> Some (r, t, w))))"
    using a n1 by (simp add: open_netlink_def call_def Let_def fd_def [symmetric] w1_def [symmetric] t1_def [symmetric] w2_def)
  have b3: "balanced P w2 (tun_held t1) w' (tun_held t')"
    if s: "set_mtu P mtu t1 w2 = Some (y, t3, w3)" and "t' = t3"
      and "w' = w3 \<or> (\<exists>r. set_cidr P c t3 w3 = Some (r, w'))" for y t3 w3
    using set_mtu_balance [OF s] that set_cidr_balance balanced_trans by metis
  show ?thesis
  proof (cases "\<not> socket_is_valid (tun_nl t1) \<or> sys P (trace w2) < 0")
    case True
    then show ?thesis
      using assms(1) b1 balanced_trans [OF b1 b2] unfolding o by (auto split: if_splits)
  next
    case False
    then obtain y t3 w3 where s: "set_mtu P mtu t1 w2 = Some (y, t3, w3)"
      using assms(1) unfolding o by (cases "set_mtu P mtu t1 w2") auto
    have "t' = t3 \<and> (w' = w3 \<or> (\<exists>r. set_cidr P c t3 w3 = Some (r, w')))"
      using assms(1) False s unfolding o by (auto split: sum.splits option.splits)
    then show ?thesis
      using b3 [OF s] balanced_trans [OF balanced_trans [OF b1 b2]] by blast
  qed
qed

lemma tun_close_balance: "tun_close t w = (t', w') \<Longrightarrow> balanced P w (tun_held t) w' (tun_held t')"
  using balanced_close [of P w "get_fd t" "sock_held (tun_nl t)"]
  by (auto simp: tun_close_eq tun_held_def held_by_def tun_is_valid_def get_fd_def fd_get_def fd_is_valid_def invalid_fd_def ac_simps)

lemma create_tun_device_balance:
  assumes "create_tun_device P mtu0 name c mtu w = Some (r, w')"
  shows "balanced P w {#} w' (case r of Inl _ \<Rightarrow> {#} | Inr t \<Rightarrow> tun_held t)"
proof -
  define fd where "fd = sys P (trace w @ [Open_tun])"
  define w1 where "w1 = log_call Open_tun w"
  define t1 where "t1 = (tun_default mtu0)\<lparr>tun_fd := fd_new fd\<rparr>"
  define w2 where "w2 = log_call (Ioctl_tunsetiff (get_fd t1) (request_name name)) w1"
  define t2 where "t2 = t1\<lparr>tun_name := take (IFNAMSIZ - 1) (c_str (answer_name P (trace w2)))\<rparr>"
  define w3 where "w3 = log_call (If_nametoindex (tun_name t2)) w2"
  define t3 where "t3 = t2\<lparr>tun_index := sys P (trace w3)\<rparr>"
  have d: "fd_move_assign fd_default (fd_new fd) w1 = (fd_new fd, fd_default, w1)"
    by (simp add: fd_move_assign_def fd_close_def fd_reset_def fd_default_def fd_new_def)
  have held: "tun_held t2 = tun_held t1" "tun_held t3 = tun_held t1" "tun_nl t3 = socket_default"
    by (simp_all add: t2_def t3_def t1_def tun_held_def tun_default_def)
  have b1: "balanced P w {#} w1 (tun_held t1)"
    using open_balance(1) [of P w "{#}"] by (simp add: w1_def t1_def tun_held_def fd_def tun_default_def)
  have b2: "balanced P w {#} w2 (tun_held t1)"
    by (rule balanced_trans [OF b1]) (simp add: w2_def balanced_neutral)
  have b3: "balanced P w {#} w3 (tun_held t1)"
    by (rule balanced_trans [OF b2]) (simp add: w3_def balanced_neutral)
  have c: "create_tun_device P mtu0 name c mtu w =
     (if \<not> fd_is_valid (fd_new fd) then Some (Inl (Error_no TunOpenFailed (errno_of P (trace w1))), tun_destroy t1 w1)
      else if sys P (trace w2) < 0
      then (case tun_close t1 w2 of (t, v) \<Rightarrow> Some (Inl (Error_no TunIoctlFailed (errno_of P (trace w2))), tun_destroy t v))
      else if tun_index t3 = 0
      then (case tun_close t3 w3 of (t, v) \<Rightarrow> Some (Inl (Error_no TunNameToIndexFailed (errno_of P (trace w3))), tun_destroy t v))
      else (case open_netlink P c mtu t3 w3 of
              None \<Rightarrow> None
            | Some (Inl e, t, w) \<Rightarrow> Some (Inl e, tun_destroy t w)
            | Some (Inr _, t, w) \<Rightarrow> Some (Inr (fst (tun_move t)), tun_destroy (snd (tun_move t)) w)))"
    unfolding create_tun_device_def call_def Let_def prod.case fd_def [symmetric] w1_def [symmetric] d
    by (simp add: t1_def [symmetric] t3_def t2_def w3_def w2_def Let_def split: prod.split)
      (simp add: t1_def)
  have closes: "balanced P w {#} (tun_destroy t v') {#}"
    if "balanced P w {#} v (tun_held u)" "tun_close u v = (t, v')" for t u v v'
    using owned_tun.ended_last [OF balanced_trans [OF that(1) tun_close_balance [OF that(2)]]] .
  consider "\<not> fd_is_valid (fd_new fd)" | "fd_is_valid (fd_new fd)" "sys P (trace w2) < 0"
    | "fd_is_valid (fd_new fd)" "\<not> sys P (trace w2) < 0" "tun_index t3 = 0"
    | (last) "fd_is_valid (fd_new fd)" "\<not> sys P (trace w2) < 0" "tun_index t3 \<noteq> 0" by blast
  then show ?thesis
  proof cases
    case 1
    then show ?thesis
      using assms owned_tun.ended_last [OF b1] unfolding c by auto
  next
    case 2
    then show ?thesis
      using assms closes [OF b2] unfolding c by (auto split: prod.splits)
  next
    case 3
    have "balanced P w {#} w3 (tun_held t3)" using b3 held by simp
    then show ?thesis
      using assms 3 closes unfolding c by (auto split: prod.splits)
  next
    case last
    then obtain y t4 w4 where o: "open_netlink P c mtu t3 w3 = Some (y, t4, w4)"
      using assms unfolding c by (cases "open_netlink P c mtu t3 w3") auto
    have b4: "balanced P w {#} w4 (tun_held t4)"
      using balanced_trans [OF b3] open_netlink_balance [OF o held(3)] held(2) by simp
    have "tun_destroy (tun_default 0) w4 = w4"
      by (simp add: tun_destroy_eq tun_is_valid_def tun_default_def fd_default_def fd_is_valid_def invalid_fd_def
          socket_destroy_eq socket_is_valid_def socket_default_def)
    then show ?thesis
      using assms last o b4 owned_tun.ended_last [OF b4] unfolding c
      by (cases y) (auto simp: tun_move_eq)
  qed
qed

text \<open>
  C19: making a device loses no descriptor. Whatever fails, opening the device, naming it, the netlink
  socket, or a request to the kernel, the descriptors opened on the way are closed exactly once; and a
  device that is returned holds exactly the two that are open.
\<close>

theorem create_tun_device_balanced:
  assumes "create_tun_device P mtu0 name c mtu w = Some (r, w')"
  shows "balanced P w {#} w' (case r of Inl _ \<Rightarrow> {#} | Inr t \<Rightarrow> tun_held t)"
  using assms by (rule create_tun_device_balance)

section \<open>Examples\<close>


text \<open>An acknowledgement of request 7, and a datagram of 8189 bytes.\<close>

definition ack_buffer :: "u8 list" where
  "ack_buffer = store32 Little_endian 36 @ store16 Little_endian 2 @ [0, 0] @ store32 Little_endian 7 @ replicate 8180 0"

lemma ack_fields:
  "nlmsg_len Little_endian ack_buffer 0 = 36" "nlmsg_type Little_endian ack_buffer 0 = 2"
  "nlmsg_seq Little_endian ack_buffer 0 = 7" "length ack_buffer = 8192"
  by (simp_all add: ack_buffer_def nlmsg_len_def nlmsg_type_def nlmsg_seq_def slice_of_def load_store32)

lemma ack_positions: "msg_at Little_endian ack_buffer 36 pos \<Longrightarrow> pos = 0 \<or> pos = 36"
  by (induction rule: msg_at.induct) (auto simp: ack_fields nl_align_def)

theorem netlink_walks_in_bounds_witness:
  "no_overrun (nl_walk Little_endian ack_buffer (acked_body Little_endian ack_buffer 7) 0 (int 36))"
proof -
  have "kernel_datagram (byte_order friendly) ack_buffer 36"
    unfolding kernel_datagram_def
    using ack_positions by (fastforce simp: ack_fields rxbuf_size_def NLMSG_ERROR_def RTM_NEWLINK_def)
  then show ?thesis
    using netlink_walks_in_bounds [of friendly ack_buffer 36 7 0] by simp
qed


theorem cidr_request_encodes_witness:
  "\<exists>r. cidr_request Little_endian 7 (tun_default 0) \<lparr>cidr_address = example_ip4, cidr_prefix = 25\<rparr> = Inr r \<and>
     attributes Little_endian (drop 24 (nl_bytes Little_endian r)) =
       [(IFA_LOCAL, [10, 0, 0, 200]), (IFA_ADDRESS, [10, 0, 0, 200]), (IFA_LABEL, [0])]"
  using cidr_request_encodes [of "\<lparr>cidr_address = example_ip4, cidr_prefix = 25\<rparr>" "tun_default 0" Little_endian 7]
    example_cidr_facts(6)
  by (auto simp: IFNAMSIZ_def tun_default_def is_ip4_def example_ip4_def ip4_bytes_def slice_of_def Let_def)

text \<open>A system on which the device can be opened as descriptor 5, but not set up.\<close>

definition busy_platform :: platform where
  "busy_platform = friendly\<lparr>sys := (\<lambda>tr. case last tr of Open_tun \<Rightarrow> 5 | Ioctl_tunsetiff fd n \<Rightarrow> - 1 | _ \<Rightarrow> 0)\<rparr>"

definition busy_end :: world where
  "busy_end = log_call (Close_fd 5) (log_call (Ioctl_tunsetiff 5 ''tun0'') (log_call Open_tun initial_world))"

lemma busy_run:
  "create_tun_device busy_platform 0 ''tun0'' empty_cidr 1400 initial_world = Some (Inl (Error_no TunIoctlFailed 0), busy_end)"
  by (simp add: create_tun_device_def busy_platform_def busy_end_def call_def fd_move_assign_def fd_close_def fd_reset_def
      fd_default_def fd_new_def tun_default_def fd_is_valid_def invalid_fd_def get_fd_def fd_get_def tun_close_def tun_destroy_eq
      tun_is_valid_def socket_destroy_eq socket_is_valid_def socket_default_def request_name_def c_str_def IFNAMSIZ_def
      friendly_def Let_def byte_of_char_def)

theorem create_tun_device_balanced_witness:
  "create_tun_device busy_platform 0 ''tun0'' empty_cidr 1400 initial_world = Some (Inl (Error_no TunIoctlFailed 0), busy_end) \<and>
   opened_fds busy_platform busy_end = closed_fds busy_end \<and> closed_fds busy_end = {#5#}"
  using create_tun_device_balanced [OF busy_run] busy_run
  by (simp add: balanced_def busy_end_def closed_fds_def opened_fds_def initial_world_def)

end
