(* ===== verification/Netlink_Loop.thy ===== *)
theory Netlink_Loop
  imports Tun_Netlink
begin

text \<open>
  When the loops that wait for an answer of the kernel (\<open>TunDevice::nl_send_acked_\<close> and
  \<open>TunDevice::get_stats\<close> in \<open>src/net/tun.cpp\<close>) end: the rounds of the loop, and what each makes of the
  datagram it has read.
\<close>

type_synonym 'a nl_body = "u8 list \<Rightarrow> nat \<Rightarrow> 'a walk option"

text \<open>One round: the result of \<open>recv\<close>, then the buffer and the world after it.\<close>

definition nl_taken :: "platform \<Rightarrow> int \<Rightarrow> u8 list \<times> world \<Rightarrow> int" where
  "nl_taken P fd s = fst (call P (Sys_recv fd rxbuf_size 0) (snd s))"

definition nl_round :: "platform \<Rightarrow> int \<Rightarrow> u8 list \<times> world \<Rightarrow> u8 list \<times> world" where
  "nl_round P fd s = (let n = nl_taken P fd s; w = log_call (Sys_recv fd rxbuf_size 0) (snd s)
     in (if n < 0 then fst s else fill_rxbuf P (nat n) w (fst s), w))"

definition nl_walked :: "platform \<Rightarrow> int \<Rightarrow> 'a nl_body \<Rightarrow> u8 list \<times> world \<Rightarrow> 'a walk" where
  "nl_walked P fd f s = (let buf = fst (nl_round P fd s) in nl_walk (byte_order P) buf (f buf) 0 (nl_taken P fd s))"

text \<open>A round that is repeated: the call was interrupted, or the datagram holds no answer.\<close>

definition nl_idle :: "platform \<Rightarrow> int \<Rightarrow> 'a nl_body \<Rightarrow> u8 list \<times> world \<Rightarrow> bool" where
  "nl_idle P fd f s \<longleftrightarrow> (if nl_taken P fd s < 0 then errno_of P (trace (snd (nl_round P fd s))) = EINTR
     else is_unanswered (nl_walked P fd f s))"

text \<open>What a round that is not repeated returns; a step of length zero is repeated inside of the round.\<close>

definition nl_answer :: "platform \<Rightarrow> int \<Rightarrow> 'a nl_body \<Rightarrow> u8 list \<times> world \<Rightarrow> ('a result \<times> world) option" where
  "nl_answer P fd f s = (let w = snd (nl_round P fd s)
     in if nl_taken P fd s < 0 then Some (Inl (Error_no RecvFailed (errno_of P (trace w))), w)
        else if is_endless (nl_walked P fd f s) then None
        else Some (walk_result (nl_walked P fd f s) w))"

lemma nl_loop_unfold:
  "nl_recv_loop P fd f buf w = (if nl_idle P fd f (buf, w) then nl_recv_loop P fd f (fst (nl_round P fd (buf, w))) (snd (nl_round P fd (buf, w)))
     else nl_answer P fd f (buf, w))"
  by (subst nl_recv_loop.simps) (simp add: nl_idle_def nl_answer_def nl_walked_def nl_round_def nl_taken_def Let_def)

text \<open>The first state of a run that is not idle.\<close>

definition first_stop :: "('s \<Rightarrow> 's) \<Rightarrow> ('s \<Rightarrow> bool) \<Rightarrow> 's \<Rightarrow> nat \<Rightarrow> bool" where
  "first_stop r q s k \<longleftrightarrow> (\<forall>i < k. q ((r ^^ i) s)) \<and> \<not> q ((r ^^ k) s)"

lemma first_stop_0 [simp]: "first_stop r q s 0 \<longleftrightarrow> \<not> q s"
  by (simp add: first_stop_def)

lemma first_stop_Suc [simp]: "first_stop r q s (Suc k) \<longleftrightarrow> q s \<and> first_stop r q (r s) k"
proof -
  have "(\<forall>i < Suc k. q ((r ^^ i) s)) \<longleftrightarrow> q s \<and> (\<forall>i < k. q ((r ^^ Suc i) s))"
    using All_less_Suc2 [of k "\<lambda>i. q ((r ^^ i) s)"] by simp
  then show ?thesis
    by (simp add: first_stop_def funpow_swap1)
qed

definition nl_answered :: "platform \<Rightarrow> int \<Rightarrow> 'a nl_body \<Rightarrow> u8 list \<times> world \<Rightarrow> 'a result \<times> world \<Rightarrow> bool" where
  "nl_answered P fd f s y \<longleftrightarrow> (\<exists>k. first_stop (nl_round P fd) (nl_idle P fd f) s k \<and> nl_answer P fd f ((nl_round P fd ^^ k) s) = Some y)"

lemma nl_answered_now: "\<not> nl_idle P fd f s \<Longrightarrow> nl_answer P fd f s = Some y \<Longrightarrow> nl_answered P fd f s y"
  unfolding nl_answered_def by (rule exI [of _ 0]) simp

lemma nl_answered_later:
  assumes "nl_idle P fd f s" and "nl_answered P fd f (nl_round P fd s) y"
  shows "nl_answered P fd f s y"
proof -
  obtain k where "first_stop (nl_round P fd) (nl_idle P fd f) (nl_round P fd s) k"
      "nl_answer P fd f ((nl_round P fd ^^ k) (nl_round P fd s)) = Some y"
    using assms(2) unfolding nl_answered_def by (elim exE conjE)
  then show ?thesis
    unfolding nl_answered_def using assms(1) by (intro exI [of _ "Suc k"]) (simp add: funpow_swap1)
qed

lemma nl_loop_first:
  assumes "first_stop (nl_round P fd) (nl_idle P fd f) s k"
  shows "nl_recv_loop P fd f (fst s) (snd s) = nl_answer P fd f ((nl_round P fd ^^ k) s)"
  using assms
proof (induction k arbitrary: s)
  case 0
  then show ?case
    by (subst nl_loop_unfold) simp
next
  case (Suc k)
  then show ?case
    by (subst nl_loop_unfold) (simp add: funpow_swap1)
qed


end
