(* ===== verification/Address_Parse.thy ===== *)
theory Address_Parse
  imports Cidr
begin

text \<open>
  Reading addresses and networks (\<open>src/net/address/parse.cpp\<close>), with the functions of the standard
  library that it uses: the conversions of decimal numbers, and each regular expression as the
  function that matches it and returns its groups.
\<close>

section \<open>Numbers\<close>

definition is_digit :: "char \<Rightarrow> bool" where
  "is_digit c \<longleftrightarrow> 48 \<le> (of_char c :: nat) \<and> (of_char c :: nat) \<le> 57"

text \<open>\<open>isspace\<close> in the \<open>"C"\<close> locale.\<close>

definition is_space :: "char \<Rightarrow> bool" where
  "is_space c \<longleftrightarrow> (of_char c :: nat) \<in> {9, 10, 11, 12, 13, 32}"

definition dec_value :: "string \<Rightarrow> nat" where
  "dec_value ds = foldl (\<lambda>n c. 10 * n + (of_char c - 48)) 0 ds"

text \<open>The sign and the digits at the start of a string, as \<open>strtoll\<close> and \<open>strtoul\<close> read them.\<close>

definition scan_number :: "string \<Rightarrow> bool \<times> string" where
  "scan_number s =
     (let s = dropWhile is_space s
      in case s of
           [] \<Rightarrow> (False, [])
         | c # cs \<Rightarrow> if c = CHR ''-'' then (True, takeWhile is_digit cs)
                    else if c = CHR ''+'' then (False, takeWhile is_digit cs)
                    else (False, takeWhile is_digit s))"

definition stoll :: "string \<Rightarrow> int throws" where
  "stoll s =
     (let (neg, ds) = scan_number s; v = (if neg then - int (dec_value ds) else int (dec_value ds))
      in if ds = [] then Inl (Invalid_argument ''stoll'')
         else if v < - (2 ^ 63) \<or> v \<ge> 2 ^ 63 then Inl (Out_of_range ''stoll'')
         else Inr v)"

definition stoul :: "string \<Rightarrow> nat throws" where
  "stoul s =
     (let (neg, ds) = scan_number s; v = dec_value ds
      in if ds = [] then Inl (Invalid_argument ''stoul'')
         else if v \<ge> 2 ^ 64 then Inl (Out_of_range ''stoul'')
         else Inr (if neg then (2 ^ 64 - v) mod 2 ^ 64 else v))"

section \<open>The regular expressions\<close>

text \<open>A port: between one and five digits.\<close>

definition re_port :: "string \<Rightarrow> bool" where
  "re_port s \<longleftrightarrow> list_all is_digit s \<and> 1 \<le> length s \<and> length s \<le> 5"

definition any_char :: "char \<Rightarrow> bool" where
  "any_char c \<longleftrightarrow> (of_char c :: nat) \<notin> {10, 13}"

definition re_unix :: "string \<Rightarrow> string option" where
  "re_unix s = (let m = drop 5 s
     in if take 5 s = ''unix:'' \<and> m \<noteq> [] \<and> list_all any_char m then Some m else None)"

definition re_unixa :: "string \<Rightarrow> string option" where
  "re_unixa s = (let m = drop 6 s
     in if take 6 s = ''unixa:'' \<and> m \<noteq> [] \<and> list_all any_char m then Some m else None)"

text \<open>One of the four numbers of an IPv4 address.\<close>

fun re_octet :: "string \<Rightarrow> bool" where
  "re_octet [a] = is_digit a"
| "re_octet [a, b] = (is_digit a \<and> a \<noteq> CHR ''0'' \<and> is_digit b)"
| "re_octet [a, b, c] = (a = CHR ''2'' \<and> b = CHR ''5'' \<and> is_digit c \<and> (of_char c :: nat) \<le> 53
     \<or> a = CHR ''2'' \<and> is_digit b \<and> (of_char b :: nat) \<le> 52 \<and> is_digit c
     \<or> a = CHR ''1'' \<and> is_digit b \<and> is_digit c)"
| "re_octet _ = False"

text \<open>
  The expression for IPv4 is a raw string over several lines, and ECMAScript has no free-spacing
  mode: the line ends and the indentation are part of what it matches.
\<close>

definition indentation :: "nat \<Rightarrow> string" where
  "indentation n = CHR 0x0A # replicate n (CHR '' '')"

text \<open>A literal prefix, then the rest of the string.\<close>

definition after_prefix :: "string \<Rightarrow> string \<Rightarrow> string option" where
  "after_prefix p s = (if take (length p) s = p then Some (drop (length p) s) else None)"

text \<open>An indented octet with what follows it, then the rest of the string.\<close>

definition re_line :: "string \<Rightarrow> string \<Rightarrow> string option" where
  "re_line suffix s = (case after_prefix (indentation 8) s of
      None \<Rightarrow> None
    | Some s \<Rightarrow> if re_octet (takeWhile is_digit s) then after_prefix suffix (dropWhile is_digit s) else None)"

text \<open>
  The groups are the address, the address again (the parentheses are doubled) and the port; the
  code uses the first two.
\<close>

definition re_ip4 :: "string \<Rightarrow> (string \<times> string) option" where
  "re_ip4 s =
     (case re_line ''.'' s of None \<Rightarrow> None | Some s1 \<Rightarrow>
      case re_line ''.'' s1 of None \<Rightarrow> None | Some s2 \<Rightarrow>
      case re_line ''.'' s2 of None \<Rightarrow> None | Some s3 \<Rightarrow>
      case re_line (indentation 4) s3 of None \<Rightarrow> None | Some s4 \<Rightarrow>
      case after_prefix '':'' s4 of None \<Rightarrow> None | Some port \<Rightarrow>
        if re_port port then (let m = take (length s - length s4) s in Some (m, m)) else None)"

definition re_ip6 :: "string \<Rightarrow> (string \<times> string) option" where
  "re_ip6 s =
     (case after_prefix ''['' s of
        None \<Rightarrow> None
      | Some s \<Rightarrow>
         (let m = takeWhile (\<lambda>c. c \<noteq> CHR '']'') s
          in if m = [] then None
             else case after_prefix '']:'' (drop (length m) s) of
               None \<Rightarrow> None
             | Some port \<Rightarrow> if re_port port then Some (m, port) else None))"

definition host_char :: "char \<Rightarrow> bool" where
  "host_char c \<longleftrightarrow> \<not> is_space c \<and> c \<notin> {CHR '':'', CHR ''['', CHR '']''}"

definition re_host :: "string \<Rightarrow> (string \<times> string) option" where
  "re_host s =
     (let m = takeWhile host_char s
      in if m = [] then None
         else case after_prefix '':'' (drop (length m) s) of
           None \<Rightarrow> None
         | Some port \<Rightarrow> if re_port port then Some (m, port) else None)"

section \<open>parse_address and parse_cidr\<close>

definition parse_port :: "string \<Rightarrow> u16 throws" where
  "parse_port s =
     (case stoll s of
        Inl e \<Rightarrow> Inl e
      | Inr v \<Rightarrow> if v < 0 \<or> v > 65535 then Inl (Invalid_argument ''port must be 0-65535'') else Inr (of_int v))"

definition sock_result :: "sock_address throws \<Rightarrow> address throws" where
  "sock_result r = (case r of Inl e \<Rightarrow> Inl e | Inr a \<Rightarrow> Inr (Sock_address a))"

definition parse_address :: "net_lib \<Rightarrow> string \<Rightarrow> address throws" where
  "parse_address N s =
     (case re_unix s of Some m \<Rightarrow> sock_result (unix_path m) | None \<Rightarrow>
     (case re_unixa s of Some m \<Rightarrow> sock_result (unix_abstract_string m) | None \<Rightarrow>
     (case re_ip4 s of Some (m1, m2) \<Rightarrow>
        (case parse_port m2 of Inl e \<Rightarrow> Inl e | Inr p \<Rightarrow> sock_result (ip4_numeric N m1 p)) | None \<Rightarrow>
     (case re_ip6 s of Some (m1, m2) \<Rightarrow>
        (case parse_port m2 of Inl e \<Rightarrow> Inl e | Inr p \<Rightarrow> sock_result (ip6_numeric N m1 p)) | None \<Rightarrow>
     (case re_host s of Some (m1, m2) \<Rightarrow>
        (case parse_port m2 of Inl e \<Rightarrow> Inl e
         | Inr p \<Rightarrow> Inr (Host_pair \<lparr>hp_hostname = m1, hp_port = p\<rparr>)) | None \<Rightarrow>
      Inl (Invalid_argument ''unknown address format''))))))"

text \<open>The slash in single quotes.\<close>

definition quote_slash :: string where
  "quote_slash = [char_of (39 :: nat), CHR ''/'', char_of (39 :: nat)]"

definition parse_cidr :: "net_lib \<Rightarrow> string \<Rightarrow> cidr throws" where
  "parse_cidr N s =
     (if CHR ''/'' \<notin> set s then Inl (Invalid_argument (quote_slash @ '' character is not present''))
      else (let address = takeWhile (\<lambda>c. c \<noteq> CHR ''/'') s;
                sa = (case ip4_numeric N address 0 of Inr a \<Rightarrow> Inr a | Inl _ \<Rightarrow> ip6_numeric N address 0)
            in case sa of
                 Inl e \<Rightarrow> Inl e
               | Inr a \<Rightarrow>
                  (case stoul (drop (length address + 1) s) of
                     Inl e \<Rightarrow> Inl e
                   | Inr prefix \<Rightarrow> if prefix > 128 then Inl (Invalid_argument ''invalid prefix'')
                                  else make_cidr a (of_nat prefix))))"

section \<open>Decimal numbers\<close>

lemma is_digit_char [simp]: "d < 10 \<Longrightarrow> is_digit (char_of (48 + d :: nat))"
  by (simp add: is_digit_def)

lemma decimal_digits: "list_all is_digit (decimal n)"
  by (induction n rule: decimal.induct) (subst decimal.simps, auto)

lemma dec_value_append: "dec_value (ds @ [c]) = 10 * dec_value ds + (of_char c - 48)"
  by (simp add: dec_value_def)

lemma dec_value_decimal [simp]: "dec_value (decimal n) = n"
proof (induction n rule: decimal.induct)
  case (1 n)
  show ?case
  proof (cases "n < 10")
    case True
    then show ?thesis by (subst decimal.simps) (simp add: dec_value_def)
  next
    case False
    then have "decimal n = decimal (n div 10) @ [char_of (48 + n mod 10)]"
      by (subst decimal.simps) simp
    then show ?thesis
      using 1 [OF False] by (simp add: dec_value_append)
  qed
qed

lemma decimal_not_Nil [simp]: "decimal n \<noteq> []"
  by (subst decimal.simps) simp

lemma length_decimal: "n < 10 ^ k \<Longrightarrow> 0 < k \<Longrightarrow> length (decimal n) \<le> k"
proof (induction k arbitrary: n)
  case (Suc k)
  show ?case
  proof (cases "n < 10")
    case True
    then show ?thesis by (subst decimal.simps) simp
  next
    case False
    then have "0 < k"
      using Suc.prems by (cases k) auto
    moreover have "n div 10 < 10 ^ k"
      using Suc.prems by (simp add: div_less_iff_less_mult)
    ultimately have "length (decimal (n div 10)) \<le> k"
      using Suc.IH by blast
    then show ?thesis
      using False by (subst decimal.simps) simp
  qed
qed simp

lemma digit_not_space: "is_digit c \<Longrightarrow> \<not> is_space c"
  by (auto simp: is_digit_def is_space_def)

lemma digit_not_sign: "is_digit c \<Longrightarrow> c \<noteq> CHR ''-'' \<and> c \<noteq> CHR ''+''"
  by (auto simp: is_digit_def)

text \<open>What follows a number is not looked at.\<close>

lemma scan_digits:
  assumes "list_all is_digit ds" "ds \<noteq> []" "tail = [] \<or> \<not> is_digit (hd tail)"
  shows "scan_number (ds @ tail) = (False, ds)"
proof -
  obtain c cs where ds: "ds = c # cs" using assms(2) by (cases ds) auto
  have t: "takeWhile is_digit tail = []"
    using assms(3) by (cases tail) auto
  have "takeWhile is_digit (ds @ tail) = ds"
    using assms(1) t by (simp add: takeWhile_append2 list_all_iff)
  then show ?thesis
    using assms(1) ds by (auto simp: scan_number_def Let_def digit_not_space dest: digit_not_sign)
qed

lemma parse_port_decimal: "parse_port (decimal (unat p)) = Inr p"
proof -
  have "\<not> uint p < - 9223372036854775808" "uint p < 65536"
    using uint_ge_0 [of p] uint_bounded [of p] by (linarith, simp)
  moreover have "scan_number (decimal (unat p)) = (False, decimal (unat p))"
    using scan_digits [OF decimal_digits, of "unat p" "[]"] by simp
  ultimately show ?thesis
    by (simp add: parse_port_def stoll_def Let_def)
qed

lemma re_port_decimal: "re_port (decimal (unat (p :: u16)))"
  using unat_less_pow [of p] length_decimal [of "unat p" 5] decimal_digits [of "unat p"]
  by (simp add: re_port_def Suc_le_eq)

section \<open>What the expressions accept\<close>

lemma after_prefix_self [simp]: "after_prefix p (p @ s) = Some s"
  by (simp add: after_prefix_def)

lemma after_prefix_char [simp]: "after_prefix [c] (d # s) = (if c = d then Some s else None)"
  by (auto simp: after_prefix_def)

lemma re_ip4_newline: "re_ip4 s = Some m \<Longrightarrow> CHR 0x0A \<in> set s"
proof -
  assume "re_ip4 s = Some m"
  then have "take (length (indentation 8)) s = indentation 8"
    by (auto simp: re_ip4_def re_line_def after_prefix_def split: option.splits if_splits)
  then have "indentation 8 = take (length (indentation 8)) s" by simp
  then have "CHR 0x0A \<in> set (take (length (indentation 8)) s)"
    by (metis indentation_def list.set_intros(1))
  then show "CHR 0x0A \<in> set s" by (rule in_set_takeD)
qed

lemma re_host_pair:
  assumes "list_all host_char h" "h \<noteq> []" "re_port port"
  shows "re_host (h @ '':'' @ port) = Some (h, port)"
proof -
  have "\<not> host_char (CHR '':'')" by (simp add: host_char_def)
  then have "takeWhile host_char (h @ '':'' @ port) = h"
    using assms(1) by (simp add: takeWhile_append2 list_all_iff)
  then show ?thesis
    using assms by (simp add: re_host_def)
qed

lemma digit_host_char: "is_digit c \<Longrightarrow> host_char c"
  by (auto simp: host_char_def digit_not_space) (auto simp: is_digit_def)

lemma host_not_newline: "host_char c \<Longrightarrow> c \<noteq> CHR 0x0A"
  by (auto simp: host_char_def is_space_def)

lemma host_of: "list_all host_char h \<Longrightarrow> takeWhile (\<lambda>c. c \<noteq> CHR '':'') (h @ '':'' @ port) = h"
  by (simp add: takeWhile_tail) (auto simp: takeWhile_eq_all_conv list_all_iff host_char_def)

lemma host_not_unix:
  assumes "list_all host_char h"
  shows "h \<noteq> ''unix'' \<Longrightarrow> re_unix (h @ '':'' @ port) = None" "h \<noteq> ''unixa'' \<Longrightarrow> re_unixa (h @ '':'' @ port) = None"
proof -
  define x where "x = h @ '':'' @ port"
  have x: "takeWhile (\<lambda>c. c \<noteq> CHR '':'') x = h"
    using host_of [OF assms] by (simp add: x_def)
  have "h = ''unix''" if "take 5 x = ''unix:''"
  proof -
    have e: "x = ''unix:'' @ drop 5 x" using that by (metis append_take_drop_id)
    have "takeWhile (\<lambda>c. c \<noteq> CHR '':'') x = ''unix''" by (subst e) simp
    then show ?thesis using x by simp
  qed
  then show "h \<noteq> ''unix'' \<Longrightarrow> re_unix (h @ '':'' @ port) = None"
    unfolding re_unix_def Let_def x_def [symmetric] by (metis (full_types))
  have "h = ''unixa''" if "take 6 x = ''unixa:''"
  proof -
    have e: "x = ''unixa:'' @ drop 6 x" using that by (metis append_take_drop_id)
    have "takeWhile (\<lambda>c. c \<noteq> CHR '':'') x = ''unixa''" by (subst e) simp
    then show ?thesis using x by simp
  qed
  then show "h \<noteq> ''unixa'' \<Longrightarrow> re_unixa (h @ '':'' @ port) = None"
    unfolding re_unixa_def Let_def x_def [symmetric] by (metis (full_types))
qed

lemma host_not_bracket: "list_all host_char h \<Longrightarrow> h \<noteq> [] \<Longrightarrow> re_ip6 (h @ '':'' @ port) = None"
  by (cases h) (auto simp: re_ip6_def host_char_def)

lemma host_not_ip4:
  assumes "list_all host_char h" "list_all is_digit port"
  shows "re_ip4 (h @ '':'' @ port) = None"
proof -
  have "CHR 0x0A \<notin> set (h @ '':'' @ port)"
  proof
    assume "CHR 0x0A \<in> set (h @ '':'' @ port)"
    moreover have "CHR '':'' \<noteq> CHR 0x0A" by simp
    ultimately obtain c where "c \<in> set h \<or> c \<in> set port" "c = CHR 0x0A"
      by auto
    then have "host_char c" "c = CHR 0x0A"
      using assms digit_host_char by (auto simp: list_all_iff)
    then show False using host_not_newline by blast
  qed
  then show ?thesis
    using re_ip4_newline by (cases "re_ip4 (h @ '':'' @ port)") blast+
qed

lemma parse_host:
  assumes "list_all host_char h" "h \<noteq> []" "h \<noteq> ''unix''" "h \<noteq> ''unixa''" "re_port port" "parse_port port = Inr p"
  shows "parse_address N (h @ '':'' @ port) = Inr (Host_pair \<lparr>hp_hostname = h, hp_port = p\<rparr>)"
proof -
  have "list_all is_digit port" using assms(5) by (simp add: re_port_def)
  then show ?thesis
    using host_not_unix [OF assms(1), of port] host_not_ip4 [OF assms(1)] host_not_bracket [OF assms(1,2)]
      re_host_pair [OF assms(1,2,5)] assms
    by (simp add: parse_address_def)
qed

text \<open>Characters that are printed as they are contain no line end.\<close>

lemma printable_any_char: "\<not> is_binary (map byte_of_char s) \<Longrightarrow> list_all any_char s"
proof -
  have "any_char c" if "is_print (byte_of_char c)" for c
  proof (rule ccontr)
    assume "\<not> any_char c"
    then have "(of_char c :: nat) = 10 \<or> (of_char c :: nat) = 13" by (simp add: any_char_def)
    then show False
      using that by (auto simp: is_print_def byte_of_char_def)
  qed
  then show "\<not> is_binary (map byte_of_char s) \<Longrightarrow> list_all any_char s"
    by (auto simp: is_binary_def list_all_iff)
qed

section \<open>Properties\<close>

text \<open>
  The addresses that a user can write down: names without blanks, colons and brackets, which are
  not one of the two prefixes; printable paths and names of Unix sockets.
\<close>

definition writable :: "address \<Rightarrow> bool" where
  "writable a = (case a of
      Host_pair h \<Rightarrow> list_all host_char (hp_hostname h) \<and> hp_hostname h \<notin> {[], ''unix'', ''unixa''}
    | Sock_address s \<Rightarrow> (\<exists>p. p \<noteq> [] \<and> (unix_path p = Inr s \<or>
         \<not> is_binary (map byte_of_char p) \<and> unix_abstract_string p = Inr s)))"

lemma printed_read:
  assumes "writable a"
  shows "\<exists>s. address_to_string N True a = Inr s \<and> parse_address N s = Inr a"
proof (cases a)
  case (Host_pair h)
  then have "parse_address N (hp_hostname h @ '':'' @ decimal (unat (hp_port h))) = Inr a"
    using assms parse_host [OF _ _ _ _ re_port_decimal parse_port_decimal, of "hp_hostname h" N "hp_port h"]
    by (simp add: writable_def)
  then show ?thesis
    using Host_pair by (simp add: address_to_string_def host_pair_str_def)
next
  case (Sock_address s)
  then obtain p where p: "p \<noteq> []" and
    u: "unix_path p = Inr s \<or> \<not> is_binary (map byte_of_char p) \<and> unix_abstract_string p = Inr s"
    using assms by (auto simp: writable_def)
  show ?thesis
  proof (cases "unix_path p = Inr s")
    case True
    then have "re_unix (''unix:'' @ p) = Some p"
      using p printable_any_char [of p] unix_path_cases(4) [OF True] by (simp add: re_unix_def)
    then show ?thesis
      using Sock_address True str_unix_path [OF True p, of N True]
      by (simp add: address_to_string_def parse_address_def sock_result_def)
  next
    case False
    then have u: "\<not> is_binary (map byte_of_char p)" "unix_abstract_string p = Inr s"
      using u by simp_all
    then have "re_unix (''unixa:'' @ p) = None" "re_unixa (''unixa:'' @ p) = Some p"
      using p printable_any_char [of p] by (simp_all add: re_unix_def re_unixa_def)
    then show ?thesis
      using Sock_address u str_unix_abstract [of "map byte_of_char p" s N True]
      by (simp add: address_to_string_def parse_address_def sock_result_def unix_abstract_string_def comp_def)
  qed
qed

text \<open>
  C23: printing and reading are inverse. The text that \<open>to_string\<close> makes of a host name with its port,
  of a Unix path or of a printable abstract name is read back as the same address.
\<close>

theorem address_roundtrip:
  assumes "writable a"
  shows "\<exists>s. address_to_string N True a = Inr s \<and> parse_address N s = Inr a"
  using assms by (rule printed_read)

text \<open>
  C36: the expression for numeric IPv4 addresses never matches what a user writes. Without a line
  break in the text no IPv4 socket address is ever read; a dotted quad with a port is read as a host
  name, which a later resolution or a SOCKS5 proxy has to interpret.
\<close>

theorem ip4_read_as_host:
  assumes "list_all (\<lambda>q. list_all is_digit q \<and> q \<noteq> []) [a, b, c, d]"
    and "quad = a @ ''.'' @ b @ ''.'' @ c @ ''.'' @ d"
  shows "parse_address N (quad @ '':'' @ decimal (unat p)) = Inr (Host_pair \<lparr>hp_hostname = quad, hp_port = p\<rparr>) \<and>
    (\<forall>s m. CHR 0x0A \<notin> set s \<longrightarrow> re_ip4 s \<noteq> Some m)"
proof -
  have d: "list_all host_char q" if "list_all is_digit q" for q
    using that digit_host_char by (auto simp: list_all_iff)
  have "host_char (CHR ''.'')"
    by (simp add: host_char_def is_space_def)
  then have "list_all host_char quad" "quad \<noteq> []"
    using assms d by auto
  moreover have "quad \<noteq> ''unix''" "quad \<noteq> ''unixa''"
    using assms by (cases a; auto simp: is_digit_def)+
  ultimately show ?thesis
    using parse_host [OF _ _ _ _ re_port_decimal parse_port_decimal] re_ip4_newline by blast
qed

lemma re_unix_not_Nil: "re_unix s = Some m \<Longrightarrow> m \<noteq> []"
  by (auto simp: re_unix_def Let_def split: if_splits)

lemma parse_cidr_Inr:
  "parse_cidr N s = Inr c \<Longrightarrow> \<exists>q n p. (ip4_numeric N q 0 = Inr n \<or> ip6_numeric N q 0 = Inr n) \<and> make_cidr n p = Inr c"
  unfolding parse_cidr_def Let_def by (fastforce split: sum.splits if_splits)

lemma sock_result_Inr: "sock_result r = Inr (Sock_address a) \<Longrightarrow> r = Inr a"
  by (auto simp: sock_result_def split: sum.splits)

lemma parsed_address_valid:
  assumes "wf_net_lib N" and *: "parse_address N s = Inr (Sock_address a)"
  shows "is_valid a" "wf_address a"
proof -
  have "(\<exists>p. p \<noteq> [] \<and> unix_path p = Inr a) \<or> (\<exists>p. unix_abstract p = Inr a)
      \<or> (\<exists>q p. ip4_numeric N q p = Inr a) \<or> (\<exists>q p. ip6_numeric N q p = Inr a)"
  proof (cases "re_unix s")
    case (Some m)
    then show ?thesis
      using * re_unix_not_Nil [OF Some] by (auto simp: parse_address_def dest!: sock_result_Inr)
  next
    case None
    then show ?thesis
      using * by (auto simp: parse_address_def unix_abstract_string_def dest!: sock_result_Inr
          split: option.splits sum.splits prod.splits)
  qed
  then show "is_valid a" "wf_address a"
    using unix_path_valid(1) unix_path_cases(1) unix_abstract_valid(1) unix_abstract_cases(1)
      ip4_numeric_cases(1,2) [OF _ assms(1)] ip6_numeric_cases(1,2) [OF _ assms(1)] by blast+
qed

lemma parsed_cidr_valid:
  assumes "wf_net_lib N" and parsed: "parse_cidr N t = Inr c"
  shows "cidr_is_valid c" "wf_address (cidr_address c)" "unat (cidr_prefix c) \<le> 8 * length (ip_bytes (cidr_address c))"
proof -
  obtain n q p where a: "ip4_numeric N q 0 = Inr n \<or> ip6_numeric N q 0 = Inr n" and m: "make_cidr n p = Inr c"
    using parse_cidr_Inr [OF parsed] by blast
  have "is_valid n" "wf_address n" "ss_family n = AF_INET \<or> ss_family n = AF_INET6"
    using a ip4_numeric_cases(1-3) [OF _ assms(1)] ip6_numeric_cases(1-3) [OF _ assms(1)] by blast+
  then show "cidr_is_valid c" "wf_address (cidr_address c)" "unat (cidr_prefix c) \<le> 8 * length (ip_bytes (cidr_address c))"
    using make_cidr_cases [OF m]
    by (auto simp: cidr_is_valid_def is_ip_def wf_address_def ip_bytes_def word_le_nat_alt families)
qed

lemma slash_splits:
  assumes "CHR ''/'' \<notin> set q"
  shows "takeWhile (\<lambda>c. c \<noteq> CHR ''/'') (q @ CHR ''/'' # r) = q"
  using assms by (simp add: takeWhile_tail) (auto simp: takeWhile_eq_all_conv)

lemma make_cidr_ip4: "ip4_numeric N q 0 = Inr n \<Longrightarrow> p \<le> 32 \<Longrightarrow> make_cidr n p = Inr \<lparr>cidr_address = n, cidr_prefix = p\<rparr>"
  by (auto simp: ip4_numeric_def make_cidr_def Let_def not_less split: if_splits prod.splits)

lemma parse_cidr_number:
  assumes "CHR ''/'' \<notin> set q" and "ip4_numeric N q 0 = Inr n" and "p \<le> 32" and "stoul r = Inr (unat p)"
  shows "parse_cidr N (q @ ''/'' @ r) = Inr \<lparr>cidr_address = n, cidr_prefix = p\<rparr>"
  using assms slash_splits [OF assms(1), of r] make_cidr_ip4 [OF assms(2,3)]
  by (simp add: parse_cidr_def word_le_nat_alt)

lemma stoul_decimal:
  assumes "tail = [] \<or> \<not> is_digit (hd tail)" and "n < 2 ^ 64"
  shows "stoul (decimal n @ tail) = Inr n"
  using scan_digits [OF decimal_digits _ assms(1), of n] assms(2) by (simp add: stoul_def)

text \<open>
  C38: the prefix of a network is the number after the slash, and the parser does not look at what
  follows it: \<open>10.0.0.1/24x\<close> is accepted. A sign is accepted too, and a negative number wraps around in
  64 bits before the range check.
\<close>

theorem cidr_prefix_ignores_tail:
  assumes "CHR ''/'' \<notin> set q" and "ip4_numeric N q 0 = Inr n" and "0 < p" and "p \<le> 32"
    and "tail = [] \<or> \<not> is_digit (hd tail)"
  shows "parse_cidr N (q @ ''/'' @ decimal (unat p) @ tail) = Inr \<lparr>cidr_address = n, cidr_prefix = p\<rparr> \<and>
    parse_cidr N (q @ ''/'' @ ''-'' @ decimal (2 ^ 64 - unat p) @ tail) = Inr \<lparr>cidr_address = n, cidr_prefix = p\<rparr>"
proof -
  have p: "0 < unat p" "unat p \<le> 32"
    using assms(3,4) by (simp_all add: word_le_nat_alt word_less_nat_alt)
  have "takeWhile is_digit (decimal k @ tail) = decimal k" for k
    using decimal_digits [of k] assms(5) by (cases tail) (auto simp: takeWhile_append2 takeWhile_tail list_all_iff takeWhile_eq_all_conv)
  then have "scan_number (''-'' @ decimal (2 ^ 64 - unat p) @ tail) = (True, decimal (2 ^ 64 - unat p))"
    by (simp add: scan_number_def is_space_def)
  moreover have "\<not> 2 ^ 64 \<le> 2 ^ 64 - unat p" "(2 ^ 64 - (2 ^ 64 - unat p)) mod 2 ^ 64 = unat p"
    using p by simp_all
  ultimately have "stoul (''-'' @ decimal (2 ^ 64 - unat p) @ tail) = Inr (unat p)"
    by (simp add: stoul_def Let_def)
  moreover have "stoul (decimal (unat p) @ tail) = Inr (unat p)"
    using stoul_decimal [OF assms(5), of "unat p"] p by simp
  ultimately show ?thesis
    using parse_cidr_number [OF assms(1,2,4)] by blast
qed

section \<open>Examples\<close>

text \<open>A library that knows one IPv4 address and no other name.\<close>

definition small_net :: net_lib where
  "small_net = \<lparr>inet_pton4 = (\<lambda>s. if s = ''10.0.0.1'' then (1, [10, 0, 0, 1]) else (0, [0, 0, 0, 0])),
     inet_ntop = (\<lambda>f b. if f = AF_INET \<and> b = [10, 0, 0, 1] then Some ''10.0.0.1'' else None),
     numeric_host6 = (\<lambda>s. (-2, None)), if_indextoname = (\<lambda>i. None), gai_strerror = (\<lambda>c. ''unknown''),
     host_order = Little_endian\<rparr>"

definition example_inner :: sock_address where
  "example_inner = \<lparr>ss_family = AF_INET, ss_data = [0, 0, 10, 0, 0, 1] @ replicate 120 0, sa_length = 16\<rparr>"

lemma wf_small_net: "wf_net_lib small_net"
  by (simp add: wf_net_lib_def small_net_def)

theorem address_roundtrip_witness:
  "\<exists>s. address_to_string small_net True (Host_pair \<lparr>hp_hostname = ''vpn.example'', hp_port = 443\<rparr>) = Inr s \<and>
     parse_address small_net s = Inr (Host_pair \<lparr>hp_hostname = ''vpn.example'', hp_port = 443\<rparr>)"
proof -
  have "writable (Host_pair \<lparr>hp_hostname = ''vpn.example'', hp_port = 443\<rparr>)"
    by (simp add: writable_def host_char_def is_space_def)
  then show ?thesis by (rule address_roundtrip)
qed

theorem ip4_read_as_host_witness:
  "parse_address small_net (''10.0.0.1'' @ '':'' @ decimal (unat (80 :: u16))) = Inr (Host_pair \<lparr>hp_hostname = ''10.0.0.1'', hp_port = 80\<rparr>)"
  using ip4_read_as_host [of "''10''" "''0''" "''0''" "''1''" "''10.0.0.1''" small_net 80] by (simp add: is_digit_def)

lemma example_address: "ip4_numeric small_net ''10.0.0.1'' 0 = Inr example_inner"
  by code_simp

theorem cidr_prefix_ignores_tail_witness:
  "parse_cidr small_net (''10.0.0.1'' @ ''/'' @ decimal (unat (24 :: u8)) @ ''x'') = Inr \<lparr>cidr_address = example_inner, cidr_prefix = 24\<rparr>"
  using cidr_prefix_ignores_tail [OF _ example_address, of 24 "''x''"] by (simp add: is_digit_def)

end
