(* ===== verification/Monitor.thy ===== *)
theory Monitor
  imports Io_Uring Tun_Netlink
begin

text \<open>
  The traffic monitor (\<open>include/zportal/tools/monitor.hpp\<close>, \<open>src/tools/monitor.cpp\<close>): a timer on the
  ring that prints the counters of the device that the static pointer leads to. The argument \<open>D\<close>
  gives the device at an address.
\<close>

definition set_tun_device :: "addr \<Rightarrow> world \<Rightarrow> world" where
  "set_tun_device a w = w\<lparr>monitor_device := Some a\<rparr>"

text \<open>Carriage return and the terminal's command to clear the line; a colour of the terminal.\<close>

definition clear_line :: string where "clear_line = [CHR 0x0D, CHR 0x1B] @ ''[K''"
definition colour :: "string \<Rightarrow> string" where "colour n = CHR 0x1B # ''['' @ n @ ''m''"

definition no_device_text :: string where
  "no_device_text = clear_line @ ''No TUN device specified''"

definition totals_text :: "tun_stats \<Rightarrow> string" where
  "totals_text st = clear_line @ ''Total RX: '' @ colour ''32'' @ decimal (unat (st_rx_bytes st)) @ '' Bytes'' @ colour ''0''
     @ [CHR 0x09] @ '' Total TX: '' @ colour ''31'' @ decimal (unat (st_tx_bytes st)) @ '' Bytes'' @ colour ''0''"

text \<open>Asking for the counters may never return.\<close>

definition monitor_print :: "platform \<Rightarrow> (addr \<Rightarrow> tun_device) \<Rightarrow> world \<Rightarrow> (unit result \<times> world) option" where
  "monitor_print P D w =
     (case monitor_device w of
        None \<Rightarrow> Some (Inr (), log_call (Write_stdout no_device_text) w)
      | Some a \<Rightarrow>
         (case get_stats P (D a) w of
            None \<Rightarrow> None
          | Some (Inl e, w) \<Rightarrow> Some (Inl e, w)
          | Some (Inr st, w) \<Rightarrow> Some (Inr (), log_call (Write_stdout (totals_text st)) w)))"

definition arm_timeout :: "platform \<Rightarrow> io_uring \<Rightarrow> nat \<Rightarrow> world \<Rightarrow> unit result \<times> world" where
  "arm_timeout P r timeout w =
     (case get_sqe P r w of
        (Inl e, w) \<Rightarrow> (Inl e, w)
      | (Inr _, w) \<Rightarrow>
         (let w = log_call (Sqe_prep_timeout (timeout div 1000) (timeout mod 1000 * 1000000) (HAVE_TIMEOUT_MULTISHOT P)) w;
              w = log_call (Sqe_set_data64 (serialize (set_type TIMEOUT new_operation))) w
          in (case submit P r w of
                (Inl e, w) \<Rightarrow> (Inl e, w)
              | (Inr _, w) \<Rightarrow> (Inr (), w))))"

definition monitor_handle_cqe ::
    "platform \<Rightarrow> (addr \<Rightarrow> tun_device) \<Rightarrow> io_uring \<Rightarrow> cqe \<Rightarrow> world \<Rightarrow> (unit result \<times> world) option" where
  "monitor_handle_cqe P D r c w =
     (if cqe_type c \<noteq> TIMEOUT then Some (Inl (Error WrongOperationType), w)
      else if HAVE_TIMEOUT_MULTISHOT P then monitor_print P D w
      else (case monitor_print P D w of
              None \<Rightarrow> None
            | Some (Inl e, w) \<Rightarrow> Some (Inl e, w)
            | Some (Inr _, w) \<Rightarrow> Some (arm_timeout P r 1000 w)))"

section \<open>The monitor touches no buffer\<close>

lemma next_seq_quiet: "next_seq w = (n, w') \<Longrightarrow> quiet w w'"
  by (auto simp: next_seq_def quiet_def)

lemma nl_send_raw_quiet: "nl_send_raw P t r w = (x, w') \<Longrightarrow> quiet w w'"
  by (auto simp: nl_send_raw_def call_def Let_def intro: quiet_log_call split: if_splits)

lemma walk_result_quiet: "walk_result r w = (x, w') \<Longrightarrow> quiet w w'"
  by (auto simp: walk_result_def undefined_behaviour_def intro: quiet_log_call split: walk.splits)

lemma nl_recv_loop_quiet:
  assumes "nl_recv_loop P fd f buf w = Some (x, w')"
  shows "quiet w w'"
proof -
  have "quiet w (snd y)" if "nl_recv_loop P fd f buf w = Some y" for y
  proof (rule nl_recv_loop.raw_induct [where Pa = "\<lambda>((((P, fd), f), buf), w) y. quiet w (snd y)", unfolded prod.case, OF _ that])
    fix loop :: "platform \<Rightarrow> int \<Rightarrow> (u8 list \<Rightarrow> nat \<Rightarrow> 'a walk option) \<Rightarrow> u8 list \<Rightarrow> world \<Rightarrow> ('a result \<times> world) option"
      and P fd f buf w y
    let ?w = "log_call (Sys_recv fd rxbuf_size 0) w"
    assume IH: "\<And>P fd f buf w y. loop P fd f buf w = Some y \<Longrightarrow> quiet w (snd y)"
      and body: "(let n = fst (call P (Sys_recv fd rxbuf_size 0) w); w = snd (call P (Sys_recv fd rxbuf_size 0) w)
         in if n < 0 then (if errno_of P (trace w) = EINTR then loop P fd f buf w
              else Some (Inl (Error_no RecvFailed (errno_of P (trace w))), w))
            else let buf = fill_rxbuf P (nat n) w buf; r = nl_walk (byte_order P) buf (f buf) 0 n
                 in if is_unanswered r then loop P fd f buf w else if is_endless r then None else Some (walk_result r w)) = Some y"
    have "quiet w ?w"
      by (rule quiet_log_call) simp_all
    moreover have "quiet ?w (snd y)"
      using body IH walk_result_quiet [of _ ?w "fst y" "snd y"] by (auto simp: Let_def split: if_splits)
    ultimately show "quiet w (snd y)"
      by (rule quiet_trans)
  qed
  then show ?thesis
    using assms by fastforce
qed

lemma get_stats_quiet:
  assumes "get_stats P t w = Some (x, w')"
  shows "quiet w w'"
  using assms
  by (auto simp: get_stats_def Let_def split: prod.splits sum.splits
      dest!: next_seq_quiet nl_send_raw_quiet nl_recv_loop_quiet intro: quiet_trans)

lemma monitor_print_quiet: "monitor_print P D w = Some (x, w') \<Longrightarrow> quiet w w'"
  by (auto simp: monitor_print_def split: option.splits prod.splits sum.splits dest!: get_stats_quiet intro!: quiet_log_call)

lemma arm_timeout_quiet:
  assumes "arm_timeout P r n w = (x, w')"
  shows "quiet w w' \<and> (\<forall>e. x = Inl e \<longrightarrow> ring_failure e)"
proof -
  let ?c1 = "Sqe_prep_timeout (n div 1000) (n mod 1000 * 1000000) (HAVE_TIMEOUT_MULTISHOT P)"
  let ?c2 = "Sqe_set_data64 (serialize (set_type TIMEOUT new_operation))"
  obtain y w1 where g: "get_sqe P r w = (y, w1)" by fastforce
  obtain z w2 where s: "submit P r (log_call ?c2 (log_call ?c1 w1)) = (z, w2)" by fastforce
  have q: "quiet w (log_call ?c2 (log_call ?c1 w1))"
    using get_sqe_quiet [OF g] by (auto intro!: quiet_log_call)
  then show ?thesis
    using assms get_sqe_quiet [OF g] submit_quiet [OF s]
    by (auto simp: arm_timeout_def Let_def g s split: sum.splits intro: quiet_trans [OF q])
qed

lemma monitor_handle_quiet:
  assumes "monitor_handle_cqe P D r c w = Some (x, w')"
  shows "quiet w w'"
  using assms
  by (auto simp: monitor_handle_cqe_def split: if_splits option.splits prod.splits sum.splits
      dest!: monitor_print_quiet arm_timeout_quiet [THEN conjunct1] intro: quiet_trans)

section \<open>How asking for the counters can fail\<close>

definition stats_failure :: "error \<Rightarrow> bool" where
  "stats_failure e \<longleftrightarrow> err_code e \<in> {NetlinkError, SendFailed, RecvFailed} \<or> e = terminated"

lemma nl_walk_result: "nl_walk e buf f pos n = Reply x \<Longrightarrow> \<exists>p. f p = Some (Reply x)"
proof (induction e buf f pos n rule: nl_walk.induct)
  case (1 e buf f pos n)
  show ?case
    using 1(2) 1(1) [OF _ _ refl]
    unfolding nl_walk.simps [of e buf f pos n] by (auto simp: Let_def split: if_splits option.splits)
qed

lemma rta_walk_error: "rta_walk P buf pos n = Reply (Inl e) \<Longrightarrow> err_code e = NetlinkError"
proof (induction P buf pos n rule: rta_walk.induct)
  case (1 P buf pos n)
  show ?case
    using 1(2) 1(1) [OF refl _ _ refl]
    unfolding rta_walk.simps [of P buf pos n] by (auto simp: Let_def split: if_splits)
qed

lemma stats_body_error: "stats_body P buf seq i pos = Some (Reply (Inl e)) \<Longrightarrow> err_code e = NetlinkError"
  by (auto simp: stats_body_def Let_def split: if_splits dest: rta_walk_error)

lemma nl_recv_loop_error:
  assumes "nl_recv_loop P fd f buf w = Some (Inl e, w')" and "\<And>b p e. f b p = Some (Reply (Inl e)) \<Longrightarrow> stats_failure e"
  shows "stats_failure e"
proof -
  have "(\<forall>b p e. f b p = Some (Reply (Inl e)) \<longrightarrow> stats_failure e) \<longrightarrow> (\<forall>e. fst y = Inl e \<longrightarrow> stats_failure e)"
    if "nl_recv_loop P fd f buf w = Some y" for y
  proof (rule nl_recv_loop.raw_induct [where Pa = "\<lambda>((((P, fd), f), buf), w) y. (\<forall>b p e. f b p = Some (Reply (Inl e)) \<longrightarrow> stats_failure e) \<longrightarrow>
      (\<forall>e. fst y = Inl e \<longrightarrow> stats_failure e)", unfolded prod.case, OF _ that])
    fix loop :: "platform \<Rightarrow> int \<Rightarrow> (u8 list \<Rightarrow> nat \<Rightarrow> 'a walk option) \<Rightarrow> u8 list \<Rightarrow> world \<Rightarrow> ('a result \<times> world) option"
      and P fd f buf w y
    assume IH: "\<And>P fd f buf w y. loop P fd f buf w = Some y \<Longrightarrow> (\<forall>b p e. f b p = Some (Reply (Inl e)) \<longrightarrow> stats_failure e) \<longrightarrow>
        (\<forall>e. fst y = Inl e \<longrightarrow> stats_failure e)"
      and body: "(let n = fst (call P (Sys_recv fd rxbuf_size 0) w); w = snd (call P (Sys_recv fd rxbuf_size 0) w)
         in if n < 0 then (if errno_of P (trace w) = EINTR then loop P fd f buf w
              else Some (Inl (Error_no RecvFailed (errno_of P (trace w))), w))
            else let buf = fill_rxbuf P (nat n) w buf; r = nl_walk (byte_order P) buf (f buf) 0 n
                 in if is_unanswered r then loop P fd f buf w else if is_endless r then None else Some (walk_result r w)) = Some y"
    have walk: "stats_failure e" if "\<forall>b p e. f b p = Some (Reply (Inl e)) \<longrightarrow> stats_failure e"
        and "walk_result (nl_walk o' b (f b) 0 n) v = (Inl e, v')" for o' b n v v' e
      using that nl_walk_result [of o' b "f b" 0 n]
      by (auto simp: walk_result_def undefined_behaviour_def stats_failure_def split: walk.splits)
    show "(\<forall>b p e. f b p = Some (Reply (Inl e)) \<longrightarrow> stats_failure e) \<longrightarrow> (\<forall>e. fst y = Inl e \<longrightarrow> stats_failure e)"
      using body IH
      by (cases y) (auto simp: Let_def stats_failure_def [of "Error_no RecvFailed _"] split: if_splits dest: walk)
  qed
  from this [OF assms(1)] assms(2) show ?thesis
    by fastforce
qed

lemma get_stats_error: "get_stats P t w = Some (Inl e, w') \<Longrightarrow> stats_failure e"
  by (auto simp: get_stats_def nl_send_raw_def Let_def stats_failure_def split: prod.splits sum.splits if_splits
      dest!: nl_recv_loop_error stats_body_error)

end
