(* ===== verification/Config.thy ===== *)
theory Config
  imports Address_Parse Platform
begin

text \<open>
  The command line (\<open>include/zportal/tools/config.hpp\<close>, \<open>src/tools/config.cpp\<close>): what \<open>getopt\<close> of the
  system's library makes of the arguments, and the configuration that the program makes of that.
\<close>

section \<open>getopt\<close>

text \<open>
  The results of the calls of \<open>getopt\<close>: an option with its argument, an option whose argument is
  missing, an unknown option. Arguments that are no options are skipped and come last; \<open>--\<close> ends the
  options.
\<close>

datatype opt_event = Opt char string | Missing_argument char | Unknown_option char

definition takes_argument :: "char \<Rightarrow> bool" where
  "takes_argument c \<longleftrightarrow> c \<in> set ''nmacbp''"

definition is_flag :: "char \<Rightarrow> bool" where
  "is_flag c \<longleftrightarrow> c \<in> set ''hv''"

definition is_option :: "string \<Rightarrow> bool" where
  "is_option a \<longleftrightarrow> length a > 1 \<and> hd a = CHR ''-''"

text \<open>The options of one argument, the letters \<open>cs\<close>, then those of the arguments that follow.\<close>

function getopt_args :: "string list \<Rightarrow> opt_event list \<times> string list"
    and getopt_letters :: "string \<Rightarrow> string list \<Rightarrow> opt_event list \<times> string list" where
  "getopt_args [] = ([], [])"
| "getopt_args (a # as) =
     (if a = ''--'' then ([], as)
      else if is_option a then getopt_letters (tl a) as
      else (let (es, operands) = getopt_args as in (es, a # operands)))"
| "getopt_letters [] as = getopt_args as"
| "getopt_letters (c # cs) as =
     (if takes_argument c then
        (if cs \<noteq> [] then (let (es, operands) = getopt_args as in (Opt c cs # es, operands))
         else (case as of
                 [] \<Rightarrow> ([Missing_argument c], [])
               | v # vs \<Rightarrow> (let (es, operands) = getopt_args vs in (Opt c v # es, operands))))
      else if is_flag c then (let (es, operands) = getopt_letters cs as in (Opt c [] # es, operands))
      else (let (es, operands) = getopt_letters cs as in (Unknown_option c # es, operands)))"
  by pat_completeness auto
termination
proof (relation "measure (\<lambda>x. case x of Inl as \<Rightarrow> 2 * length as + sum_list (map length as)
      | Inr (cs, as) \<Rightarrow> 2 * length as + sum_list (map length as) + length cs + 1)")
qed (auto simp: is_option_def)

section \<open>The configuration\<close>

record config =
  interface_name :: string
  inner_address :: cidr
  cfg_mtu :: u16
  bind_address :: "address option"
  connect_address :: "address option"
  proxies :: "address list"
  io_uring_entries :: nat
  monitor_mode :: bool

definition new_config :: config where
  "new_config = \<lparr>interface_name = [], inner_address = empty_cidr, cfg_mtu = 0, bind_address = None,
     connect_address = None, proxies = [], io_uring_entries = 32, monitor_mode = True\<rparr>"

text \<open>The macros of the build that the version shows.\<close>

record build_info =
  project_name :: string
  project_version :: string
  project_homepage :: string

definition newline :: string where "newline = [CHR 0x0A]"
definition tab :: string where "tab = [CHR 0x09]"
definition quoted :: "string \<Rightarrow> string" where "quoted s = [char_of (39 :: nat)] @ s @ [char_of (39 :: nat)]"

definition help_text :: "string \<Rightarrow> string" where
  "help_text program_name =
     ''Usage:'' @ newline @
     program_name @ '' -n <ifname> -m <MTU> -a <peer address> (-b <bind addr> | -c <connect addr>) [-p <proxy>]'' @ newline @
     newline @
     ''-n <ifname> '' @ tab @ tab @ ''TUN device name. For example '' @ quoted ''tun0'' @ '', '' @ quoted ''tun%d'' @ ''.'' @ newline @
     ''-m <MTU> '' @ tab @ tab @ ''Device MTU. Range 68-'' @ decimal 65535 @ ''.'' @ newline @
     ''-a <inner address> '' @ tab @ ''Inner IP cidr. For example 10.0.0.1/24.'' @ newline @
     ''-b <bind address> '' @ tab @ ''Server mode.'' @ newline @
     ''-c <connect address> '' @ tab @ ''Client mode.'' @ newline @
     ''-p <proxy> '' @ tab @ tab @ ''Proxy address.'' @ newline @
     newline @
     ''-h '' @ tab @ ''Print this help info.'' @ newline @
     ''-v '' @ tab @ ''Print version.'' @ newline"

text \<open>The author's name has a letter of two bytes.\<close>

definition version_text :: "build_info \<Rightarrow> string" where
  "version_text B =
     project_name B @ '' '' @ project_version B @ newline @
     ''Copyright (C) 2025-2026 Wiktor So'' @ map char_of_byte [0xC5, 0x82] @ ''tys'' @ newline @
     ''Licensed under MIT license'' @ newline @
     project_homepage B @ newline"

section \<open>Reading the options\<close>

text \<open>The state of the loop: the configuration, whether to end, the world.\<close>

type_synonym cli_state = "config \<times> bool \<times> world"

definition read_mtu :: "string \<Rightarrow> u16 throws" where
  "read_mtu s =
     (case stoll s of
        Inl e \<Rightarrow> Inl e
      | Inr v \<Rightarrow> if v < 68 \<or> v > 65535 then Inl (Invalid_argument ''MTU must be min 68 max 65535'') else Inr (of_int v))"

definition handle_option :: "net_lib \<Rightarrow> build_info \<Rightarrow> string \<Rightarrow> opt_event \<Rightarrow> cli_state \<Rightarrow> cli_state throws" where
  "handle_option N B program_name ev st =
     (case st of (cfg, e, w) \<Rightarrow>
      (case ev of
         Opt c arg \<Rightarrow>
           (if c = CHR ''n'' then Inr (cfg\<lparr>interface_name := arg\<rparr>, e, w)
            else if c = CHR ''m'' then
              (case read_mtu arg of Inl x \<Rightarrow> Inl x | Inr mtu \<Rightarrow> Inr (cfg\<lparr>cfg_mtu := mtu\<rparr>, e, w))
            else if c = CHR ''a'' then
              (case parse_cidr N arg of Inl x \<Rightarrow> Inl x | Inr a \<Rightarrow> Inr (cfg\<lparr>inner_address := a\<rparr>, e, w))
            else if c = CHR ''c'' then
              (case parse_address N arg of Inl x \<Rightarrow> Inl x | Inr a \<Rightarrow> Inr (cfg\<lparr>connect_address := Some a\<rparr>, e, w))
            else if c = CHR ''b'' then
              (case parse_address N arg of Inl x \<Rightarrow> Inl x | Inr a \<Rightarrow> Inr (cfg\<lparr>bind_address := Some a\<rparr>, e, w))
            else if c = CHR ''p'' then
              (case parse_address N arg of Inl x \<Rightarrow> Inl x | Inr a \<Rightarrow> Inr (cfg\<lparr>proxies := proxies cfg @ [a]\<rparr>, e, w))
            else if c = CHR ''h'' then Inr (cfg, True, log_call (Write_stdout (help_text program_name)) w)
            else if c = CHR ''v'' then Inr (cfg, True, log_call (Write_stdout (version_text B)) w)
            else Inr (cfg, e, w))
       | Missing_argument c \<Rightarrow> Inl (Invalid_argument (''missing argument for '' @ quoted [CHR ''-'', c]))
       | Unknown_option c \<Rightarrow> Inl (Invalid_argument (''unknown option '' @ quoted [CHR ''-'', c]))))"

text \<open>What was printed before an exception stays printed, so the world is kept beside the outcome.\<close>

primrec handle_options ::
    "net_lib \<Rightarrow> build_info \<Rightarrow> string \<Rightarrow> opt_event list \<Rightarrow> cli_state \<Rightarrow> (config \<times> bool) throws \<times> world" where
  "handle_options N B program_name [] st = (case st of (cfg, e, w) \<Rightarrow> (Inr (cfg, e), w))"
| "handle_options N B program_name (ev # evs) st =
     (case handle_option N B program_name ev st of
        Inl x \<Rightarrow> (Inl x, snd (snd st))
      | Inr st \<Rightarrow> handle_options N B program_name evs st)"

definition check_config :: "string list \<Rightarrow> config \<Rightarrow> unit throws" where
  "check_config operands cfg =
     (if operands \<noteq> [] then Inl (Invalid_argument ''too many arguments'')
      else if interface_name cfg = [] then Inl (Invalid_argument ''interface name is not set'')
      else if cfg_mtu cfg = 0 then Inl (Invalid_argument ''MTU is not set'')
      else if \<not> cidr_is_valid (inner_address cfg) then Inl (Invalid_argument ''inner address is not set'')
      else if (bind_address cfg \<noteq> None) = (connect_address cfg \<noteq> None)
      then Inl (Invalid_argument (''exactly one of '' @ quoted ''-b'' @ '' or '' @ quoted ''-c'' @ '' must be set''))
      else Inr ())"

text \<open>The result is the configuration and whether the program ends, or the exception that is handed over.\<close>

definition parse_cli_arguments ::
    "net_lib \<Rightarrow> build_info \<Rightarrow> string \<Rightarrow> string list \<Rightarrow> world \<Rightarrow> (config \<times> bool) throws \<times> world" where
  "parse_cli_arguments N B program_name args w =
     (let (events, operands) = getopt_args args
      in case handle_options N B program_name events (new_config, False, w) of
           (Inl x, w) \<Rightarrow> (Inl x, w)
         | (Inr (cfg, e), w) \<Rightarrow>
            if e then (Inr (cfg, True), w)
            else (case check_config operands cfg of Inl x \<Rightarrow> (Inl x, w) | Inr _ \<Rightarrow> (Inr (cfg, False), w)))"

section \<open>What is accepted\<close>

text \<open>An address that can be connected to or bound without an exception.\<close>

definition usable :: "address \<Rightarrow> bool" where
  "usable a = (case a of Sock_address s \<Rightarrow> is_valid s \<and> wf_address s | Host_pair h \<Rightarrow> True)"

definition config_addresses :: "config \<Rightarrow> address list" where
  "config_addresses cfg = (case bind_address cfg of None \<Rightarrow> [] | Some a \<Rightarrow> [a]) @
     (case connect_address cfg of None \<Rightarrow> [] | Some a \<Rightarrow> [a]) @ proxies cfg"

text \<open>What every option keeps, also before all of them have been read.\<close>

definition config_inv :: "config \<Rightarrow> bool" where
  "config_inv cfg \<longleftrightarrow> (cfg_mtu cfg = 0 \<or> 68 \<le> unat (cfg_mtu cfg)) \<and>
     (inner_address cfg = empty_cidr \<or> cidr_is_valid (inner_address cfg) \<and> wf_address (cidr_address (inner_address cfg)) \<and>
        unat (cidr_prefix (inner_address cfg)) \<le> 8 * length (ip_bytes (cidr_address (inner_address cfg)))) \<and>
     (\<forall>a \<in> set (config_addresses cfg). usable a) \<and> monitor_mode cfg"

lemma parsed_usable: "wf_net_lib N \<Longrightarrow> parse_address N s = Inr a \<Longrightarrow> usable a"
  using parsed_address_valid [of N s] by (cases a) (auto simp: usable_def)

lemma read_mtu_range: "read_mtu s = Inr m \<Longrightarrow> 68 \<le> unat m"
proof -
  assume a: "read_mtu s = Inr m"
  then obtain v where v: "stoll s = Inr v"
    by (cases "stoll s") (simp_all add: read_mtu_def)
  have r: "68 \<le> v" "v \<le> 65535"
    using a by (simp_all add: read_mtu_def v split: if_split_asm)
  then have "read_mtu s = Inr (word_of_int v)"
    by (simp add: read_mtu_def v)
  with a have m: "m = word_of_int v"
    by simp
  have "uint m = v"
    unfolding m using r by (subst unsigned_of_int) (simp add: take_bit_int_eq_self)
  then have "unat m = nat v"
    by (simp only: unat_eq_nat_uint)
  then show "68 \<le> unat m"
    using r(1) by simp
qed

text \<open>What an option with its value can do.\<close>

lemma handle_Opt_cases:
  assumes "handle_option N B program_name (Opt c arg) (cfg, e, w) = Inr (cfg', e', w')"
  shows "(cfg' = cfg\<lparr>interface_name := arg\<rparr> \<or> (\<exists>m. read_mtu arg = Inr m \<and> cfg' = cfg\<lparr>cfg_mtu := m\<rparr>) \<or>
      (\<exists>a. parse_cidr N arg = Inr a \<and> cfg' = cfg\<lparr>inner_address := a\<rparr>) \<or>
      (\<exists>a. parse_address N arg = Inr a \<and> (cfg' = cfg\<lparr>connect_address := Some a\<rparr> \<or> cfg' = cfg\<lparr>bind_address := Some a\<rparr> \<or>
         cfg' = cfg\<lparr>proxies := proxies cfg @ [a]\<rparr>)) \<or> cfg' = cfg) \<and> (e' = e \<and> w' = w \<or> e' \<and> cfg' = cfg)"
proof -
  have c: "c = CHR ''n'' \<or> c = CHR ''m'' \<or> c = CHR ''a'' \<or> c = CHR ''c'' \<or> c = CHR ''b'' \<or> c = CHR ''p'' \<or> c = CHR ''h'' \<or> c = CHR ''v''
      \<or> handle_option N B program_name (Opt c arg) (cfg, e, w) = Inr (cfg, e, w)"
    unfolding handle_option_def by simp
  have rules: "handle_option N B program_name (Opt (CHR ''n'') arg) (cfg, e, w) = Inr (cfg\<lparr>interface_name := arg\<rparr>, e, w)"
    "handle_option N B program_name (Opt (CHR ''h'') arg) (cfg, e, w) = Inr (cfg, True, log_call (Write_stdout (help_text program_name)) w)"
    "handle_option N B program_name (Opt (CHR ''v'') arg) (cfg, e, w) = Inr (cfg, True, log_call (Write_stdout (version_text B)) w)"
    by (simp_all add: handle_option_def)
  show ?thesis
    using c
  proof (elim disjE)
    assume [simp]: "c = CHR ''m''"
    show ?thesis using assms by (cases "read_mtu arg") (auto simp: handle_option_def)
  next
    assume [simp]: "c = CHR ''a''"
    show ?thesis using assms by (cases "parse_cidr N arg") (auto simp: handle_option_def)
  next
    assume [simp]: "c = CHR ''c''"
    show ?thesis using assms by (cases "parse_address N arg") (auto simp: handle_option_def)
  next
    assume [simp]: "c = CHR ''b''"
    show ?thesis using assms by (cases "parse_address N arg") (auto simp: handle_option_def)
  next
    assume [simp]: "c = CHR ''p''"
    show ?thesis using assms by (cases "parse_address N arg") (auto simp: handle_option_def)
  qed (use assms rules in auto)
qed

text \<open>An option prints one text or nothing.\<close>

lemma handle_option_world:
  assumes "handle_option N B program_name ev (cfg, e, w) = Inr (cfg', e', w')"
  shows "w' = w \<or> (\<exists>s. w' = log_call (Write_stdout s) w)"
proof (cases ev)
  case (Opt c arg)
  show ?thesis
  proof (cases "c = CHR ''h'' \<or> c = CHR ''v''")
    case True
    then show ?thesis
      using assms unfolding Opt handle_option_def by (elim disjE) (simp, blast)+
  next
    case False
    then have "c \<noteq> CHR ''h''" "c \<noteq> CHR ''v''"
      by simp_all
    then show ?thesis
      using assms unfolding Opt handle_option_def by (simp only: prod.case opt_event.case if_False split: if_split_asm sum.split_asm) simp_all
  qed
qed (use assms in \<open>simp_all add: handle_option_def\<close>)

lemma config_inv_update:
  assumes "config_inv cfg"
  shows "config_inv (cfg\<lparr>interface_name := s\<rparr>)" "68 \<le> unat m \<Longrightarrow> config_inv (cfg\<lparr>cfg_mtu := m\<rparr>)"
    "cidr_is_valid c \<Longrightarrow> wf_address (cidr_address c) \<Longrightarrow> unat (cidr_prefix c) \<le> 8 * length (ip_bytes (cidr_address c)) \<Longrightarrow>
      config_inv (cfg\<lparr>inner_address := c\<rparr>)"
    "usable a \<Longrightarrow> config_inv (cfg\<lparr>connect_address := Some a\<rparr>)" "usable a \<Longrightarrow> config_inv (cfg\<lparr>bind_address := Some a\<rparr>)"
    "usable a \<Longrightarrow> config_inv (cfg\<lparr>proxies := proxies cfg @ [a]\<rparr>)"
  using assms by (auto simp: config_inv_def config_addresses_def)

text \<open>An option that does not end the program prints nothing.\<close>

lemma handle_option_inv:
  assumes "handle_option N B program_name ev (cfg, e, w) = Inr (cfg', e', w')" and "wf_net_lib N" and "config_inv cfg"
  shows "config_inv cfg' \<and> (e \<longrightarrow> e') \<and> (\<not> e' \<longrightarrow> w' = w)"
proof (cases ev)
  case (Opt c arg)
  note cs = handle_Opt_cases [OF assms(1) [unfolded Opt]]
  then have "config_inv cfg'"
    using config_inv_update [OF assms(3)] assms(3) read_mtu_range [of arg] parsed_usable [OF assms(2)] parsed_cidr_valid [OF assms(2)]
    by metis
  with cs show ?thesis by blast
qed (use assms(1) in \<open>simp_all add: handle_option_def\<close>)

lemma handle_options_inv:
  assumes "handle_options N B program_name evs (cfg, e, w) = (Inr (cfg', e'), w')" and "wf_net_lib N" and "config_inv cfg"
  shows "config_inv cfg' \<and> (e \<longrightarrow> e') \<and> (\<not> e' \<longrightarrow> w' = w)"
  using assms(1,3)
proof (induction evs arbitrary: cfg e w)
  case (Cons ev evs)
  obtain cfg1 e1 w1 where o: "handle_option N B program_name ev (cfg, e, w) = Inr (cfg1, e1, w1)"
    and r: "handle_options N B program_name evs (cfg1, e1, w1) = (Inr (cfg', e'), w')"
    using Cons.prems(1) by (auto split: sum.splits)
  from Cons.IH [OF r] handle_option_inv [OF o assms(2) Cons.prems(2)] show ?case
    by auto
qed simp

lemma new_config_inv: "config_inv new_config"
  by (simp add: config_inv_def new_config_def config_addresses_def)

lemma empty_cidr_invalid: "\<not> cidr_is_valid empty_cidr"
  by (simp add: cidr_is_valid_def empty_cidr_def is_ip_def empty_address_def families is_valid_def)

lemma parse_cli_inv:
  assumes "parse_cli_arguments N B program_name args w = (Inr (cfg, False), w')" and "wf_net_lib N"
  shows "config_inv cfg \<and> w' = w \<and> check_config (snd (getopt_args args)) cfg = Inr ()"
  using assms new_config_inv handle_options_inv [of N B program_name "fst (getopt_args args)" new_config False w]
  by (auto simp: parse_cli_arguments_def split: prod.splits sum.splits if_splits)

text \<open>
  C6: a command line that is accepted is a configuration that the rest of the program can use. The
  interface has a name, the MTU lies between 68 and 65535, the inner network is a valid address with
  a prefix that fits its family, exactly one of the two modes is chosen, every address that was given
  is valid, and nothing has been printed.
\<close>

theorem cli_validated:
  assumes "parse_cli_arguments N B program_name args w = (Inr (cfg, False), w')" and "wf_net_lib N"
  shows "interface_name cfg \<noteq> [] \<and> 68 \<le> unat (cfg_mtu cfg) \<and> cidr_is_valid (inner_address cfg) \<and>
    unat (cidr_prefix (inner_address cfg)) \<le> 8 * length (ip_bytes (cidr_address (inner_address cfg))) \<and>
    (bind_address cfg = None \<longleftrightarrow> connect_address cfg \<noteq> None) \<and>
    (\<forall>a \<in> set (config_addresses cfg). usable a) \<and> w' = w"
  using parse_cli_inv [OF assms] empty_cidr_invalid
  by (auto simp: config_inv_def check_config_def split: if_splits)

section \<open>What is written is read\<close>

text \<open>The arguments that give an option its value, in two words or in one.\<close>

definition option_words :: "bool \<Rightarrow> char \<Rightarrow> string \<Rightarrow> string list" where
  "option_words joined c v = (if joined then [CHR ''-'' # c # v] else [[CHR ''-'', c], v])"

lemma getopt_option:
  assumes "takes_argument c" and "joined \<longrightarrow> v \<noteq> []"
  shows "getopt_args (option_words joined c v @ as) = (let (es, operands) = getopt_args as in (Opt c v # es, operands))"
proof -
  have "c \<noteq> CHR ''-''"
    using assms(1) by (auto simp: takes_argument_def)
  then show ?thesis
    using assms by (simp add: option_words_def is_option_def)
qed

definition command_line :: "(bool \<times> char \<times> string) list \<Rightarrow> string list" where
  "command_line opts = concat (map (\<lambda>(joined, c, v). option_words joined c v) opts)"

lemma getopt_command_line:
  assumes "\<forall>(joined, c, v) \<in> set opts. takes_argument c \<and> v \<noteq> []"
  shows "getopt_args (command_line opts) = (map (\<lambda>(joined, c, v). Opt c v) opts, [])"
  using assms by (induction opts) (auto simp: command_line_def getopt_option)

text \<open>The options that describe a configuration.\<close>

definition config_options :: "bool \<Rightarrow> config \<Rightarrow> string \<Rightarrow> (address \<Rightarrow> string) \<Rightarrow> (bool \<times> char \<times> string) list" where
  "config_options joined cfg inner repr =
     [(joined, CHR ''n'', interface_name cfg), (joined, CHR ''m'', decimal (unat (cfg_mtu cfg))), (joined, CHR ''a'', inner)] @
     (case bind_address cfg of None \<Rightarrow> [] | Some a \<Rightarrow> [(joined, CHR ''b'', repr a)]) @
     (case connect_address cfg of None \<Rightarrow> [] | Some a \<Rightarrow> [(joined, CHR ''c'', repr a)]) @
     map (\<lambda>a. (joined, CHR ''p'', repr a)) (proxies cfg)"

lemma read_mtu_decimal:
  assumes "68 \<le> unat m"
  shows "read_mtu (decimal (unat m)) = Inr m"
proof -
  have "scan_number (decimal (unat m)) = (False, decimal (unat m))"
    using scan_digits [OF decimal_digits, of "unat m" "[]"] by simp
  moreover have "\<not> uint m < 68" "\<not> 65535 < uint m" "\<not> uint m < - 9223372036854775808" "uint m < 9223372036854775808"
  proof -
    have "uint m < 65536" "0 \<le> uint m"
      using uint_bounded [of m] by simp_all
    then show "\<not> 65535 < uint m" "\<not> uint m < - 9223372036854775808" "uint m < 9223372036854775808"
      by linarith+
    show "\<not> uint m < 68"
      using assms unfolding unat_eq_nat_uint by linarith
  qed
  moreover have "dec_value (decimal (unat m)) = unat m"
    by (rule dec_value_decimal)
  ultimately show ?thesis
    unfolding read_mtu_def stoll_def Let_def by simp
qed

lemma handle_proxies:
  assumes "\<forall>a \<in> set as. parse_address N (repr a) = Inr a"
  shows "handle_options N B pn (map (\<lambda>a. Opt (CHR ''p'') (repr a)) as) (cfg, e, w) =
    (Inr (cfg\<lparr>proxies := proxies cfg @ as\<rparr>, e), w)"
  using assms by (induction as arbitrary: cfg) (auto simp: handle_option_def)

lemma command_line_read:
  assumes "interface_name cfg \<noteq> []" and "68 \<le> unat (cfg_mtu cfg)"
    and "inner \<noteq> []" and "parse_cidr N inner = Inr (inner_address cfg)" and "cidr_is_valid (inner_address cfg)"
    and "bind_address cfg = None \<longleftrightarrow> connect_address cfg \<noteq> None"
    and "\<forall>a \<in> set (config_addresses cfg). writable a \<and> address_to_string N True a = Inr (repr a)"
    and "io_uring_entries cfg = 32" and "monitor_mode cfg"
  shows "parse_cli_arguments N B program_name (command_line (config_options joined cfg inner repr)) w = (Inr (cfg, False), w)"
proof -
  have repr: "repr a \<noteq> []" "parse_address N (repr a) = Inr a" if "a \<in> set (config_addresses cfg)" for a
  proof -
    show parse: "parse_address N (repr a) = Inr a"
      using printed_read [of a N] assms(7) that by auto
    show "repr a \<noteq> []"
    proof
      assume "repr a = []"
      moreover have "parse_address N [] = Inl (Invalid_argument ''unknown address format'')"
        by (simp add: parse_address_def re_unix_def re_unixa_def re_ip4_def re_line_def after_prefix_def indentation_def
            re_ip6_def re_host_def)
      ultimately show False
        using parse by simp
    qed
  qed
  have "\<forall>(joined, c, v) \<in> set (config_options joined cfg inner repr). takes_argument c \<and> v \<noteq> []"
    using assms(1,3) repr(1) by (auto simp: config_options_def takes_argument_def config_addresses_def split: option.splits)
  note g = getopt_command_line [OF this]
  have "handle_options N B program_name (map (\<lambda>(joined, c, v). Opt c v) (config_options joined cfg inner repr)) (new_config, False, w) =
      (Inr (cfg, False), w)"
  proof -
    show ?thesis
      using assms(4,6,8,9) repr(2) read_mtu_decimal [OF assms(2)]
      by (cases cfg; cases "bind_address cfg"; cases "connect_address cfg")
        (auto simp: config_options_def config_addresses_def handle_option_def new_config_def comp_def handle_proxies)
  qed
  moreover have "check_config [] cfg = Inr ()"
    using assms(1,2,5,6) by (auto simp: check_config_def)
  ultimately show ?thesis
    by (simp add: parse_cli_arguments_def g)
qed

text \<open>
  C7: the command line can express every configuration, and is read back as written. Whatever the
  interface is called (also when the name looks like an option), for every MTU in range, every inner
  network with a text that reads back, one mode with a writable address and any number of writable
  proxies, the options, joined with their values or not, give exactly this configuration.
\<close>

theorem cli_reads_back:
  assumes "interface_name cfg \<noteq> []" and "68 \<le> unat (cfg_mtu cfg)"
    and "inner \<noteq> []" and "parse_cidr N inner = Inr (inner_address cfg)" and "cidr_is_valid (inner_address cfg)"
    and "bind_address cfg = None \<longleftrightarrow> connect_address cfg \<noteq> None"
    and "\<forall>a \<in> set (config_addresses cfg). writable a \<and> address_to_string N True a = Inr (repr a)"
    and "io_uring_entries cfg = 32" and "monitor_mode cfg"
  shows "parse_cli_arguments N B program_name (command_line (config_options joined cfg inner repr)) w = (Inr (cfg, False), w)"
  using assms by (rule command_line_read)

section \<open>An example\<close>

definition example_config :: config where
  "example_config = \<lparr>interface_name = ''-tun0'', inner_address = \<lparr>cidr_address = example_inner, cidr_prefix = 24\<rparr>,
     cfg_mtu = 1400, bind_address = None, connect_address = Some (Host_pair \<lparr>hp_hostname = ''peer'', hp_port = 443\<rparr>),
     proxies = [Host_pair \<lparr>hp_hostname = ''hop'', hp_port = 1080\<rparr>], io_uring_entries = 32, monitor_mode = True\<rparr>"

definition example_build :: build_info where
  "example_build = \<lparr>project_name = ''zportal'', project_version = ''0.1.4'', project_homepage = []\<rparr>"

definition example_repr :: "address \<Rightarrow> string" where
  "example_repr a = (case address_to_string small_net True a of Inr s \<Rightarrow> s | Inl e \<Rightarrow> [])"

lemma example_cidr: "parse_cidr small_net (''10.0.0.1'' @ ''/'' @ decimal 24) = Inr \<lparr>cidr_address = example_inner, cidr_prefix = 24\<rparr>"
  by (rule parse_cidr_number) (use example_address stoul_decimal [of "[]" 24] in simp_all)

lemma example_facts:
  "interface_name example_config \<noteq> []" "68 \<le> unat (cfg_mtu example_config)"
  "parse_cidr small_net (''10.0.0.1'' @ ''/'' @ decimal 24) = Inr (inner_address example_config)"
  "cidr_is_valid (inner_address example_config)"
  "bind_address example_config = None \<longleftrightarrow> connect_address example_config \<noteq> None"
  "\<forall>a \<in> set (config_addresses example_config). writable a \<and> address_to_string small_net True a = Inr (example_repr a)"
  "io_uring_entries example_config = 32" "monitor_mode example_config"
  using example_cidr
  by (simp_all add: example_config_def cidr_is_valid_def is_ip_def is_valid_def example_inner_def families sockaddr_sizes
      config_addresses_def writable_def host_char_def is_space_def example_repr_def address_to_string_def)

theorem cli_reads_back_witness:
  "parse_cli_arguments small_net example_build ''zportal''
     (command_line (config_options False example_config (''10.0.0.1'' @ ''/'' @ decimal 24) example_repr)) initial_world = (Inr (example_config, False), initial_world)"
  by (rule cli_reads_back [OF example_facts(1,2) _ example_facts(3-8)]) simp

theorem cli_validated_witness:
  "\<exists>args. parse_cli_arguments small_net example_build ''zportal'' args initial_world = (Inr (example_config, False), initial_world) \<and>
     interface_name example_config \<noteq> [] \<and> 68 \<le> unat (cfg_mtu example_config)"
proof -
  have "parse_cli_arguments small_net example_build ''zportal''
      (command_line (config_options True example_config (''10.0.0.1'' @ ''/'' @ decimal 24) example_repr)) initial_world = (Inr (example_config, False), initial_world)"
    by (rule command_line_read [OF example_facts(1,2) _ example_facts(3-8)]) simp
  with cli_validated [OF this wf_small_net] show ?thesis
    by blast
qed

end
