(* ===== verification/Session.thy ===== *)
theory Session
  imports Receiver Transmitter Monitor Config
begin

text \<open>
  The session (\<open>include/zportal/session/session.hpp\<close>, \<open>src/session/session.cpp\<close>): the object that owns
  the ring, the TUN device, the socket and the two data paths that point to them, and the event
  loop that hands every completion to the path it belongs to.
\<close>

section \<open>State\<close>

text \<open>Where the members of a session lie in memory.\<close>

record place =
  at_ring :: addr
  at_tun :: addr
  at_socket :: addr

text \<open>The pointer \<open>cfg_\<close> leads to a constant object that outlives the session; none is null.\<close>

record session =
  ses_at :: place
  ses_ring :: io_uring
  ses_tun :: tun_device
  ses_socket :: socket
  ses_cfg :: "config option"
  ses_receiver :: receiver
  ses_transmitter :: transmitter

text \<open>The default constructor, with what the uninitialised \<open>mtu_\<close> of the device holds.\<close>

definition session_default :: "platform \<Rightarrow> place \<Rightarrow> u32 \<Rightarrow> session" where
  "session_default P here mtu0 = \<lparr>ses_at = here, ses_ring = new_ring (at_ring here), ses_tun = tun_default mtu0,
     ses_socket = socket_default, ses_cfg = None, ses_receiver = new_receiver P, ses_transmitter = new_transmitter\<rparr>"

text \<open>The destructor ends the members in the reverse order of their declaration.\<close>

definition session_destroy :: "platform \<Rightarrow> session \<Rightarrow> world \<Rightarrow> world" where
  "session_destroy P s w =
     snd (ring_close P (ses_ring s) (tun_destroy (ses_tun s) (socket_destroy (ses_socket s) w)))"

section \<open>Moves\<close>

text \<open>The move assignments of the data paths, between two different objects.\<close>

definition rx_move_assign :: "platform \<Rightarrow> receiver \<Rightarrow> receiver \<Rightarrow> receiver \<times> receiver" where
  "rx_move_assign P rx other = rx_move P other"

definition tx_move_assign :: "transmitter \<Rightarrow> transmitter \<Rightarrow> transmitter \<times> transmitter" where
  "tx_move_assign tx other = tx_move other"

text \<open>The data paths are pointed to the members of the session that now owns them.\<close>

definition relink :: "session \<Rightarrow> session" where
  "relink s = (let rx = ses_receiver s; tx = ses_transmitter s; here = ses_at s
     in s\<lparr>ses_receiver := rx\<lparr>rx_ring := Some (at_ring here), rx_tun := Some (at_tun here), rx_socket := Some (at_socket here)\<rparr>,
          ses_transmitter := tx\<lparr>tx_ring := Some (at_ring here), tx_tun := Some (at_tun here), tx_sock := Some (at_socket here)\<rparr>\<rparr>)"

text \<open>The move constructor of an object at \<open>here\<close>, and what is left of the old one.\<close>

definition session_move :: "platform \<Rightarrow> place \<Rightarrow> session \<Rightarrow> session \<times> session" where
  "session_move P here other =
     (let (r, or) = ring_move (at_ring here) (ses_ring other);
          (t, ot) = tun_move (ses_tun other);
          (k, ok) = socket_move (ses_socket other);
          (rx, orx) = rx_move P (ses_receiver other);
          (tx, otx) = tx_move (ses_transmitter other)
      in (relink \<lparr>ses_at = here, ses_ring = r, ses_tun = t, ses_socket = k, ses_cfg = ses_cfg other,
                  ses_receiver = rx, ses_transmitter = tx\<rparr>,
          other\<lparr>ses_ring := or, ses_tun := ot, ses_socket := ok, ses_cfg := None,
                ses_receiver := orx, ses_transmitter := otx\<rparr>))"

text \<open>The move assignment between two different objects.\<close>

definition session_move_assign :: "platform \<Rightarrow> session \<Rightarrow> session \<Rightarrow> world \<Rightarrow> session \<times> session \<times> world" where
  "session_move_assign P s other w =
     (let ((r, or), w) = ring_move_assign P (ses_ring s) (ses_ring other) w;
          (t, ot, w) = tun_move_assign (ses_tun s) (ses_tun other) w;
          (k, ok, w) = socket_move_assign (ses_socket s) (ses_socket other) w;
          (rx, orx) = rx_move_assign P (ses_receiver s) (ses_receiver other);
          (tx, otx) = tx_move_assign (ses_transmitter s) (ses_transmitter other)
      in (relink \<lparr>ses_at = ses_at s, ses_ring = r, ses_tun = t, ses_socket = k, ses_cfg = ses_cfg other,
                  ses_receiver = rx, ses_transmitter = tx\<rparr>,
          other\<lparr>ses_ring := or, ses_tun := ot, ses_socket := ok, ses_cfg := None,
                ses_receiver := orx, ses_transmitter := otx\<rparr>, w))"

section \<open>Creation\<close>

text \<open>
  The session is made at \<open>here\<close> and moved into the result, which lies at \<open>there\<close>; then, or when a
  part cannot be made, the local object ends. The arguments are left empty.
\<close>

definition create_session ::
    "platform \<Rightarrow> place \<Rightarrow> place \<Rightarrow> u32 \<Rightarrow> io_uring \<Rightarrow> tun_device \<Rightarrow> socket \<Rightarrow> u16 \<Rightarrow> u16 \<Rightarrow> u32 \<Rightarrow> config \<Rightarrow> world \<Rightarrow>
     session result \<times> world" where
  "create_session P here there mtu0 ring tun sock tx_queue_length rx_queue_length rx_buffer_size cfg w =
     (let s = session_default P here mtu0;
          ((r, _), w) = ring_move_assign P (ses_ring s) ring w;
          (t, _, w) = tun_move_assign (ses_tun s) tun w;
          (k, _, w) = socket_move_assign (ses_socket s) sock w;
          s = s\<lparr>ses_ring := r, ses_tun := t, ses_socket := k, ses_cfg := Some cfg\<rparr>
      in (case create_receiver P (at_ring here) (at_tun here) (at_socket here) rx_queue_length rx_buffer_size (ses_ring s) w of
            (Inl e, r, w) \<Rightarrow> (Inl e, session_destroy P (s\<lparr>ses_ring := r\<rparr>) w)
          | (Inr rx, r, w) \<Rightarrow>
             (let s = s\<lparr>ses_ring := r, ses_receiver := fst (rx_move_assign P (ses_receiver s) rx)\<rparr>
              in (case create_transmitter P (at_ring here) (at_tun here) (at_socket here) (ses_tun s) tx_queue_length (ses_ring s) w of
                    (Inl e, r, w) \<Rightarrow> (Inl e, session_destroy P (s\<lparr>ses_ring := r\<rparr>) w)
                  | (Inr tx, r, w) \<Rightarrow>
                     (let s = s\<lparr>ses_ring := r, ses_transmitter := fst (tx_move_assign (ses_transmitter s) tx)\<rparr>;
                          (result, old) = session_move P there s
                      in (Inr result, session_destroy P old w))))))"

section \<open>The event loop\<close>

text \<open>What the pointers of the data paths lead to, when they lead to the members of the session.\<close>

definition links_of :: "session \<Rightarrow> links" where
  "links_of s = \<lparr>lk_ring = ses_ring s, lk_tun = ses_tun s, lk_socket = ses_socket s\<rparr>"

definition home :: "session \<Rightarrow> addr option \<Rightarrow> addr option \<Rightarrow> addr option \<Rightarrow> bool" where
  "home s ring tun sock \<longleftrightarrow> ring \<in> {None, Some (at_ring (ses_at s))} \<and> tun \<in> {None, Some (at_tun (ses_at s))} \<and>
     sock \<in> {None, Some (at_socket (ses_at s))}"

definition rx_home :: "session \<Rightarrow> bool" where
  "rx_home s \<longleftrightarrow> (let rx = ses_receiver s in home s (rx_ring rx) (rx_tun rx) (rx_socket rx))"

definition tx_home :: "session \<Rightarrow> bool" where
  "tx_home s \<longleftrightarrow> (let tx = ses_transmitter s in home s (tx_ring tx) (tx_tun tx) (tx_sock tx))"

text \<open>
  Calls of the data paths. Following a pointer that does not lead to the session's members is undefined, and so is
  following the null pointer \<open>cfg_\<close> of a session that has been moved from.
\<close>

definition session_arm :: "platform \<Rightarrow> session \<Rightarrow> world \<Rightarrow> unit result \<times> world" where
  "session_arm P s w =
     (if \<not> rx_home s then undefined_behaviour w
      else case arm_recv P (links_of s) (ses_receiver s) w of
        (Inl e, w) \<Rightarrow> (Inl e, w)
      | (Inr _, w) \<Rightarrow>
         if \<not> tx_home s then undefined_behaviour w else arm_read P (links_of s) (ses_transmitter s) w)"

definition device_at :: "session \<Rightarrow> addr \<Rightarrow> tun_device" where
  "device_at s a = ses_tun s"

text \<open>One pass through the loop after a completion has been taken.\<close>

definition dispatch :: "platform \<Rightarrow> session \<Rightarrow> cqe \<Rightarrow> world \<Rightarrow> (unit result \<times> session \<times> world) option" where
  "dispatch P s c w =
     (let ty = cqe_type c
      in if ty = NONE then Some (Inr (), s, w)
         else if ty = READ \<or> ty = SEND then
           (if \<not> tx_home s then (case undefined_behaviour w of (r, w) \<Rightarrow> Some (r, s, w))
            else (case tx_handle_cqe P (links_of s) c (ses_transmitter s) w of
                    (r, tx, w) \<Rightarrow> Some (r, s\<lparr>ses_transmitter := tx\<rparr>, w)))
         else if ty = RECV \<or> ty = WRITE then
           (if \<not> rx_home s then (case undefined_behaviour w of (r, w) \<Rightarrow> Some (r, s, w))
            else (case rx_handle_cqe P (links_of s) c (ses_receiver s) w of
                    (r, rx, w) \<Rightarrow> Some (r, s\<lparr>ses_receiver := rx\<rparr>, w)))
         else if ty = TIMEOUT then
           (case ses_cfg s of
              None \<Rightarrow> (case undefined_behaviour w of (r, w) \<Rightarrow> Some (r, s, w))
            | Some cfg \<Rightarrow>
               (if monitor_mode cfg then
                  (case monitor_handle_cqe P (device_at s) (ses_ring s) c w of
                     None \<Rightarrow> None
                   | Some (r, w) \<Rightarrow> Some (r, s, w))
                else Some (Inl (Error InvalidEnumValue), s, w)))
         else Some (Inl (Error InvalidEnumValue), s, w))"

text \<open>
  What the kernel has done to the buffers when it reports a completion: the bytes that it read are in
  the buffer that the entry names.
\<close>

definition kernel_writes :: "platform \<Rightarrow> cqe \<Rightarrow> session \<Rightarrow> world \<Rightarrow> session" where
  "kernel_writes P c s w =
     (let bs = take (unat (cqe_result c)) (answer_bytes P (trace w)); fill = (\<lambda>i bid. s\<lparr>ses_ring := lk_ring (fill_links i bid bs (links_of s))\<rparr>)
      in if \<not> cqe_ok c then s
         else (case cqe_bid c of
                 None \<Rightarrow> s
               | Some bid \<Rightarrow>
                  (if cqe_type c = RECV then (case rx_bg (ses_receiver s) of None \<Rightarrow> s | Some i \<Rightarrow> fill i bid)
                   else if cqe_type c = READ then (case tx_bg (ses_transmitter s) of None \<Rightarrow> s | Some i \<Rightarrow> fill i bid)
                   else s)))"

text \<open>The loop runs until something fails.\<close>

partial_function (option) run_loop :: "platform \<Rightarrow> session \<Rightarrow> world \<Rightarrow> (unit result \<times> session \<times> world) option" where
  "run_loop P s w =
     (case wait P (ses_ring s) w of
        (Inl e, w) \<Rightarrow> Some (Inl e, s, w)
      | (Inr c, w) \<Rightarrow>
         (case dispatch P (kernel_writes P c s w) c w of
            None \<Rightarrow> None
          | Some (Inl e, s, w) \<Rightarrow> Some (Inl e, s, w)
          | Some (Inr _, s, w) \<Rightarrow> run_loop P s w))"

declare run_loop.simps [code]

definition run :: "platform \<Rightarrow> session \<Rightarrow> world \<Rightarrow> (unit result \<times> session \<times> world) option" where
  "run P s w =
     (case session_arm P s w of
        (Inl e, w) \<Rightarrow> Some (Inl e, s, w)
      | (Inr _, w) \<Rightarrow>
         (let w = set_tun_device (at_tun (ses_at s)) w
          in (case monitor_print P (device_at s) w of
                None \<Rightarrow> None
              | Some (Inl e, w) \<Rightarrow> Some (Inl e, s, w)
              | Some (Inr _, w) \<Rightarrow>
                 (case ses_cfg s of
                    None \<Rightarrow> (case undefined_behaviour w of (r, w) \<Rightarrow> Some (r, s, w))
                  | Some cfg \<Rightarrow>
                     (if monitor_mode cfg then
                        (case arm_timeout P (ses_ring s) 1000 w of
                           (Inl e, w) \<Rightarrow> Some (Inl e, s, w)
                         | (Inr _, w) \<Rightarrow> run_loop P s w)
                      else run_loop P s w)))))"

end
