(* ===== verification/Path_Effects.thy ===== *)
theory Path_Effects
  imports Receiver_Handlers Transmitter_Stream
begin

text \<open>
  What the two data paths can do to the world at all. A relation between worlds that every call of a
  data path keeps, and every feature check, is kept by all their operations; so a fact about the
  calls of a path needs to be shown for single calls only.
\<close>

section \<open>The calls of a path\<close>

text \<open>The buffer rings that a path writes to are those of the groups \<open>G\<close>.\<close>

fun path_call :: "u16 set \<Rightarrow> lib_call \<Rightarrow> bool" where
  "path_call G (Buf_ring_add g off len bid msk slot) \<longleftrightarrow> g \<in> G"
| "path_call G (Buf_ring_advance g n) \<longleftrightarrow> g \<in> G"
| "path_call G Alloc \<longleftrightarrow> True"
| "path_call G Io_uring_get_sqe \<longleftrightarrow> True"
| "path_call G Io_uring_submit \<longleftrightarrow> True"
| "path_call G (Sqe_set_data64 d) \<longleftrightarrow> True"
| "path_call G (Sqe_prep_recv fd) \<longleftrightarrow> True"
| "path_call G (Sqe_prep_recv_multishot fd) \<longleftrightarrow> True"
| "path_call G (Sqe_prep_read fd) \<longleftrightarrow> True"
| "path_call G (Sqe_prep_read_multishot fd b) \<longleftrightarrow> True"
| "path_call G (Sqe_prep_sendmsg fd v) \<longleftrightarrow> True"
| "path_call G (Sqe_prep_writev fd v) \<longleftrightarrow> True"
| "path_call G (Sqe_buffer_select b) \<longleftrightarrow> True"
| "path_call G Std_terminate \<longleftrightarrow> True"
| "path_call G _ \<longleftrightarrow> False"

text \<open>The pointers of a path, which no operation changes.\<close>

definition rx_links :: "receiver \<Rightarrow> nat option \<times> addr option \<times> addr option \<times> addr option" where
  "rx_links rx = (rx_bg rx, rx_ring rx, rx_tun rx, rx_socket rx)"

definition tx_links :: "transmitter \<Rightarrow> nat option \<times> addr option \<times> addr option \<times> addr option" where
  "tx_links tx = (tx_bg tx, tx_ring tx, tx_tun tx, tx_sock tx)"

lemma rx_links_group: "rx_links rx' = rx_links rx \<Longrightarrow> rx_group L rx' = rx_group L rx"
  by (simp add: rx_links_def rx_group_def)

lemma tx_links_group: "tx_links tx' = tx_links tx \<Longrightarrow> tx_group L tx' = tx_group L tx"
  by (simp add: tx_links_def tx_group_def)

lemma rx_links_simps [simp]:
  "rx_links (rx\<lparr>rx_cooling_down := x1\<rparr>) = rx_links rx" "rx_links (rx\<lparr>rx_used_buffers := x2\<rparr>) = rx_links rx"
  "rx_links (rx\<lparr>rx_input_queue := x3\<rparr>) = rx_links rx" "rx_links (rx\<lparr>rx_refcounts := x4\<rparr>) = rx_links rx"
  "rx_links (rx\<lparr>rx_state := x5\<rparr>) = rx_links rx" "rx_links (rx\<lparr>rx_header := x6\<rparr>) = rx_links rx"
  "rx_links (rx\<lparr>rx_header_progress := x7\<rparr>) = rx_links rx" "rx_links (rx\<lparr>rx_frame := x8\<rparr>) = rx_links rx"
  "rx_links (rx\<lparr>rx_payload_progress := x9\<rparr>) = rx_links rx" "rx_links (rx\<lparr>rx_output_queue := x10\<rparr>) = rx_links rx"
  "rx_links (rx\<lparr>rx_write_in_progress := x11\<rparr>) = rx_links rx" "rx_links (set_front b rx) = rx_links rx"
  by (simp_all add: rx_links_def set_front_def)

lemma tx_links_simps [simp]:
  "tx_links (tx\<lparr>tx_current := x1\<rparr>) = tx_links tx" "tx_links (tx\<lparr>tx_send_in_progress := x2\<rparr>) = tx_links tx"
  "tx_links (tx\<lparr>tx_cooling_down := x3\<rparr>) = tx_links tx" "tx_links (tx\<lparr>tx_frame_queue := x4\<rparr>) = tx_links tx"
  by (simp_all add: tx_links_def)

section \<open>The operations\<close>

text \<open>The group ids that a path returns buffers to.\<close>

definition rx_within :: "u16 set \<Rightarrow> links \<Rightarrow> receiver \<Rightarrow> bool" where
  "rx_within G L rx \<longleftrightarrow> get_bgid (rx_group L rx) \<in> G"

definition tx_within :: "u16 set \<Rightarrow> links \<Rightarrow> transmitter \<Rightarrow> bool" where
  "tx_within G L tx \<longleftrightarrow> get_bgid (tx_group L tx) \<in> G"

lemma rx_within_links: "rx_links rx' = rx_links rx \<Longrightarrow> rx_within G L rx' = rx_within G L rx"
  using rx_links_group [of rx' rx L] by (simp add: rx_within_def)

lemma tx_within_links: "tx_links tx' = tx_links tx \<Longrightarrow> tx_within G L tx' = tx_within G L tx"
  using tx_links_group [of tx' tx L] by (simp add: tx_within_def)

locale path_effects =
  fixes P :: platform and G :: "u16 set" and R :: "world \<Rightarrow> world \<Rightarrow> bool"
  assumes keeps_same: "R w w"
    and keeps_trans: "R w w1 \<Longrightarrow> R w1 w2 \<Longrightarrow> R w w2"
    and keeps_call: "path_call G c \<Longrightarrow> R w (log_call c w)"
    and keeps_recv_check: "recv_multishot P w = (b, w1) \<Longrightarrow> R w w1"
    and keeps_read_check: "read_multishot P w = (b, w1) \<Longrightarrow> R w w1"
begin

lemma then_call: "R w0 w \<Longrightarrow> path_call G c \<Longrightarrow> R w0 (log_call c w)"
  by (rule keeps_trans [OF _ keeps_call])

lemma then_check: "recv_multishot P w = (b, w1) \<Longrightarrow> R w0 w \<Longrightarrow> R w0 w1"
    "read_multishot P w = (b, w1) \<Longrightarrow> R w0 w \<Longrightarrow> R w0 w1"
  by (blast intro: keeps_trans keeps_recv_check keeps_read_check)+

lemma get_sqe_keeps: "get_sqe P r w = (x, w1) \<Longrightarrow> R w0 w \<Longrightarrow> R w0 w1"
  by (auto simp: get_sqe_def call_def Let_def intro: then_call split: if_splits)

lemma submit_keeps: "submit P r w = (x, w1) \<Longrightarrow> R w0 w \<Longrightarrow> R w0 w1"
  by (auto simp: submit_def call_def Let_def intro: then_call split: if_splits)

lemma alloc_keeps: "alloc P w = (ok, w1) \<Longrightarrow> R w0 w \<Longrightarrow> R w0 w1"
  by (auto simp: alloc_def call_def Let_def intro: then_call)

lemma return_buffer_keeps: "return_buffer P g bid w = (x, w1) \<Longrightarrow> get_bgid g \<in> G \<Longrightarrow> R w0 w \<Longrightarrow> R w0 w1"
  by (auto simp: return_buffer_def get_bgid_def Let_def intro!: then_call split: if_splits sum.splits)

lemmas basic_keeps = get_sqe_keeps submit_keeps alloc_keeps then_check

subsection \<open>Receiving\<close>

lemma arm_recv_keeps: "arm_recv P L rx w = (x, w1) \<Longrightarrow> R w0 w \<Longrightarrow> R w0 w1"
  by (auto simp: arm_recv_def Let_def split: if_splits sum.splits prod.splits intro!: then_call elim!: basic_keeps)

lemma kick_write_keeps:
  "kick_write P L rx w = (x, rx1, w1) \<Longrightarrow> R w0 w \<Longrightarrow> R w0 w1 \<and> rx_links rx1 = rx_links rx"
  by (auto simp: kick_write_def Let_def split: if_splits sum.splits prod.splits list.splits intro!: then_call elim!: basic_keeps)

lemma parse_header_keeps:
  "parse_header P L b rx w = (x, rx1, w1) \<Longrightarrow> w1 = w \<and> rx_links rx1 = rx_links rx"
  by (auto simp: parse_header_def Let_def split: if_splits sum.splits)

lemma frame_complete_keeps:
  "frame_complete P L rx w = (x, rx1, w1) \<Longrightarrow> R w0 w \<Longrightarrow> R w0 w1 \<and> rx_links rx1 = rx_links rx"
  by (auto simp: frame_complete_def Let_def split: if_splits prod.splits elim!: basic_keeps)

lemma parse_payload_keeps:
  assumes "parse_payload P L b rx w = (x, rx1, w1)" and "R w0 w"
  shows "R w0 w1 \<and> rx_links rx1 = rx_links rx"
proof -
  obtain ok2 w2 where a: "alloc P w = (ok2, w2)" by fastforce
  obtain ok3 w3 where b: "alloc P w2 = (ok3, w3)" by fastforce
  have r: "R w0 w2" "R w0 w3"
    using alloc_keeps [OF a assms(2)] alloc_keeps [OF b] by simp_all
  have f: "R w0 w1 \<and> rx_links rx1 = rx_links rx'" if "frame_complete P L rx' w3 = (x, rx1, w1)" for rx'
    using frame_complete_keeps [OF that r(2)] .
  show ?thesis
    using assms r
    by (auto simp: parse_payload_def Let_def a b split: sum.splits if_splits dest!: f)
qed

lemma finish_buffer_keeps:
  "finish_buffer P L rx w = (x, rx1, w1) \<Longrightarrow> rx_within G L rx \<Longrightarrow> R w0 w \<Longrightarrow> R w0 w1 \<and> rx_links rx1 = rx_links rx"
  by (auto simp: finish_buffer_def Let_def rx_within_def split: if_splits sum.splits prod.splits elim!: return_buffer_keeps)

lemma parse_step_keeps:
  assumes "parse_step P L rx w = (x, rx1, w1)" and "rx_within G L rx" and "R w0 w"
  shows "R w0 w1 \<and> rx_links rx1 = rx_links rx"
proof -
  let ?b = "hd (rx_input_queue rx)"
  obtain y rx2 w2 where b: "(case rx_state rx of PARSING_HEADER \<Rightarrow> parse_header P L ?b rx w
      | PARSING_PAYLOAD \<Rightarrow> parse_payload P L ?b rx w | Unnamed_state _ \<Rightarrow> (Inl (Error InvalidEnumValue), rx, w)) = (y, rx2, w2)"
    by (metis prod_cases3)
  have r: "R w0 w2 \<and> rx_links rx2 = rx_links rx"
  proof (cases "rx_state rx")
    case PARSING_HEADER
    with b parse_header_keeps [of L ?b rx w y rx2 w2] assms(3) show ?thesis by simp
  next
    case PARSING_PAYLOAD
    with b parse_payload_keeps [OF _ assms(3), of L ?b rx y rx2 w2] show ?thesis by simp
  qed (use b assms(3) in simp)
  have f: "R w0 w1 \<and> rx_links rx1 = rx_links rx" if "finish_buffer P L rx2 w2 = (x, rx1, w1)"
    using finish_buffer_keeps [OF that, of w0] assms(2) r rx_within_links [of rx2 rx G L] by simp
  show ?thesis
    using assms(1,3) r f by (simp add: parse_step_def Let_def b split: if_splits sum.splits)
qed

lemma parse_loop_keeps:
  assumes "parse_loop P L rx w = (x, rx1, w1)" and "rx_within G L rx" and "R w0 w"
  shows "R w0 w1 \<and> rx_links rx1 = rx_links rx"
proof -
  have "Q = P \<Longrightarrow> parse_loop Q L rx w = (x, rx1, w1) \<Longrightarrow> rx_within G L rx \<Longrightarrow> R w0 w \<Longrightarrow>
      R w0 w1 \<and> rx_links rx1 = rx_links rx" for Q
  proof (induction Q L rx w rule: parse_loop.induct)
    case (1 Q L rx w)
    obtain y rx2 w2 where b: "parse_step P L rx w = (y, rx2, w2)"
      by (metis prod_cases3)
    note r = parse_step_keeps [OF b 1(4,5)]
    then show ?case
      using 1 b parse_loop.simps [of P L rx w] rx_within_links [of rx2 rx G L]
      by (cases "rx_input_queue rx = []"; cases y) auto
  qed
  from this [OF refl assms] show ?thesis .
qed

lemma kick_parse_keeps:
  "kick_parse P L rx w = (x, rx1, w1) \<Longrightarrow> rx_within G L rx \<Longrightarrow> R w0 w \<Longrightarrow> R w0 w1 \<and> rx_links rx1 = rx_links rx"
  using parse_loop_keeps by (auto simp: kick_parse_def split: if_splits)

lemma release_bids_keeps:
  assumes "release_bids P L bids rx w = (x, rx1, w1)" and "rx_within G L rx" and "R w0 w"
  shows "R w0 w1 \<and> rx_links rx1 = rx_links rx"
  using assms
proof (induction bids arbitrary: rx w)
  case (Cons bid bids)
  let ?rx = "rx\<lparr>rx_refcounts := (rx_refcounts rx)[unat bid := rx_refcounts rx ! unat bid - 1]\<rparr>"
  have g: "get_bgid (rx_group L ?rx) \<in> G" "rx_within G L ?rx" "rx_within G L (?rx\<lparr>rx_used_buffers := u\<rparr>)" for u
    using Cons.prems(2) by (simp_all add: rx_within_def rx_group_def)
  obtain y w2 where b: "return_buffer P (rx_group L ?rx) bid w = (y, w2)"
    by fastforce
  have w2: "R w0 w2"
    using return_buffer_keeps [OF b g(1) Cons.prems(3)] .
  show ?case
    using Cons.prems(1,3) w2 Cons.IH [OF _ g(2) Cons.prems(3)] Cons.IH [OF _ g(3) w2]
    by (auto simp: Let_def b split: if_splits sum.splits)
qed simp

lemma rx_rearm_keeps:
  "rx_rearm P L rx w = (x, rx1, w1) \<Longrightarrow> R w0 w \<Longrightarrow> R w0 w1 \<and> rx_links rx1 = rx_links rx"
  by (auto simp: rx_rearm_def split: if_splits sum.splits prod.splits elim: arm_recv_keeps)

lemma handle_write_keeps:
  assumes "handle_write_cqe P L c rx w = (x, rx1, w1)" and "rx_within G L rx" and "R w0 w"
  shows "R w0 w1 \<and> rx_links rx1 = rx_links rx"
proof (cases "rx_output_queue rx")
  case (Cons f fs)
  let ?rx = "rx\<lparr>rx_write_in_progress := False\<rparr>"
  obtain y rx2 w2 where a: "release_bids P L (of_bids f) ?rx w = (y, rx2, w2)"
    by (metis prod_cases3)
  obtain z rx3 w3 where b: "rx_rearm P L (rx2\<lparr>rx_output_queue := fs\<rparr>) w2 = (z, rx3, w3)"
    by (metis prod_cases3)
  have "rx_within G L ?rx"
    using assms(2) by (simp add: rx_within_def rx_group_def)
  from release_bids_keeps [OF a this assms(3)] have r2: "R w0 w2" "rx_links rx2 = rx_links rx"
    by simp_all
  have r3: "R w0 w3" "rx_links rx3 = rx_links rx"
    using rx_rearm_keeps [OF b r2(1)] r2(2) by simp_all
  have k: "R w0 w1 \<and> rx_links rx1 = rx_links rx" if "kick_write P L rx3 w3 = (x, rx1, w1)"
    using kick_write_keeps [OF that r3(1)] r3(2) by simp
  show ?thesis
    using assms(1,3) r2 r3 k
    by (auto simp: handle_write_cqe_def Let_def Cons a b split: if_splits sum.splits)
qed (use assms in \<open>auto simp: handle_write_cqe_def split: if_splits\<close>)

lemma handle_recv_keeps:
  assumes "handle_recv_cqe P L c rx w = (x, rx1, w1)" and "rx_within G L rx" and "R w0 w"
  shows "R w0 w1 \<and> rx_links rx1 = rx_links rx"
proof -
  have kick: "R w0 v1 \<and> rx_links rx1 = rx_links rx"
    if "kick_write P L rx' v = (x, rx1, v1)" "R w0 v" "rx_links rx' = rx_links rx" for rx' v v1
    using kick_write_keeps [OF that(1,2)] that(3) by simp
  have pushed: "R w0 w1 \<and> rx_links rx1 = rx_links rx"
    if parse: "kick_parse P L rx' w2 = (y, rx2, w3)" and w2: "R w0 w2" and l: "rx_links rx' = rx_links rx"
      and rest: "(case y of Inl e \<Rightarrow> (Inl e, rx2, w3) | Inr _ \<Rightarrow>
          if \<not> cqe_more c \<and> \<not> rx_cooling_down rx2 then (case arm_recv P L rx2 w3 of (Inl e, w) \<Rightarrow> (Inl e, rx2, w)
            | (Inr _, w) \<Rightarrow> kick_write P L rx2 w) else kick_write P L rx2 w3) = (x, rx1, w1)" for rx' w2 y rx2 w3
  proof -
    have r: "R w0 w3" "rx_links rx2 = rx_links rx"
      using kick_parse_keeps [OF parse _ w2] l assms(2) rx_within_links [OF l, of G L] by simp_all
    obtain z w4 where arm: "arm_recv P L rx2 w3 = (z, w4)" by fastforce
    show ?thesis
      using rest r kick [OF _ r] kick [OF _ arm_recv_keeps [OF arm r(1)] r(2)] arm_recv_keeps [OF arm r(1)]
      by (auto simp: arm split: sum.splits if_splits)
  qed
  obtain ok w2 where a: "alloc P w = (ok, w2)" by fastforce
  have w2: "R w0 w2" by (rule alloc_keeps [OF a assms(3)])
  have starved: ?thesis if "cqe_bid c = None \<or> \<not> cqe_ok c"
    using assms(1,3) that kick [OF _ assms(3), of "rx\<lparr>rx_cooling_down := True\<rparr>"]
    by (auto simp: handle_recv_cqe_def Let_def split: if_splits)
  show ?thesis
  proof (cases "cqe_bid c = None \<or> \<not> cqe_ok c")
    case False
    then obtain bid where bid: "cqe_bid c = Some bid" "cqe_ok c" by auto
    obtain y rx2 w3 where p: "kick_parse P L (rx\<lparr>rx_used_buffers := rx_used_buffers rx + 1,
      rx_input_queue := rx_input_queue rx @ [\<lparr>ib_bid = bid, ib_size = unat (cqe_result c), ib_offset = 0\<rparr>]\<rparr>) w2 = (y, rx2, w3)"
      by (metis prod_cases3)
    show ?thesis
      using assms(1,3) w2 pushed [OF p w2]
      by (simp add: handle_recv_cqe_def Let_def a p bid split: if_splits) auto
  qed (rule starved)
qed

lemma rx_handle_keeps:
  "rx_handle_cqe P L c rx w = (x, rx1, w1) \<Longrightarrow> rx_within G L rx \<Longrightarrow> R w0 w \<Longrightarrow> R w0 w1 \<and> rx_links rx1 = rx_links rx"
  using handle_recv_keeps [of L c rx w x rx1 w1 w0] handle_write_keeps [of L c rx w x rx1 w1 w0]
  by (auto simp: rx_handle_cqe_def split: if_splits)

subsection \<open>Sending\<close>

lemma arm_read_keeps: "arm_read P L tx w = (x, w1) \<Longrightarrow> R w0 w \<Longrightarrow> R w0 w1"
  by (auto simp: arm_read_def prep_read_def Let_def split: if_splits sum.splits prod.splits intro!: then_call elim!: basic_keeps)

lemma start_frame_keeps:
  "start_frame P L f tx w = (x, tx1, w1) \<Longrightarrow> R w0 w \<Longrightarrow> R w0 w1 \<and> tx_links tx1 = tx_links tx"
  by (auto simp: start_frame_def Let_def split: if_splits sum.splits prod.splits option.splits elim!: basic_keeps)

lemma push_segments_keeps: "push_segments P segs st w = (x, st1, w1) \<Longrightarrow> R w0 w \<Longrightarrow> R w0 w1"
proof (induction segs arbitrary: st w)
  case (Cons seg segs)
  obtain y st2 w2 where b: "push_segment P seg st w = (y, st2, w2)"
    by (metis prod_cases3)
  then have "R w0 w2"
    using Cons.prems(2) by (auto simp: push_segment_def Let_def split: if_splits prod.splits intro!: then_call elim!: basic_keeps)
  with Cons b show ?case
    by (auto split: sum.splits)
qed simp

lemma submit_send_keeps:
  "submit_send P L tx st w = (x, tx1, w1) \<Longrightarrow> R w0 w \<Longrightarrow> R w0 w1 \<and> tx_links tx1 = tx_links tx"
  by (auto simp: submit_send_def Let_def split: sum.splits prod.splits intro!: then_call elim!: basic_keeps)

lemma send_frame_keeps:
  "send_frame P L tx w = (x, tx1, w1) \<Longrightarrow> R w0 w \<Longrightarrow> R w0 w1 \<and> tx_links tx1 = tx_links tx"
  by (auto simp: send_frame_def Let_def split: if_splits sum.splits prod.splits dest!: submit_send_keeps elim!: push_segments_keeps)

lemma kick_send_keeps:
  assumes "kick_send P L tx w = (x, tx1, w1)" and "R w0 w"
  shows "R w0 w1 \<and> tx_links tx1 = tx_links tx"
proof (cases "tx_frame_queue tx")
  case (Cons f fs)
  obtain y tx2 w2 where b: "start_frame P L f tx w = (y, tx2, w2)"
    by (metis prod_cases3)
  note r = start_frame_keeps [OF b assms(2)]
  show ?thesis
    using assms r send_frame_keeps [of L tx2 w2 x tx1 w1 w0]
    by (auto simp: kick_send_def Cons b split: if_splits sum.splits)
qed (use assms in \<open>auto simp: kick_send_def split: if_splits\<close>)

lemma tx_rearm_keeps:
  "tx_rearm P L tx w = (x, tx1, w1) \<Longrightarrow> R w0 w \<Longrightarrow> R w0 w1 \<and> tx_links tx1 = tx_links tx"
  by (auto simp: tx_rearm_def split: if_splits sum.splits prod.splits elim: arm_read_keeps)

lemma book_sent_keeps:
  "book_sent P L n tx w = (x, tx1, w1) \<Longrightarrow> tx_within G L tx \<Longrightarrow> R w0 w \<Longrightarrow> R w0 w1 \<and> tx_links tx1 = tx_links tx"
  by (auto simp: book_sent_def Let_def tx_within_def tx_group_def split: if_splits sum.splits prod.splits option.splits
      elim!: return_buffer_keeps)

lemma handle_read_keeps:
  assumes "handle_read_cqe P L c tx w = (x, tx1, w1)" and "tx_within G L tx" and "R w0 w"
  shows "R w0 w1 \<and> tx_links tx1 = tx_links tx"
proof -
  have kick: "R w0 v1 \<and> tx_links tx1 = tx_links tx"
    if "kick_send P L tx' v = (x, tx1, v1)" "R w0 v" "tx_links tx' = tx_links tx" for tx' v v1
    using kick_send_keeps [OF that(1,2)] that(3) by simp
  show ?thesis
  proof (cases "cqe_bid c = None \<or> \<not> cqe_ok c")
    case True
    then show ?thesis
      using assms(1,3) kick [OF _ assms(3), of "tx\<lparr>tx_cooling_down := True\<rparr>"]
      by (auto simp: handle_read_cqe_def split: if_splits)
  next
    case False
    then obtain bid where bid: "cqe_bid c = Some bid" "cqe_ok c" by auto
    obtain ok w2 where a: "alloc P w = (ok, w2)" by fastforce
    let ?tx = "tx\<lparr>tx_frame_queue := tx_frame_queue tx @ [\<lparr>fr_bid = bid, fr_size = cqe_result c\<rparr>]\<rparr>"
    obtain y w3 where b: "return_buffer P (tx_group L tx) bid w2 = (y, w3)" by fastforce
    obtain z w4 where d: "arm_read P L ?tx w2 = (z, w4)" by fastforce
    have w2: "R w0 w2" by (rule alloc_keeps [OF a assms(3)])
    have w3: "R w0 w3" using return_buffer_keeps [OF b _ w2] assms(2) by (simp add: tx_within_def)
    have w4: "R w0 w4" by (rule arm_read_keeps [OF d w2])
    show ?thesis
      using assms(1,3) w3 w4 kick [of ?tx w2 w1] kick [of ?tx w4 w1] w2
      by (auto simp: handle_read_cqe_def Let_def a b d bid split: if_splits sum.splits)
  qed
qed

lemma handle_send_keeps:
  assumes "handle_send_cqe P L c tx w = (x, tx1, w1)" and "tx_within G L tx" and "R w0 w"
  shows "R w0 w1 \<and> tx_links tx1 = tx_links tx"
proof -
  let ?tx = "tx\<lparr>tx_send_in_progress := False\<rparr>"
  obtain y tx2 w2 where a: "book_sent P L (size_of_s32 (cqe_result c)) ?tx w = (y, tx2, w2)"
    by (metis prod_cases3)
  obtain z tx3 w3 where b: "tx_rearm P L tx2 w2 = (z, tx3, w3)"
    by (metis prod_cases3)
  have "tx_within G L ?tx"
    using assms(2) by (simp add: tx_within_def tx_group_def)
  from book_sent_keeps [OF a this assms(3)] have r2: "R w0 w2" "tx_links tx2 = tx_links tx"
    by simp_all
  have r3: "R w0 w3" "tx_links tx3 = tx_links tx"
    using tx_rearm_keeps [OF b r2(1)] r2(2) by simp_all
  show ?thesis
    using assms(1,3) r2 r3 kick_send_keeps [OF _ r3(1), of L tx3 x tx1 w1]
    by (auto simp: handle_send_cqe_def Let_def a b split: if_splits sum.splits)
qed

lemma tx_handle_keeps:
  "tx_handle_cqe P L c tx w = (x, tx1, w1) \<Longrightarrow> tx_within G L tx \<Longrightarrow> R w0 w \<Longrightarrow> R w0 w1 \<and> tx_links tx1 = tx_links tx"
  using handle_read_keeps [of L c tx w x tx1 w1 w0] handle_send_keeps [of L c tx w x tx1 w1 w0]
  by (auto simp: tx_handle_cqe_def split: if_splits)

end

section \<open>A path leaves the buffers of the other alone\<close>

text \<open>Once the check for multishot receives has been made, nothing is returned to a group outside of \<open>G\<close>.\<close>

definition apart :: "platform \<Rightarrow> u16 set \<Rightarrow> world \<Rightarrow> world \<Rightarrow> bool" where
  "apart P G w w' \<longleftrightarrow> (cache_ready P w \<longrightarrow> cache_ready P w' \<and>
     (\<exists>cs. trace w' = trace w @ cs \<and> (\<forall>g. g \<notin> G \<longrightarrow> returned_bids g cs = [])))"

lemma apart_trans: "apart P G w w1 \<Longrightarrow> apart P G w1 w2 \<Longrightarrow> apart P G w w2"
  by (fastforce simp: apart_def)

lemma quiet_apart: "quiet w w' \<Longrightarrow> apart P G w w'"
  by (auto simp: quiet_def apart_def cache_ready_def)

lemma path_call_bids: "path_call G c \<Longrightarrow> g \<notin> G \<Longrightarrow> added_bid g c = []"
  by (cases c) auto

lemma recv_check_apart: "recv_multishot P w = (b, w') \<Longrightarrow> apart P G w w'"
  by (cases "recv_multishot_cache w"; cases "HAVE_PREP_RECV_MULTISHOT P")
    (auto simp: recv_multishot_def apart_def cache_ready_def)

interpretation apart: path_effects P G "apart P G" for P G
proof
  show "apart P G w w" for w
    by (rule quiet_apart) simp
  show "apart P G w (log_call c w)" if "path_call G c" for c w
    using path_call_bids [OF that] by (auto simp: apart_def cache_ready_def log_call_def)
  show "apart P G w w1" if "read_multishot P w = (b, w1)" for b w w1
    using read_multishot_quiet [OF that] by (auto intro: quiet_apart)
qed (rule apart_trans recv_check_apart; assumption)+

end
