(* ===== verification/Session_System.thy ===== *)
theory Session_System
  imports Session Wire_Link Path_Effects
begin

text \<open>
  A running session as a state machine: both data paths on one ring and one world, with every
  interleaving of their completions, of the timer and of empty completions. Each path is seen through
  its own view; a step of the one leaves the view of the other as it was.
\<close>

record tunnel =
  tn_session :: session
  tn_world :: world
  tn_rx_free :: "u16 set"
  tn_tx_free :: "u16 set"
  tn_received :: "u8 list"
  tn_written :: "u8 list list"
  tn_packets :: "u8 list list"
  tn_sent :: "u8 list"

abbreviation tn_rx :: "tunnel \<Rightarrow> receiver" where "tn_rx s \<equiv> ses_receiver (tn_session s)"
abbreviation tn_tx :: "tunnel \<Rightarrow> transmitter" where "tn_tx s \<equiv> ses_transmitter (tn_session s)"
abbreviation tn_links :: "tunnel \<Rightarrow> links" where "tn_links s \<equiv> links_of (tn_session s)"

definition rx_view :: "tunnel \<Rightarrow> rx_system" where
  "rx_view s = \<lparr>sy_rx = tn_rx s, sy_links = tn_links s, sy_world = tn_world s, sy_free = tn_rx_free s,
     sy_received = tn_received s, sy_written = tn_written s\<rparr>"

definition tx_view :: "tunnel \<Rightarrow> tx_system" where
  "tx_view s = \<lparr>st_tx = tn_tx s, st_links = tn_links s, st_world = tn_world s, st_free = tn_tx_free s,
     st_packets = tn_packets s, st_sent = tn_sent s\<rparr>"

text \<open>The ids of the groups of the two paths.\<close>

definition rx_bgid :: "session \<Rightarrow> u16" where "rx_bgid s = get_bgid (rx_group (links_of s) (ses_receiver s))"
definition tx_bgid :: "session \<Rightarrow> u16" where "tx_bgid s = get_bgid (tx_group (links_of s) (ses_transmitter s))"

text \<open>The kernel puts bytes into buffer \<open>bid\<close> of the group that \<open>i\<close> points to.\<close>

definition session_fill :: "nat \<Rightarrow> u16 \<Rightarrow> u8 list \<Rightarrow> session \<Rightarrow> session" where
  "session_fill i bid bs s = s\<lparr>ses_ring := lk_ring (fill_links i bid bs (links_of s))\<rparr>"

section \<open>Steps\<close>

text \<open>
  The start: the session has been created and armed, and then made calls that hand out no buffer (it
  prints the counters and arms the timer). The kernel owns the buffers that it was given during the creation.
\<close>

definition tunnel_start :: "platform \<Rightarrow> tunnel \<Rightarrow> bool" where
  "tunnel_start P s \<longleftrightarrow> (\<exists>here there mtu0 ring tun sock txlen rxlen rxsize cfg w w1 w2.
     create_session P here there mtu0 ring tun sock txlen rxlen rxsize cfg w = (Inr (tn_session s), w1) \<and>
     session_arm P (tn_session s) w1 = (Inr (), w2) \<and> quiet w2 (tn_world s) \<and>
     tn_rx_free s = set (returned_bids (rx_bgid (tn_session s)) (calls_since w w1)) \<and>
     tn_tx_free s = set (returned_bids (tx_bgid (tn_session s)) (calls_since w w1)) \<and>
     tn_received s = [] \<and> tn_written s = [] \<and> tn_packets s = [] \<and> tn_sent s = [])"

text \<open>What the kernel can report, and what it has done when it does.\<close>

inductive kernel_event :: "tunnel \<Rightarrow> cqe \<Rightarrow> tunnel \<Rightarrow> bool" where
  Stream_data: "\<lbrakk>bid \<in> tn_rx_free s; 0 < length bs;
      length bs \<le> unat (bg_buffer_size (rx_group (tn_links s) (tn_rx s))); length bs < 2 ^ 31\<rbrakk> \<Longrightarrow>
    kernel_event s (mk_cqe RECV (of_nat (length bs)) (Some bid) m)
      (s\<lparr>tn_session := session_fill (the (rx_bg (tn_rx s))) bid bs (tn_session s),
         tn_rx_free := tn_rx_free s - {bid}, tn_received := tn_received s @ bs\<rparr>)"
| Stream_starved: "kernel_event s (mk_cqe RECV (- of_int ENOBUFS) None False) s"
| Packet_written: "\<lbrakk>rx_write_in_progress (tn_rx s); rx_output_queue (tn_rx s) = f # fs; sint r = int (frame_size f)\<rbrakk> \<Longrightarrow>
    kernel_event s (mk_cqe WRITE r None m)
      (s\<lparr>tn_written := tn_written s @ [frame_payload (rx_group (tn_links s) (tn_rx s)) f]\<rparr>)"
| Packet_read: "\<lbrakk>bid \<in> tn_tx_free s; length bs \<le> unat (bg_buffer_size (tx_group (tn_links s) (tn_tx s))); length bs < 2 ^ 31\<rbrakk> \<Longrightarrow>
    kernel_event s (mk_cqe READ (of_nat (length bs)) (Some bid) m)
      (s\<lparr>tn_session := session_fill (the (tx_bg (tn_tx s))) bid bs (tn_session s),
         tn_tx_free := tn_tx_free s - {bid}, tn_packets := tn_packets s @ [bs]\<rparr>)"
| Packet_starved: "kernel_event s (mk_cqe READ (- of_int ENOBUFS) None False) s"
| Bytes_sent: "\<lbrakk>tx_send_in_progress (tn_tx s); 0 < n; n \<le> length (in_flight (tn_links s) (tn_tx s)); sint r = int n\<rbrakk> \<Longrightarrow>
    kernel_event s (mk_cqe SEND r None m)
      (s\<lparr>tn_sent := tn_sent s @ take n (in_flight (tn_links s) (tn_tx s))\<rparr>)"
| Timer: "\<lbrakk>ses_cfg (tn_session s) = Some cfg; monitor_mode cfg\<rbrakk> \<Longrightarrow> kernel_event s (mk_cqe TIMEOUT r None m) s"
| Nothing: "kernel_event s (mk_cqe NONE r None m) s"

text \<open>Taking the completion makes two calls; the buffers that the handler returns are the kernel's again.\<close>

definition after_wait :: "world \<Rightarrow> world" where
  "after_wait w = log_call Io_uring_cqe_seen (log_call Io_uring_wait_cqe w)"

definition settle :: "tunnel \<Rightarrow> session \<Rightarrow> world \<Rightarrow> tunnel" where
  "settle s ses w = s\<lparr>tn_session := ses, tn_world := w,
     tn_rx_free := tn_rx_free s \<union> set (returned_bids (rx_bgid (tn_session s)) (calls_since (tn_world s) w)),
     tn_tx_free := tn_tx_free s \<union> set (returned_bids (tx_bgid (tn_session s)) (calls_since (tn_world s) w))\<rparr>"

inductive tunnel_step :: "platform \<Rightarrow> tunnel \<Rightarrow> tunnel \<Rightarrow> bool" for P where
  Handled: "\<lbrakk>kernel_event s c s1; dispatch P (tn_session s1) c (after_wait (tn_world s1)) = Some (Inr u, ses, w)\<rbrakk> \<Longrightarrow>
    tunnel_step P s (settle s1 ses w)"

inductive tunnel_reachable :: "platform \<Rightarrow> tunnel \<Rightarrow> bool" for P where
  Start: "tunnel_start P s \<Longrightarrow> tunnel_reachable P s"
| Step: "tunnel_reachable P s \<Longrightarrow> tunnel_step P s s' \<Longrightarrow> tunnel_reachable P s'"

section \<open>The invariant\<close>

definition tunnel_inv :: "platform \<Rightarrow> tunnel \<Rightarrow> bool" where
  "tunnel_inv P s \<longleftrightarrow> sys_inv P (rx_view s) \<and> st_inv (tx_view s) \<and> rx_home (tn_session s) \<and> tx_home (tn_session s) \<and>
     the (rx_bg (tn_rx s)) \<noteq> the (tx_bg (tn_tx s)) \<and> rx_bgid (tn_session s) \<noteq> tx_bgid (tn_session s)"

subsection \<open>The views\<close>

lemma sys_inv_cong:
  assumes "sys_inv P s" and "sy_rx s' = sy_rx s" and "rx_group (sy_links s') (sy_rx s) = rx_group (sy_links s) (sy_rx s)"
    and "get_mtu (lk_tun (sy_links s')) = get_mtu (lk_tun (sy_links s))"
    and "linked (sy_links s') (sy_rx s)" and "cache_ready P (sy_world s')"
    and "sy_free s' = sy_free s" and "sy_received s' = sy_received s" and "sy_written s' = sy_written s"
  shows "sys_inv P s'"
  using assms
  by (simp add: sys_inv_def rx_idle_def rx_inv_def stream_ok_def refs_ok_def state_ok_def undecoded_def buffered_def
      pending_def payloads_def sy_group_def sy_mtu_def cong: parse_state.case_cong)

lemma st_inv_cong:
  assumes "st_inv s" and "st_tx s' = st_tx s" and "tx_group (st_links s') (st_tx s) = tx_group (st_links s) (st_tx s)"
    and "tx_linked (st_links s') (st_tx s)"
    and "st_free s' = st_free s" and "st_packets s' = st_packets s" and "st_sent s' = st_sent s"
  shows "st_inv s'"
  using assms
  by (simp add: st_inv_def tx_idle_def tx_inv_def flight_ok_def unsent_def st_group_def cong: option.case_cong)

lemma group_at_fill_other:
  "i \<noteq> j \<Longrightarrow> group_at (lk_ring (fill_links i bid bs L)) j = group_at (lk_ring L) j"
  by (simp add: group_at_def fill_links_def Let_def)

lemma links_of_fill [simp]: "links_of (session_fill i bid bs s) = fill_links i bid bs (links_of s)"
  by (simp add: links_of_def session_fill_def fill_links_def Let_def)

lemma session_fill_simps [simp]:
  "ses_receiver (session_fill i bid bs s) = ses_receiver s" "ses_transmitter (session_fill i bid bs s) = ses_transmitter s"
  "ses_at (session_fill i bid bs s) = ses_at s" "ses_cfg (session_fill i bid bs s) = ses_cfg s"
  "ses_tun (session_fill i bid bs s) = ses_tun s"
  by (simp_all add: session_fill_def)

lemma links_of_paths [simp]:
  "links_of (s\<lparr>ses_receiver := rx\<rparr>) = links_of s" "links_of (s\<lparr>ses_transmitter := tx\<rparr>) = links_of s"
  by (simp_all add: links_of_def)

lemma after_wait_quiet: "quiet w (after_wait w)"
  by (auto simp: after_wait_def intro!: quiet_log_call)

lemma bids_after_wait:
  assumes "trace w' = trace (after_wait w) @ cs"
  shows "returned_bids g (calls_since w w') = returned_bids g cs" "calls_since (after_wait w) w' = cs"
  using assms by (simp_all add: calls_since_def after_wait_def)

lemma fill_cases:
  assumes "ses1 = ses \<or> (\<exists>bid bs. ses1 = session_fill i bid bs ses)"
  shows "ses_receiver ses1 = ses_receiver ses" "ses_transmitter ses1 = ses_transmitter ses" "ses_at ses1 = ses_at ses"
    "ses_cfg ses1 = ses_cfg ses" "lk_tun (links_of ses1) = lk_tun (links_of ses)"
    "length (buffer_groups (lk_ring (links_of ses1))) = length (buffer_groups (lk_ring (links_of ses)))"
    "i \<noteq> j \<Longrightarrow> group_at (lk_ring (links_of ses1)) j = group_at (lk_ring (links_of ses)) j"
    "i < length (buffer_groups (lk_ring (links_of ses))) \<Longrightarrow>
      bg_bgid (group_at (lk_ring (links_of ses1)) i) = bg_bgid (group_at (lk_ring (links_of ses)) i)"
  using assms by (auto simp: group_at_fill_other group_at_fill)

text \<open>A step of one path, put back into the whole.\<close>

lemma rx_settle:
  fixes s ses1 F rc wr
  defines "s1 \<equiv> s\<lparr>tn_session := ses1, tn_rx_free := F, tn_received := rc, tn_written := wr\<rparr>"
    and "v \<equiv> (rx_view s)\<lparr>sy_world := after_wait (tn_world s)\<rparr>"
  assumes inv: "tunnel_inv P s"
    and fill: "ses1 = tn_session s \<or> (\<exists>bid bs. ses1 = session_fill (the (rx_bg (tn_rx s))) bid bs (tn_session s))"
    and h: "rx_handle_cqe P (links_of ses1) c (tn_rx s) (after_wait (tn_world s)) = (Inr u, rx', w')"
    and view: "sys_inv P \<lparr>sy_rx = rx', sy_links = links_of ses1, sy_world = w', sy_free = F \<union> given_back v w',
      sy_received = rc, sy_written = wr\<rparr>"
  shows "tunnel_inv P (settle s1 (ses1\<lparr>ses_receiver := rx'\<rparr>) w')"
proof -
  let ?ses = "tn_session s" and ?w = "after_wait (tn_world s)"
  let ?s' = "settle s1 (ses1\<lparr>ses_receiver := rx'\<rparr>) w'"
  note f = fill_cases [OF fill]
  have i: "sys_inv P (rx_view s)" "st_inv (tx_view s)" "rx_home ?ses" "tx_home ?ses"
      "the (rx_bg (tn_rx s)) \<noteq> the (tx_bg (tn_tx s))" "rx_bgid ?ses \<noteq> tx_bgid ?ses"
    using inv by (simp_all add: tunnel_inv_def)
  have ready: "cache_ready P ?w"
    using i(1) quiet_cache_ready [OF after_wait_quiet] by (simp add: sys_inv_def rx_view_def)
  have linked: "the (rx_bg (tn_rx s)) < length (buffer_groups (lk_ring (links_of ?ses)))"
    using i(1) by (simp add: sys_inv_def linked_def rx_view_def)
  have bgid: "rx_bgid ses1 = rx_bgid ?ses" "tx_bgid ses1 = tx_bgid ?ses"
    using f(1,2) f(7) [OF i(5)] f(8) [OF linked]
    by (simp_all add: rx_bgid_def tx_bgid_def rx_group_def tx_group_def get_bgid_def)
  have "rx_within {rx_bgid ?ses} (links_of ses1) (tn_rx s)"
    using bgid(1) f(1) by (simp add: rx_within_def rx_bgid_def)
  from apart.rx_handle_keeps [OF h this, of ?w] ready apart.keeps_same [of P _ ?w]
  obtain cs where cs: "trace w' = trace ?w @ cs" "\<forall>g. g \<noteq> rx_bgid ?ses \<longrightarrow> returned_bids g cs = []"
      "cache_ready P w'" and links: "rx_links rx' = rx_links (tn_rx s)"
    by (auto simp: apart_def)
  have "rx_view ?s' = \<lparr>sy_rx = rx', sy_links = links_of ses1, sy_world = w', sy_free = F \<union> given_back v w',
      sy_received = rc, sy_written = wr\<rparr>"
    using bids_after_wait [OF cs(1)] bgid(1)
    by (simp add: rx_view_def settle_def s1_def given_back_def v_def sy_group_def rx_bgid_def)
  then have "sys_inv P (rx_view ?s')"
    using view by simp
  moreover have "st_inv (tx_view ?s')"
  proof (rule st_inv_cong [OF i(2)])
    show "tx_group (st_links (tx_view ?s')) (st_tx (tx_view s)) = tx_group (st_links (tx_view s)) (st_tx (tx_view s))"
      using f(7) [OF i(5)] by (simp add: tx_view_def settle_def tx_group_def)
    show "tx_linked (st_links (tx_view ?s')) (st_tx (tx_view s))"
      using i(2) f(6) by (simp add: tx_view_def settle_def st_inv_def tx_linked_def)
    show "st_free (tx_view ?s') = st_free (tx_view s)"
      using bids_after_wait(1) [OF cs(1)] cs(2) i(6) bgid(2) by (simp add: tx_view_def settle_def s1_def)
  qed (simp_all add: tx_view_def settle_def s1_def f(2))
  moreover have "rx_home (tn_session ?s')" "tx_home (tn_session ?s')"
    using i(3,4) links f(2,3) by (simp_all add: rx_home_def tx_home_def home_def Let_def settle_def s1_def rx_links_def)
  moreover have "the (rx_bg (tn_rx ?s')) \<noteq> the (tx_bg (tn_tx ?s'))"
    using i(5) links f(2) by (simp add: settle_def s1_def rx_links_def)
  moreover have "rx_bgid (tn_session ?s') = rx_bgid ses1" "tx_bgid (tn_session ?s') = tx_bgid ses1"
    using rx_links_group [OF links, of "links_of ses1"] f(1) by (simp_all add: settle_def s1_def rx_bgid_def tx_bgid_def)
  ultimately show ?thesis
    using i(6) bgid by (simp add: tunnel_inv_def)
qed

lemma tx_settle:
  fixes s ses1 F pk st
  defines "s1 \<equiv> s\<lparr>tn_session := ses1, tn_tx_free := F, tn_packets := pk, tn_sent := st\<rparr>"
    and "v \<equiv> (tx_view s)\<lparr>st_world := after_wait (tn_world s)\<rparr>"
  assumes inv: "tunnel_inv P s"
    and fill: "ses1 = tn_session s \<or> (\<exists>bid bs. ses1 = session_fill (the (tx_bg (tn_tx s))) bid bs (tn_session s))"
    and h: "tx_handle_cqe P (links_of ses1) c (tn_tx s) (after_wait (tn_world s)) = (Inr u, tx', w')"
    and view: "st_inv \<lparr>st_tx = tx', st_links = links_of ses1, st_world = w', st_free = F \<union> tx_given_back v w',
      st_packets = pk, st_sent = st\<rparr>"
  shows "tunnel_inv P (settle s1 (ses1\<lparr>ses_transmitter := tx'\<rparr>) w')"
proof -
  let ?ses = "tn_session s" and ?w = "after_wait (tn_world s)"
  let ?s' = "settle s1 (ses1\<lparr>ses_transmitter := tx'\<rparr>) w'"
  note f = fill_cases [OF fill]
  have i: "sys_inv P (rx_view s)" "st_inv (tx_view s)" "rx_home ?ses" "tx_home ?ses"
      "the (tx_bg (tn_tx s)) \<noteq> the (rx_bg (tn_rx s))" "rx_bgid ?ses \<noteq> tx_bgid ?ses"
    using inv by (simp_all add: tunnel_inv_def)
  have ready: "cache_ready P ?w"
    using i(1) quiet_cache_ready [OF after_wait_quiet] by (simp add: sys_inv_def rx_view_def)
  have linked: "the (tx_bg (tn_tx s)) < length (buffer_groups (lk_ring (links_of ?ses)))"
    using i(2) by (simp add: st_inv_def tx_linked_def tx_view_def)
  have bgid: "rx_bgid ses1 = rx_bgid ?ses" "tx_bgid ses1 = tx_bgid ?ses"
    using f(1,2) f(7) [OF i(5)] f(8) [OF linked]
    by (simp_all add: rx_bgid_def tx_bgid_def rx_group_def tx_group_def get_bgid_def)
  have "tx_within {tx_bgid ?ses} (links_of ses1) (tn_tx s)"
    using bgid(2) f(2) by (simp add: tx_within_def tx_bgid_def)
  from apart.tx_handle_keeps [OF h this, of ?w] ready apart.keeps_same [of P _ ?w]
  obtain cs where cs: "trace w' = trace ?w @ cs" "\<forall>g. g \<noteq> tx_bgid ?ses \<longrightarrow> returned_bids g cs = []"
      "cache_ready P w'" and links: "tx_links tx' = tx_links (tn_tx s)"
    by (auto simp: apart_def)
  have "tx_view ?s' = \<lparr>st_tx = tx', st_links = links_of ses1, st_world = w', st_free = F \<union> tx_given_back v w',
      st_packets = pk, st_sent = st\<rparr>"
    using bids_after_wait [OF cs(1)] bgid(2)
    by (simp add: tx_view_def settle_def s1_def tx_given_back_def v_def st_group_def tx_bgid_def)
  then have "st_inv (tx_view ?s')"
    using view by simp
  moreover have "sys_inv P (rx_view ?s')"
  proof (rule sys_inv_cong [OF i(1)])
    show "rx_group (sy_links (rx_view ?s')) (sy_rx (rx_view s)) = rx_group (sy_links (rx_view s)) (sy_rx (rx_view s))"
      using f(7) [OF i(5)] by (simp add: rx_view_def settle_def rx_group_def)
    show "linked (sy_links (rx_view ?s')) (sy_rx (rx_view s))"
      using i(1) f(6) by (simp add: rx_view_def settle_def sys_inv_def linked_def)
    show "sy_free (rx_view ?s') = sy_free (rx_view s)"
      using bids_after_wait(1) [OF cs(1)] cs(2) i(6) bgid(1) by (simp add: rx_view_def settle_def s1_def)
  qed (simp_all add: rx_view_def settle_def s1_def f(1,5) cs(3))
  moreover have "rx_home (tn_session ?s')" "tx_home (tn_session ?s')"
    using i(3,4) links f(1,3) by (simp_all add: rx_home_def tx_home_def home_def Let_def settle_def s1_def tx_links_def)
  moreover have "the (rx_bg (tn_rx ?s')) \<noteq> the (tx_bg (tn_tx ?s'))"
    using i(5) links f(1) by (simp add: settle_def s1_def tx_links_def)
  moreover have "rx_bgid (tn_session ?s') = rx_bgid ses1" "tx_bgid (tn_session ?s') = tx_bgid ses1"
    using tx_links_group [OF links, of "links_of ses1"] f(2) by (simp_all add: settle_def s1_def rx_bgid_def tx_bgid_def)
  ultimately show ?thesis
    using i(6) bgid by (simp add: tunnel_inv_def)
qed

subsection \<open>Every event\<close>

text \<open>
  The reasons for which a session stops: a submission fails, memory runs out, the kernel does not
  support a request, the counters cannot be read, or the peer has sent something that is no frame.
\<close>

definition outside_cause :: "tunnel \<Rightarrow> error \<Rightarrow> bool" where
  "outside_cause s e \<longleftrightarrow> ring_failure e \<or> tx_failure e \<or> stats_failure e \<or>
     decode_error (get_mtu (ses_tun (tn_session s))) (tn_received s) = Some (err_code e)"

lemma awaited_views:
  assumes "tunnel_inv P s"
  shows "sys_inv P ((rx_view s)\<lparr>sy_world := after_wait (tn_world s)\<rparr>)" "st_inv ((tx_view s)\<lparr>st_world := after_wait (tn_world s)\<rparr>)"
proof -
  show "sys_inv P ((rx_view s)\<lparr>sy_world := after_wait (tn_world s)\<rparr>)"
    using assms quiet_cache_ready [OF after_wait_quiet, of P "tn_world s"]
    by (auto simp: tunnel_inv_def sys_inv_def sy_group_def sy_mtu_def rx_view_def)
  show "st_inv ((tx_view s)\<lparr>st_world := after_wait (tn_world s)\<rparr>)"
    using assms by (auto simp: tunnel_inv_def st_inv_def st_group_def tx_view_def)
qed

lemma dispatch_rx:
  assumes "dispatch P ses c w = Some (rv, ses', w')" and "cqe_type c = RECV \<or> cqe_type c = WRITE" and "rx_home ses"
  obtains rx' where "rx_handle_cqe P (links_of ses) c (ses_receiver ses) w = (rv, rx', w')" "ses' = ses\<lparr>ses_receiver := rx'\<rparr>"
  using assms by (auto simp: dispatch_def Let_def split: prod.splits)

lemma dispatch_tx:
  assumes "dispatch P ses c w = Some (rv, ses', w')" and "cqe_type c = READ \<or> cqe_type c = SEND" and "tx_home ses"
  obtains tx' where "tx_handle_cqe P (links_of ses) c (ses_transmitter ses) w = (rv, tx', w')" "ses' = ses\<lparr>ses_transmitter := tx'\<rparr>"
  using assms by (auto simp: dispatch_def Let_def split: prod.splits)

lemma tunnel_homes:
  "tunnel_inv P s \<Longrightarrow> rx_home (session_fill i bid bs (tn_session s)) \<and> tx_home (session_fill i bid bs (tn_session s))"
  by (simp add: tunnel_inv_def rx_home_def tx_home_def home_def)

text \<open>Events of the receiver.\<close>

lemma stream_data_inv:
  assumes inv: "tunnel_inv P s" and cpu: "wf_cpu (processor P)"
    and bs: "bid \<in> tn_rx_free s" "0 < length bs" "length bs \<le> unat (bg_buffer_size (rx_group (tn_links s) (tn_rx s)))" "length bs < 2 ^ 31"
  defines "s1 \<equiv> s\<lparr>tn_session := session_fill (the (rx_bg (tn_rx s))) bid bs (tn_session s),
      tn_rx_free := tn_rx_free s - {bid}, tn_received := tn_received s @ bs\<rparr>"
  assumes d: "dispatch P (tn_session s1) (mk_cqe RECV (of_nat (length bs)) (Some bid) m) (after_wait (tn_world s)) = Some (rv, ses, w)"
  shows "(\<forall>u. rv = Inr u \<longrightarrow> tunnel_inv P (settle s1 ses w)) \<and> (\<forall>e. rv = Inl e \<longrightarrow> outside_cause s1 e)"
proof -
  let ?v = "(rx_view s)\<lparr>sy_world := after_wait (tn_world s)\<rparr>" and ?c = "mk_cqe RECV (of_nat (length bs)) (Some bid) m"
  let ?ses1 = "session_fill (the (rx_bg (tn_rx s))) bid bs (tn_session s)"
  have "rx_home (tn_session s1)"
    using tunnel_homes [OF inv] by (simp add: s1_def)
  with d obtain rx' where h: "rx_handle_cqe P (links_of ?ses1) ?c (tn_rx s) (after_wait (tn_world s)) = (rv, rx', w)"
      and ses: "ses = ?ses1\<lparr>ses_receiver := rx'\<rparr>"
    by (auto simp: s1_def elim!: dispatch_rx)
  have hv: "rx_handle_cqe P (kernel_fill (sy_rx ?v) bid bs (sy_links ?v)) ?c (sy_rx ?v) (sy_world ?v) = (rv, rx', w)"
    using h by (simp add: rx_view_def kernel_fill_def)
  have g: "sy_free ?v = tn_rx_free s" "sy_group ?v = rx_group (tn_links s) (tn_rx s)" "sy_received ?v = tn_received s"
      "sy_mtu ?v = get_mtu (ses_tun (tn_session s))"
    by (simp_all add: rx_view_def sy_group_def sy_mtu_def links_of_def)
  note r = received_inv [OF awaited_views(1) [OF inv] cpu, unfolded g, OF bs hv]
  have "tunnel_inv P (settle s1 ses w)" if "rv = Inr u" for u
  proof -
    have "tunnel_inv P (settle (s\<lparr>tn_session := ?ses1, tn_rx_free := tn_rx_free s - {bid}, tn_received := tn_received s @ bs,
        tn_written := tn_written s\<rparr>) (?ses1\<lparr>ses_receiver := rx'\<rparr>) w)"
    proof (rule rx_settle [OF inv])
      show "rx_handle_cqe P (links_of ?ses1) ?c (tn_rx s) (after_wait (tn_world s)) = (Inr u, rx', w)"
        using h that by simp
      show "sys_inv P \<lparr>sy_rx = rx', sy_links = links_of ?ses1, sy_world = w, sy_free = tn_rx_free s - {bid} \<union> given_back ?v w,
          sy_received = tn_received s @ bs, sy_written = tn_written s\<rparr>"
        using r that by (simp add: rx_view_def kernel_fill_def)
    qed auto
    then show ?thesis
      by (simp add: s1_def ses)
  qed
  moreover have "outside_cause s1 e" if "rv = Inl e" for e
    using r that by (auto simp: outside_cause_def s1_def tx_failure_def)
  ultimately show ?thesis by blast
qed

lemma stream_starved_inv:
  assumes inv: "tunnel_inv P s"
    and d: "dispatch P (tn_session s) (mk_cqe RECV (- of_int ENOBUFS) None False) (after_wait (tn_world s)) = Some (rv, ses, w)"
  shows "(\<forall>u. rv = Inr u \<longrightarrow> tunnel_inv P (settle s ses w)) \<and> (\<forall>e. rv = Inl e \<longrightarrow> outside_cause s e)"
proof -
  let ?v = "(rx_view s)\<lparr>sy_world := after_wait (tn_world s)\<rparr>" and ?c = "mk_cqe RECV (- of_int ENOBUFS) None False"
  have "rx_home (tn_session s)"
    using inv by (simp add: tunnel_inv_def)
  with d obtain rx' where h: "rx_handle_cqe P (tn_links s) ?c (tn_rx s) (after_wait (tn_world s)) = (rv, rx', w)"
      and ses: "ses = tn_session s\<lparr>ses_receiver := rx'\<rparr>"
    by (auto elim!: dispatch_rx)
  have v: "sys_inv P ?v"
    by (rule awaited_views(1) [OF inv])
  have "tunnel_inv P (settle s ses w)" if "rv = Inr u" for u
  proof -
    have h': "rx_handle_cqe P (sy_links ?v) ?c (sy_rx ?v) (sy_world ?v) = (Inr u, rx', w)"
      using h that by (simp add: rx_view_def)
    have "tunnel_inv P (settle (s\<lparr>tn_session := tn_session s, tn_rx_free := tn_rx_free s, tn_received := tn_received s,
        tn_written := tn_written s\<rparr>) (tn_session s\<lparr>ses_receiver := rx'\<rparr>) w)"
      by (rule rx_settle [OF inv]) (use h that no_buffers_inv [OF v h'] in \<open>simp_all add: rx_view_def\<close>)
    then show ?thesis
      by (simp add: ses)
  qed
  moreover have "outside_cause s e" if "rv = Inl e" for e
  proof -
    have idle: "rx_idle (tn_links s) (tn_rx s)"
      using inv by (simp add: tunnel_inv_def sys_inv_def rx_view_def)
    then have h': "handle_recv_cqe P (tn_links s) ?c (tn_rx s) (after_wait (tn_world s)) = (rv, rx', w)"
      using h rx_inv_valid by (auto simp: rx_handle_cqe_def rx_idle_def)
    have "cqe_type ?c = RECV" "sint (cqe_result ?c) < 0" "sint (cqe_error ?c) = ENOBUFS" "\<not> cqe_more ?c"
      by (simp_all add: cqe_error_def sint_minus_enobufs ENOBUFS_def)
    from handle_enobufs_inv [OF idle this h'] that show ?thesis
      by (simp add: outside_cause_def)
  qed
  ultimately show ?thesis by blast
qed

lemma packet_written_inv:
  assumes inv: "tunnel_inv P s" and q: "rx_output_queue (tn_rx s) = f # fs" and n: "sint r = int (frame_size f)"
  defines "s1 \<equiv> s\<lparr>tn_written := tn_written s @ [frame_payload (rx_group (tn_links s) (tn_rx s)) f]\<rparr>"
  assumes d: "dispatch P (tn_session s) (mk_cqe WRITE r None m) (after_wait (tn_world s)) = Some (rv, ses, w)"
  shows "(\<forall>u. rv = Inr u \<longrightarrow> tunnel_inv P (settle s1 ses w)) \<and> (\<forall>e. rv = Inl e \<longrightarrow> outside_cause s1 e)"
proof -
  let ?v = "(rx_view s)\<lparr>sy_world := after_wait (tn_world s)\<rparr>" and ?c = "mk_cqe WRITE r None m"
  have "rx_home (tn_session s)"
    using inv by (simp add: tunnel_inv_def)
  with d obtain rx' where h: "rx_handle_cqe P (tn_links s) ?c (tn_rx s) (after_wait (tn_world s)) = (rv, rx', w)"
      and ses: "ses = tn_session s\<lparr>ses_receiver := rx'\<rparr>"
    by (auto elim!: dispatch_rx)
  have hv: "rx_handle_cqe P (sy_links ?v) ?c (sy_rx ?v) (sy_world ?v) = (rv, rx', w)" "rx_output_queue (sy_rx ?v) = f # fs"
    using h q by (simp_all add: rx_view_def)
  note wr = written_inv [OF awaited_views(1) [OF inv] hv(2) n hv(1)]
  have "tunnel_inv P (settle s1 ses w)" if "rv = Inr u" for u
  proof -
    have "tunnel_inv P (settle (s\<lparr>tn_session := tn_session s, tn_rx_free := tn_rx_free s, tn_received := tn_received s,
        tn_written := tn_written s @ [frame_payload (rx_group (tn_links s) (tn_rx s)) f]\<rparr>) (tn_session s\<lparr>ses_receiver := rx'\<rparr>) w)"
      by (rule rx_settle [OF inv]) (use h that wr in \<open>simp_all add: rx_view_def sy_group_def\<close>)
    then show ?thesis
      by (simp add: ses s1_def)
  qed
  with wr show ?thesis
    by (auto simp: outside_cause_def)
qed

text \<open>Events of the transmitter.\<close>

lemma packet_read_inv:
  assumes inv: "tunnel_inv P s" and cpu: "wf_cpu (processor P)"
    and bs: "bid \<in> tn_tx_free s" "length bs \<le> unat (bg_buffer_size (tx_group (tn_links s) (tn_tx s)))" "length bs < 2 ^ 31"
  defines "s1 \<equiv> s\<lparr>tn_session := session_fill (the (tx_bg (tn_tx s))) bid bs (tn_session s),
      tn_tx_free := tn_tx_free s - {bid}, tn_packets := tn_packets s @ [bs]\<rparr>"
  assumes d: "dispatch P (tn_session s1) (mk_cqe READ (of_nat (length bs)) (Some bid) m) (after_wait (tn_world s)) = Some (rv, ses, w)"
  shows "(\<forall>u. rv = Inr u \<longrightarrow> tunnel_inv P (settle s1 ses w)) \<and> (\<forall>e. rv = Inl e \<longrightarrow> outside_cause s1 e)"
proof -
  let ?v = "(tx_view s)\<lparr>st_world := after_wait (tn_world s)\<rparr>" and ?c = "mk_cqe READ (of_nat (length bs)) (Some bid) m"
  let ?ses1 = "session_fill (the (tx_bg (tn_tx s))) bid bs (tn_session s)"
  have "tx_home (tn_session s1)"
    using tunnel_homes [OF inv] by (simp add: s1_def)
  with d obtain tx' where h: "tx_handle_cqe P (links_of ?ses1) ?c (tn_tx s) (after_wait (tn_world s)) = (rv, tx', w)"
      and ses: "ses = ?ses1\<lparr>ses_transmitter := tx'\<rparr>"
    by (auto simp: s1_def elim!: dispatch_tx)
  have hv: "tx_handle_cqe P (tx_fill (st_tx ?v) bid bs (st_links ?v)) ?c (st_tx ?v) (st_world ?v) = (rv, tx', w)"
    using h by (simp add: tx_view_def tx_fill_def)
  have g: "st_free ?v = tn_tx_free s" "st_group ?v = tx_group (tn_links s) (tn_tx s)"
    by (simp_all add: tx_view_def st_group_def)
  note r = read_inv [OF awaited_views(2) [OF inv] cpu, unfolded g, OF bs hv]
  have "tunnel_inv P (settle s1 ses w)" if "rv = Inr u" for u
  proof -
    have "tunnel_inv P (settle (s\<lparr>tn_session := ?ses1, tn_tx_free := tn_tx_free s - {bid}, tn_packets := tn_packets s @ [bs],
        tn_sent := tn_sent s\<rparr>) (?ses1\<lparr>ses_transmitter := tx'\<rparr>) w)"
    proof (rule tx_settle [OF inv])
      show "tx_handle_cqe P (links_of ?ses1) ?c (tn_tx s) (after_wait (tn_world s)) = (Inr u, tx', w)"
        using h that by simp
      show "st_inv \<lparr>st_tx = tx', st_links = links_of ?ses1, st_world = w, st_free = tn_tx_free s - {bid} \<union> tx_given_back ?v w,
          st_packets = tn_packets s @ [bs], st_sent = tn_sent s\<rparr>"
        using r that by (simp add: tx_view_def tx_fill_def)
    qed auto
    then show ?thesis
      by (simp add: s1_def ses)
  qed
  with r show ?thesis
    by (auto simp: outside_cause_def)
qed

lemma packet_starved_inv:
  assumes inv: "tunnel_inv P s" and cpu: "wf_cpu (processor P)"
    and d: "dispatch P (tn_session s) (mk_cqe READ (- of_int ENOBUFS) None False) (after_wait (tn_world s)) = Some (rv, ses, w)"
  shows "(\<forall>u. rv = Inr u \<longrightarrow> tunnel_inv P (settle s ses w)) \<and> (\<forall>e. rv = Inl e \<longrightarrow> outside_cause s e)"
proof -
  let ?v = "(tx_view s)\<lparr>st_world := after_wait (tn_world s)\<rparr>" and ?c = "mk_cqe READ (- of_int ENOBUFS) None False"
  have "tx_home (tn_session s)"
    using inv by (simp add: tunnel_inv_def)
  with d obtain tx' where h: "tx_handle_cqe P (tn_links s) ?c (tn_tx s) (after_wait (tn_world s)) = (rv, tx', w)"
      and ses: "ses = tn_session s\<lparr>ses_transmitter := tx'\<rparr>"
    by (auto elim!: dispatch_tx)
  have v: "st_inv ?v"
    by (rule awaited_views(2) [OF inv])
  have "tunnel_inv P (settle s ses w)" if "rv = Inr u" for u
  proof -
    have h': "tx_handle_cqe P (st_links ?v) ?c (st_tx ?v) (st_world ?v) = (Inr u, tx', w)"
      using h that by (simp add: tx_view_def)
    have "tunnel_inv P (settle (s\<lparr>tn_session := tn_session s, tn_tx_free := tn_tx_free s, tn_packets := tn_packets s,
        tn_sent := tn_sent s\<rparr>) (tn_session s\<lparr>ses_transmitter := tx'\<rparr>) w)"
      by (rule tx_settle [OF inv]) (use h that tx_no_buffers_inv [OF v cpu h'] in \<open>simp_all add: tx_view_def\<close>)
    then show ?thesis
      by (simp add: ses)
  qed
  moreover have "outside_cause s e" if "rv = Inl e" for e
  proof -
    have idle: "tx_idle (tn_links s) (tn_tx s)"
      using inv by (simp add: tunnel_inv_def st_inv_def tx_view_def)
    then have h': "handle_read_cqe P (tn_links s) ?c (tn_tx s) (after_wait (tn_world s)) = (rv, tx', w)"
      using h by (simp add: tx_handle_cqe_def tx_idle_def tx_inv_def)
    have "cqe_type ?c = READ" "sint (cqe_result ?c) < 0" "sint (cqe_error ?c) = ENOBUFS" "\<not> cqe_more ?c"
      by (simp_all add: cqe_error_def sint_enobufs ENOBUFS_def)
    from tx_enobufs_inv [OF idle cpu this h'] that show ?thesis
      by (simp add: outside_cause_def)
  qed
  ultimately show ?thesis by blast
qed

lemma bytes_sent_inv:
  assumes inv: "tunnel_inv P s" and cpu: "wf_cpu (processor P)"
    and n: "tx_send_in_progress (tn_tx s)" "0 < n" "n \<le> length (in_flight (tn_links s) (tn_tx s))" "sint r = int n"
  defines "s1 \<equiv> s\<lparr>tn_sent := tn_sent s @ take n (in_flight (tn_links s) (tn_tx s))\<rparr>"
  assumes d: "dispatch P (tn_session s) (mk_cqe SEND r None m) (after_wait (tn_world s)) = Some (rv, ses, w)"
  shows "(\<forall>u. rv = Inr u \<longrightarrow> tunnel_inv P (settle s1 ses w)) \<and> (\<forall>e. rv = Inl e \<longrightarrow> outside_cause s1 e)"
proof -
  let ?v = "(tx_view s)\<lparr>st_world := after_wait (tn_world s)\<rparr>" and ?c = "mk_cqe SEND r None m"
  have "tx_home (tn_session s)"
    using inv by (simp add: tunnel_inv_def)
  with d obtain tx' where h: "tx_handle_cqe P (tn_links s) ?c (tn_tx s) (after_wait (tn_world s)) = (rv, tx', w)"
      and ses: "ses = tn_session s\<lparr>ses_transmitter := tx'\<rparr>"
    by (auto elim!: dispatch_tx)
  have hv: "tx_handle_cqe P (st_links ?v) ?c (st_tx ?v) (st_world ?v) = (rv, tx', w)"
    using h by (simp add: tx_view_def)
  have nv: "tx_send_in_progress (st_tx ?v)" "n \<le> length (in_flight (st_links ?v) (st_tx ?v))"
    using n by (simp_all add: tx_view_def)
  note wr = sent_inv [OF awaited_views(2) [OF inv] cpu nv(1) n(2) nv(2) n(4) hv]
  have "tunnel_inv P (settle s1 ses w)" if "rv = Inr u" for u
  proof -
    have "tunnel_inv P (settle (s\<lparr>tn_session := tn_session s, tn_tx_free := tn_tx_free s, tn_packets := tn_packets s,
        tn_sent := tn_sent s @ take n (in_flight (tn_links s) (tn_tx s))\<rparr>) (tn_session s\<lparr>ses_transmitter := tx'\<rparr>) w)"
      by (rule tx_settle [OF inv]) (use h that wr in \<open>simp_all add: tx_view_def\<close>)
    then show ?thesis
      by (simp add: ses s1_def)
  qed
  with wr show ?thesis
    by (auto simp: outside_cause_def)
qed

text \<open>Events that reach neither path.\<close>

lemma quiet_settle:
  assumes inv: "tunnel_inv P s" and q: "quiet (after_wait (tn_world s)) w"
  shows "tunnel_inv P (settle s (tn_session s) w)"
proof -
  have q': "quiet (tn_world s) w"
    by (rule quiet_trans [OF after_wait_quiet q])
  then have "calls_since (tn_world s) w = calls_since (tn_world s) w \<and> returned_bids g (calls_since (tn_world s) w) = []" for g
    by (auto simp: quiet_def calls_since_def)
  then have s': "settle s (tn_session s) w = s\<lparr>tn_world := w\<rparr>"
    by (simp add: settle_def)
  have i: "sys_inv P (rx_view s)" "st_inv (tx_view s)"
    using inv by (simp_all add: tunnel_inv_def)
  then have "cache_ready P w"
    using quiet_cache_ready [OF q'] by (simp add: sys_inv_def rx_view_def)
  then have "sys_inv P (rx_view (s\<lparr>tn_world := w\<rparr>))"
    using i(1) by (intro sys_inv_cong [OF i(1)]) (simp_all add: rx_view_def sys_inv_def)
  moreover have "st_inv (tx_view (s\<lparr>tn_world := w\<rparr>))"
    using i(2) by (intro st_inv_cong [OF i(2)]) (simp_all add: tx_view_def st_inv_def)
  ultimately show ?thesis
    using inv by (simp add: s' tunnel_inv_def)
qed

lemma timer_inv:
  assumes inv: "tunnel_inv P s" and cfg: "ses_cfg (tn_session s) = Some cfg" "monitor_mode cfg"
    and d: "dispatch P (tn_session s) (mk_cqe TIMEOUT r None m) (after_wait (tn_world s)) = Some (rv, ses, w)"
  shows "(\<forall>u. rv = Inr u \<longrightarrow> tunnel_inv P (settle s ses w)) \<and> (\<forall>e. rv = Inl e \<longrightarrow> outside_cause s e)"
proof -
  let ?c = "mk_cqe TIMEOUT r None m"
  have h: "monitor_handle_cqe P (device_at (tn_session s)) (ses_ring (tn_session s)) ?c (after_wait (tn_world s)) = Some (rv, w)"
      "ses = tn_session s"
    using d cfg by (simp_all add: dispatch_def Let_def split: option.splits prod.splits)
  have "stats_failure e \<or> ring_failure e" if "rv = Inl e" for e
  proof -
    have p: "stats_failure e'" if "monitor_print P D v = Some (Inl e', v')" for D v e' v'
      using that by (auto simp: monitor_print_def split: option.splits prod.splits sum.splits dest: get_stats_error)
    show ?thesis
      using h(1) that arm_timeout_quiet [of P "ses_ring (tn_session s)" 1000 _ rv w]
      by (auto simp: monitor_handle_cqe_def split: if_splits option.splits prod.splits sum.splits dest: p)
  qed
  then show ?thesis
    using quiet_settle [OF inv monitor_handle_quiet [OF h(1)]] h(2) by (auto simp: outside_cause_def)
qed

lemma event_inv:
  assumes inv: "tunnel_inv P s" and cpu: "wf_cpu (processor P)" and ev: "kernel_event s c s1"
    and d: "dispatch P (tn_session s1) c (after_wait (tn_world s1)) = Some (rv, ses, w)"
  shows "(\<forall>u. rv = Inr u \<longrightarrow> tunnel_inv P (settle s1 ses w)) \<and> (\<forall>e. rv = Inl e \<longrightarrow> outside_cause s1 e)"
  using ev
proof (cases rule: kernel_event.cases)
  case (Stream_data bid bs m)
  then show ?thesis using stream_data_inv [OF inv cpu, of bid bs m rv ses w] d by simp
next
  case Stream_starved
  then show ?thesis using stream_starved_inv [OF inv, of rv ses w] d by simp
next
  case (Packet_written f fs r m)
  then show ?thesis using packet_written_inv [OF inv, of f fs r m rv ses w] d by simp
next
  case (Packet_read bid bs m)
  then show ?thesis using packet_read_inv [OF inv cpu, of bid bs m rv ses w] d by simp
next
  case Packet_starved
  then show ?thesis using packet_starved_inv [OF inv cpu, of rv ses w] d by simp
next
  case (Bytes_sent n r m)
  then show ?thesis using bytes_sent_inv [OF inv cpu, of n r m rv ses w] d by simp
next
  case (Timer cfg r m)
  then show ?thesis using timer_inv [OF inv, of cfg r m rv ses w] d by simp
next
  case (Nothing r m)
  then show ?thesis using quiet_settle [OF inv quiet_refl] d by (auto simp: dispatch_def)
qed

section \<open>The start\<close>

lemma provide_buffers_others:
  assumes "provide_buffers g bids w = (x, w')" and "g' \<noteq> bg_bgid g"
  shows "\<exists>cs. trace w' = trace w @ cs \<and> returned_bids g' cs = []"
  using assms(1)
proof (induction bids arbitrary: w)
  case (Cons bid bids)
  then show ?case
    using assms(2) by (fastforce split: sum.splits)
qed simp

lemma create_buffer_group_others:
  assumes "create_buffer_group P len sz r w = (Inr i, r', w')" and "g' \<noteq> next_bgid r"
  shows "\<exists>cs. trace w' = trace w @ cs \<and> returned_bids g' cs = []"
proof -
  let ?w1 = "log_call Alloc w"
  let ?w2 = "log_call Alloc ?w1"
  let ?g0 = "\<lparr>bg_ring = ring_addr r, bg_br = indeterminate P (trace ?w1), bg_mask = 0,
    bg_data = replicate (unat len * unat sz) 0, bg_data_addr = data_address P (trace ?w2),
    bg_size = unat len * unat sz, bg_bgid = next_bgid r, bg_buffer_count = len, bg_buffer_size = sz\<rparr>"
  obtain rv g1 w3 where s: "setup_ring P ?g0 ?w2 = ((rv, g1), w3)"
    by (metis prod.exhaust_sel)
  let ?w4 = "log_call (Buf_ring_mask (unat len)) w3"
  let ?g2 = "g1\<lparr>bg_mask := sys P (trace w3 @ [Buf_ring_mask (unat len)])\<rparr>"
  obtain rv2 w5 where p: "provide_buffers ?g2 (bids_upto len) ?w4 = (rv2, w5)"
    by fastforce
  have w': "w' = log_call (Buf_ring_advance (bg_bgid ?g2) (unat len)) w5"
    using assms(1) s p
    by (cases rv; cases rv2)
      (simp_all add: create_buffer_group_def alloc_def call_def Let_def raw_group_def split: if_splits)
  have "bg_bgid g1 = next_bgid r"
    using setup_ring_cases [OF s] by (cases g1) auto
  then obtain cs5 where cs5: "trace w5 = trace ?w4 @ cs5" "returned_bids g' cs5 = []"
    using provide_buffers_others [OF p, of g'] assms(2) by auto
  obtain cs3 where cs3: "trace w3 = trace ?w2 @ cs3" "returned_bids g' cs3 = []"
    using setup_ring_cases [OF s, of g'] by blast
  show ?thesis
    using cs3 cs5
    by (intro exI [of _ "[Alloc, Alloc] @ cs3 @ [Buf_ring_mask (unat len)] @ cs5 @ [Buf_ring_advance (bg_bgid ?g2) (unat len)]"])
      (simp add: w')
qed

text \<open>What \<open>create_session\<close> makes.\<close>

lemma idle_objects:
  "tun_destroy (tun_default m) w = w" "socket_destroy socket_default w = w" "ring_close P (new_ring a) w = (new_ring a, w)"
  "socket_move_assign socket_default k w = (k, socket_default, w)" "tun_move_assign (tun_default m) t w = (t, tun_default 0, w)"
  by (simp_all add: tun_destroy_eq socket_destroy_eq tun_default_def socket_default_def tun_is_valid_def socket_is_valid_def
      fd_is_valid_def fd_default_def invalid_fd_def ring_close_def new_ring_def ring_is_valid_def invalid_ring_fd_def
      socket_move_assign_eq tun_move_assign_eq sock_get_def fd_get_def)

lemma moved_nothing:
  "socket_move k = (k, socket_default)" "tun_move t = (t, tun_default 0)"
  "session_destroy P (s\<lparr>ses_ring := r, ses_tun := tun_default m, ses_socket := socket_default, ses_cfg := c, ses_receiver := x,
     ses_transmitter := y\<rparr>) w = snd (ring_close P r w)"
  by (cases k; cases "sock_fd k") (simp_all add: socket_move_def fd_move_def socket_default_def fd_default_def tun_move_eq
      session_destroy_def idle_objects [unfolded socket_default_def fd_default_def])

lemma create_session_Inr:
  assumes "create_session P here there mtu0 ring tun sock txlen rxlen rxsize cfg w = (Inr s, w1)"
  shows "\<exists>r1 r2 rx tx w2.
    create_receiver P (at_ring here) (at_tun here) (at_socket here) rxlen rxsize (fst (ring_move (at_ring here) ring)) w = (Inr rx, r1, w2) \<and>
    create_transmitter P (at_ring here) (at_tun here) (at_socket here) tun txlen r1 w2 = (Inr tx, r2, w1) \<and>
    s = relink \<lparr>ses_at = there, ses_ring = fst (ring_move (at_ring there) r2), ses_tun = tun, ses_socket = sock,
      ses_cfg = Some cfg, ses_receiver = rx, ses_transmitter = tx\<rparr>"
proof -
  let ?r0 = "fst (ring_move (at_ring here) ring)"
  obtain a r1 w2 where rx: "create_receiver P (at_ring here) (at_tun here) (at_socket here) rxlen rxsize ?r0 w = (a, r1, w2)"
    by (metis prod_cases3)
  obtain b r2 w3 where tx: "create_transmitter P (at_ring here) (at_tun here) (at_socket here) tun txlen r1 w2 = (b, r2, w3)"
    by (metis prod_cases3)
  have empty: "ring_close P (r\<lparr>ring_fd := invalid_ring_fd, buffer_groups := gs, next_bgid := n\<rparr>) v =
      (r\<lparr>ring_fd := invalid_ring_fd, buffer_groups := gs, next_bgid := n\<rparr>, v)" for r gs n v
    by (simp add: ring_close_def ring_is_valid_def invalid_ring_fd_def)
  have new: "ring_move_assign P (new_ring (at_ring here)) ring w = (ring_move (at_ring here) ring, w)"
    by (simp add: ring_move_assign_def idle_objects(3)) (simp add: new_ring_def)
  show ?thesis
    using assms rx tx
    by (cases a; cases b)
      (simp_all add: create_session_def session_default_def new idle_objects split_beta rx_move_assign_def rx_move_def
        tx_move_assign_def tx_move_def session_move_def moved_nothing session_destroy_def ring_move_def empty Let_def)
qed

lemma create_receiver_Inr:
  assumes "create_receiver P a b c len sz r w = (Inr rx, r', w')"
  shows "create_buffer_group P len sz r (log_call Alloc w) = (Inr (the (rx_bg rx)), r', w')"
    "rx = (new_receiver P)\<lparr>rx_ring := Some a, rx_tun := Some b, rx_socket := Some c, rx_refcounts := replicate (unat len) 0,
       rx_bg := Some (the (rx_bg rx))\<rparr>"
  using assms by (auto simp: create_receiver_def Let_def alloc_def call_def split: if_splits sum.splits prod.splits)

lemma create_transmitter_Inr:
  assumes "create_transmitter P a b c t len r w = (Inr tx, r', w')"
  shows "create_buffer_group P len (get_mtu t) r w = (Inr (the (tx_bg tx)), r', w')"
    "tx = new_transmitter\<lparr>tx_ring := Some a, tx_tun := Some b, tx_sock := Some c, tx_bg := Some (the (tx_bg tx))\<rparr>"
  using assms by (auto simp: create_transmitter_def Let_def split: sum.splits prod.splits)

text \<open>A new path over its new group, wherever its pointers lead.\<close>

lemma new_rx_idle:
  assumes "made_group P r len sz (rx_group L rx)" and "linked L rx"
    and "rx = (new_receiver P)\<lparr>rx_ring := Some a, rx_tun := Some b, rx_socket := Some c, rx_refcounts := replicate (unat len) 0,
       rx_bg := Some i\<rparr>"
  shows "rx_idle L rx" "undecoded L rx = []" "payloads L rx = []" "held rx = {}"
proof -
  have g: "wf_group (rx_group L rx)" "bg_buffer_count (rx_group L rx) = len"
    using assms(1) by (simp_all add: made_group_def)
  show held: "held rx = {}"
    by (simp add: held_def queued_def frame_bids_def assms(3) new_receiver_def)
  have refs: "refs rx = (\<lambda>b. 0)"
    by (simp add: refs_def frame_bids_def fun_eq_iff assms(3) new_receiver_def)
  have "stream_ok L rx"
    using g(1) by (simp add: stream_ok_def state_ok_def, simp add: assms(3) new_receiver_def rx_is_valid_def wf_new_header wire_size_def)
  moreover have "refs_ok L rx"
    unfolding refs_ok_def held refs g(2)
    by (simp add: assms(3) new_receiver_def queued_def word_less_nat_alt)
  ultimately show "rx_idle L rx"
    by (simp add: rx_idle_def rx_inv_def, simp add: assms(3) new_receiver_def)
  show "undecoded L rx = []" "payloads L rx = []"
    by (simp_all add: undecoded_def buffered_def pending_def payloads_def assms(3) new_receiver_def)
qed

lemma new_tx_idle:
  assumes "made_group P r len sz (tx_group L tx)" and "tx_linked L tx"
    and "tx = new_transmitter\<lparr>tx_ring := Some a, tx_tun := Some b, tx_sock := Some c, tx_bg := Some i\<rparr>"
  shows "tx_idle L tx" "unsent L tx = []" "owned tx = {}"
proof -
  have "wf_group (tx_group L tx)"
    using assms(1) by (simp add: made_group_def)
  then show "tx_idle L tx"
    by (simp add: tx_idle_def tx_inv_def) (simp add: assms(3) new_transmitter_def tx_is_valid_def)
  show "unsent L tx = []" "owned tx = {}"
    by (simp_all add: unsent_def owned_def assms(3) new_transmitter_def)
qed

lemma tunnel_start_inv:
  assumes "tunnel_start P s"
  shows "tunnel_inv P s"
proof -
  obtain here there mtu0 ring tun sock txlen rxlen rxsize cfg w w1 w4 where c:
      "create_session P here there mtu0 ring tun sock txlen rxlen rxsize cfg w = (Inr (tn_session s), w1)"
    and arm: "session_arm P (tn_session s) w1 = (Inr (), w4)" and later: "quiet w4 (tn_world s)"
    and free: "tn_rx_free s = set (returned_bids (rx_bgid (tn_session s)) (calls_since w w1))"
      "tn_tx_free s = set (returned_bids (tx_bgid (tn_session s)) (calls_since w w1))"
    and none: "tn_received s = []" "tn_written s = []" "tn_packets s = []" "tn_sent s = []"
    using assms unfolding tunnel_start_def by blast
  let ?ses = "tn_session s" and ?r0 = "fst (ring_move (at_ring here) ring)"
  obtain r1 r2 rx tx w2 where
      rx: "create_receiver P (at_ring here) (at_tun here) (at_socket here) rxlen rxsize ?r0 w = (Inr rx, r1, w2)"
    and tx: "create_transmitter P (at_ring here) (at_tun here) (at_socket here) tun txlen r1 w2 = (Inr tx, r2, w1)"
    and ses: "?ses = relink \<lparr>ses_at = there, ses_ring = fst (ring_move (at_ring there) r2), ses_tun = tun, ses_socket = sock,
      ses_cfg = Some cfg, ses_receiver = rx, ses_transmitter = tx\<rparr>"
    using create_session_Inr [OF c] by blast
  note rxg = create_receiver_Inr [OF rx] and txg = create_transmitter_Inr [OF tx]
  obtain g1 cs1 where g1: "made_group P ?r0 rxlen rxsize g1" "the (rx_bg rx) = length (buffer_groups ?r0)"
      "r1 = ?r0\<lparr>next_bgid := next_bgid ?r0 + 1, buffer_groups := buffer_groups ?r0 @ [g1]\<rparr>"
      "trace w2 = trace (log_call Alloc w) @ cs1" "returned_bids (bg_bgid g1) cs1 = bids_upto rxlen"
    using create_buffer_group_Inr [OF rxg(1)] by blast
  obtain g2 cs2 where g2: "made_group P r1 txlen (get_mtu tun) g2" "the (tx_bg tx) = length (buffer_groups r1)"
      "r2 = r1\<lparr>next_bgid := next_bgid r1 + 1, buffer_groups := buffer_groups r1 @ [g2]\<rparr>"
      "trace w1 = trace w2 @ cs2" "returned_bids (bg_bgid g2) cs2 = bids_upto txlen"
    using create_buffer_group_Inr [OF txg(1)] by blast
  have ids: "bg_bgid g1 = next_bgid ?r0" "bg_bgid g2 = next_bgid ?r0 + 1" "bg_bgid g1 \<noteq> bg_bgid g2"
    using g1(1,3) g2(1) by (simp_all add: made_group_def)
  have o1: "returned_bids (bg_bgid g2) cs1 = []"
    using create_buffer_group_others [OF rxg(1), of "bg_bgid g2"] ids g1(4) by auto
  have o2: "returned_bids (bg_bgid g1) cs2 = []"
    using create_buffer_group_others [OF txg(1), of "bg_bgid g1"] ids g1(3) g2(4) by auto
  have groups: "buffer_groups (lk_ring (links_of ?ses)) = buffer_groups ring @ [g1, g2]"
    by (simp add: ses relink_def Let_def links_of_def g2(3) g1(3) ring_move_def)
  have at: "tn_rx s = rx\<lparr>rx_ring := Some (at_ring there), rx_tun := Some (at_tun there), rx_socket := Some (at_socket there)\<rparr>"
      "tn_tx s = tx\<lparr>tx_ring := Some (at_ring there), tx_tun := Some (at_tun there), tx_sock := Some (at_socket there)\<rparr>"
      "ses_at ?ses = there" "lk_tun (links_of ?ses) = tun"
    by (simp_all add: ses relink_def Let_def links_of_def)
  have bg: "the (rx_bg (tn_rx s)) = length (buffer_groups ring)" "the (tx_bg (tn_tx s)) = Suc (length (buffer_groups ring))"
    using g1(2,3) g2(2) by (simp_all add: at ring_move_def)
  have rg: "rx_group (tn_links s) (tn_rx s) = g1" "tx_group (tn_links s) (tn_tx s) = g2"
    using bg by (simp_all add: rx_group_def tx_group_def group_at_def groups nth_append)
  have linked: "linked (tn_links s) (tn_rx s)" "tx_linked (tn_links s) (tn_tx s)"
    by (simp_all add: linked_def tx_linked_def bg groups)
  have "made_group P ?r0 rxlen rxsize (rx_group (tn_links s) (tn_rx s))" "made_group P r1 txlen (get_mtu tun) (tx_group (tn_links s) (tn_tx s))"
    using g1(1) g2(1) rg by simp_all
  note rx0 = new_rx_idle [OF this(1) linked(1)]
    and tx0 = new_tx_idle [OF this(2) linked(2)]
  have forms: "tn_rx s = (new_receiver P)\<lparr>rx_ring := Some (at_ring there), rx_tun := Some (at_tun there), rx_socket := Some (at_socket there),
        rx_refcounts := replicate (unat rxlen) 0, rx_bg := Some (the (rx_bg rx))\<rparr>"
      "tn_tx s = new_transmitter\<lparr>tx_ring := Some (at_ring there), tx_tun := Some (at_tun there), tx_sock := Some (at_socket there),
        tx_bg := Some (the (tx_bg tx))\<rparr>"
    using rxg(2) txg(2) unfolding at by (cases rx; cases tx; simp add: new_receiver_def new_transmitter_def)+
  note rx1 = rx0 [OF forms(1)] and tx1 = tx0 [OF forms(2)]
  have rid: "rx_bgid ?ses = bg_bgid g1" "tx_bgid ?ses = bg_bgid g2"
    using rg by (simp_all add: rx_bgid_def tx_bgid_def get_bgid_def)
  have "calls_since w w1 = [Alloc] @ cs1 @ cs2"
    using g1(4) g2(4) by (simp add: calls_since_def)
  then have free': "tn_rx_free s = {b. b < rxlen}" "tn_tx_free s = {b. b < txlen}"
    using free g1(5) g2(5) o1 o2 by (simp_all add: rid set_bids_upto)
  have home: "rx_home ?ses" "tx_home ?ses"
    using at rxg(2) txg(2) by (simp_all add: rx_home_def tx_home_def home_def Let_def)
  obtain w3 where arm1: "arm_recv P (tn_links s) (tn_rx s) w1 = (Inr (), w3)" and arm2: "arm_read P (tn_links s) (tn_tx s) w3 = (Inr (), w4)"
    using arm home by (auto simp: session_arm_def split: sum.splits prod.splits)
  have "apart P {} w3 w4"
    by (rule apart.arm_read_keeps [OF arm2 apart.keeps_same])
  then have "cache_ready P w4"
    using arm_recv_caches [OF arm1] by (simp add: apart_def)
  then have ready: "cache_ready P (tn_world s)"
    using quiet_cache_ready [OF later, of P] by simp
  have counts: "bg_buffer_count g1 = rxlen" "bg_buffer_count g2 = txlen"
    using g1(1) g2(1) by (simp_all add: made_group_def)
  have "sys_inv P (rx_view s)"
    using rx1 ready free'(1) none linked(1) counts(1) rg(1)
    by (simp add: sys_inv_def rx_view_def sy_group_def decode_short wire_size_def)
  moreover have "st_inv (tx_view s)"
    using tx1 free'(2) none linked(2) counts(2) rg(2)
    by (simp add: st_inv_def tx_view_def st_group_def encode_stream_def)
  ultimately show ?thesis
    using home bg rid ids(3) by (simp add: tunnel_inv_def)
qed

lemma tunnel_reachable_inv:
  assumes "tunnel_reachable P s" and "wf_cpu (processor P)"
  shows "tunnel_inv P s"
  using assms
proof (induction rule: tunnel_reachable.induct)
  case (Start s)
  then show ?case by (simp add: tunnel_start_inv)
next
  case (Step s s')
  from Step.hyps(2) show ?case
  proof (cases rule: tunnel_step.cases)
    case (Handled c s1 u ses w)
    have "tn_world s1 = tn_world s"
      using Handled(2) by (cases rule: kernel_event.cases) auto
    then show ?thesis
      using event_inv [OF Step.IH [OF Step.prems] Step.prems Handled(2), of "Inr u" ses w] Handled by simp
  qed
qed

end
