(* ===== verification/Tunnel.thy ===== *)
theory Tunnel
  imports Session_System
begin

text \<open>
  What a running session guarantees, and what two of them at the ends of a connection do together;
  with an example of two sessions that exchange a packet.
\<close>

section \<open>An example\<close>

text \<open>A session with two buffers of 32 bytes for each path, from its creation to its first packet.\<close>

definition example_cfg :: config where
  "example_cfg = \<lparr>interface_name = ''tun0'', inner_address = empty_cidr, cfg_mtu = 32, bind_address = None,
     connect_address = Some (Host_pair \<lparr>hp_hostname = ''peer'', hp_port = 443\<rparr>), proxies = [], io_uring_entries = 32,
     monitor_mode = True\<rparr>"

definition example_made :: "session result \<times> world" where
  "example_made = create_session friendly \<lparr>at_ring = 10, at_tun = 11, at_socket = 12\<rparr> \<lparr>at_ring = 20, at_tun = 21, at_socket = 22\<rparr> 0
     example_ring small_tun (make_socket 8 AF_INET) 2 2 32 example_cfg initial_world"

definition example_session :: session where "example_session = projr (fst example_made)"

definition session_armed :: "unit result \<times> world" where
  "session_armed = session_arm friendly example_session (snd example_made)"

definition tunnel0 :: tunnel where
  "tunnel0 = \<lparr>tn_session = example_session, tn_world = snd session_armed, tn_rx_free = {0, 1}, tn_tx_free = {0, 1},
     tn_received = [], tn_written = [], tn_packets = [], tn_sent = []\<rparr>"

lemma example_made_eval:
  "(case example_made of (r, w) \<Rightarrow> (case r of Inl e \<Rightarrow> (False, Inl e, [], []) | Inr s \<Rightarrow> (True, fst (session_arm friendly s w),
     returned_bids (rx_bgid s) (calls_since initial_world w), returned_bids (tx_bgid s) (calls_since initial_world w)))) =
   (True, Inr (), [0, 1], [0, 1])"
  by code_simp

lemma tunnel0_reachable: "tunnel_reachable friendly tunnel0"
proof (rule tunnel_reachable.Start)
  obtain r w where m: "example_made = (r, w)" by fastforce
  obtain s where r: "r = Inr s"
    using example_made_eval by (cases r) (simp_all add: m)
  have e: "example_session = s" "fst session_armed = Inr ()" "returned_bids (rx_bgid s) (calls_since initial_world w) = [0, 1]"
      "returned_bids (tx_bgid s) (calls_since initial_world w) = [0, 1]"
    using example_made_eval by (simp_all add: example_session_def session_armed_def m r)
  have "session_arm friendly s w = (Inr (), snd session_armed)"
    using e(1,2) by (metis m prod.collapse session_armed_def snd_conv)
  with m r e quiet_refl [of "snd session_armed"] show "tunnel_start friendly tunnel0"
    unfolding tunnel_start_def tunnel0_def example_made_def tunnel.simps by (metis insert_is_Un list.simps(15) empty_set)
qed

text \<open>The device hands a packet of one byte to the session.\<close>

definition packet_read :: "(unit result \<times> session \<times> world) option" where
  "packet_read = dispatch friendly (session_fill 1 0 [7] example_session) (mk_cqe READ 1 (Some 0) True) (after_wait (snd session_armed))"

definition tunnel1 :: tunnel where
  "tunnel1 = settle (tunnel0\<lparr>tn_session := session_fill 1 0 [7] example_session, tn_tx_free := tn_tx_free tunnel0 - {0},
       tn_packets := tn_packets tunnel0 @ [[7]]\<rparr>) (fst (snd (the packet_read))) (snd (snd (the packet_read)))"

lemma packet_read_eval:
  "(case packet_read of None \<Rightarrow> (Inl terminated, False, False, [], None) | Some (r, s, w) \<Rightarrow> (let tx = ses_transmitter s in
      (r, tx_send_in_progress tx, tx_cooling_down tx, tx_frame_queue tx, map_option cf_bytes_sent (tx_current tx)))) =
   (Inr (), True, False, [\<lparr>fr_bid = 0, fr_size = 1\<rparr>], Some 0)"
  by code_simp

lemma example_groups:
  "(rx_bg (ses_receiver example_session), tx_bg (ses_transmitter example_session),
    bg_buffer_size (rx_group (links_of example_session) (ses_receiver example_session)),
    bg_buffer_size (tx_group (links_of example_session) (ses_transmitter example_session))) = (Some 0, Some 1, 32, 32)"
  by code_simp

text \<open>And the other end receives it from the stream.\<close>

definition stream_bytes :: "u8 list" where "stream_bytes = encode_stream [[7]]"

definition bytes_received :: "(unit result \<times> session \<times> world) option" where
  "bytes_received = dispatch friendly (session_fill 0 0 stream_bytes example_session) (mk_cqe RECV (of_nat (length stream_bytes)) (Some 0) True)
     (after_wait (snd session_armed))"

definition tunnel3 :: tunnel where
  "tunnel3 = settle (tunnel0\<lparr>tn_session := session_fill 0 0 stream_bytes example_session, tn_rx_free := tn_rx_free tunnel0 - {0},
       tn_received := tn_received tunnel0 @ stream_bytes\<rparr>) (fst (snd (the bytes_received))) (snd (snd (the bytes_received)))"

lemma bytes_received_eval: "(case bytes_received of None \<Rightarrow> False | Some (r, s, w) \<Rightarrow> \<not> isl r) = True"
  by code_simp

lemma tunnel1_tx:
  "dispatch friendly (session_fill 1 0 [7] example_session) (mk_cqe READ 1 (Some 0) True) (after_wait (snd session_armed)) =
     Some (Inr (), tn_session tunnel1, tn_world tunnel1)"
  "tx_send_in_progress (tn_tx tunnel1)" "\<not> tx_cooling_down (tn_tx tunnel1)" "tx_frame_queue (tn_tx tunnel1) = [\<lparr>fr_bid = 0, fr_size = 1\<rparr>]"
  "map_option cf_bytes_sent (tx_current (tn_tx tunnel1)) = Some 0" "tn_packets tunnel1 = [[7]]" "tn_sent tunnel1 = []" "tn_received tunnel1 = []"
proof -
  obtain r s w where p: "packet_read = Some (r, s, w)"
    using packet_read_eval by (cases packet_read) auto
  have f: "r = Inr ()" "tx_send_in_progress (ses_transmitter s)" "\<not> tx_cooling_down (ses_transmitter s)"
      "tx_frame_queue (ses_transmitter s) = [\<lparr>fr_bid = 0, fr_size = 1\<rparr>]" "map_option cf_bytes_sent (tx_current (ses_transmitter s)) = Some 0"
    using packet_read_eval by (simp_all add: p Let_def)
  have t: "tn_session tunnel1 = s" "tn_world tunnel1 = w" "tn_packets tunnel1 = [[7]]" "tn_sent tunnel1 = []" "tn_received tunnel1 = []"
    by (simp_all add: tunnel1_def settle_def p tunnel0_def)
  show "dispatch friendly (session_fill 1 0 [7] example_session) (mk_cqe READ 1 (Some 0) True) (after_wait (snd session_armed)) =
     Some (Inr (), tn_session tunnel1, tn_world tunnel1)"
    using p unfolding packet_read_def t f .
  show "tx_send_in_progress (tn_tx tunnel1)" "\<not> tx_cooling_down (tn_tx tunnel1)" "tx_frame_queue (tn_tx tunnel1) = [\<lparr>fr_bid = 0, fr_size = 1\<rparr>]"
    "map_option cf_bytes_sent (tx_current (tn_tx tunnel1)) = Some 0" "tn_packets tunnel1 = [[7]]" "tn_sent tunnel1 = []" "tn_received tunnel1 = []"
    unfolding t by (rule f refl)+
qed

lemma tunnel1_reachable: "tunnel_reachable friendly tunnel1"
proof -
  let ?s1 = "tunnel0\<lparr>tn_session := session_fill 1 0 [7] example_session, tn_tx_free := tn_tx_free tunnel0 - {0},
       tn_packets := tn_packets tunnel0 @ [[7]]\<rparr>"
  have "kernel_event tunnel0 (mk_cqe READ (of_nat (length [7 :: u8])) (Some 0) True)
      (tunnel0\<lparr>tn_session := session_fill (the (tx_bg (tn_tx tunnel0))) 0 [7] (tn_session tunnel0),
         tn_tx_free := tn_tx_free tunnel0 - {0}, tn_packets := tn_packets tunnel0 @ [[7]]\<rparr>)"
    by (rule kernel_event.Packet_read) (use example_groups in \<open>simp_all add: tunnel0_def\<close>)
  then have ev: "kernel_event tunnel0 (mk_cqe READ 1 (Some 0) True) ?s1"
    using example_groups by (simp add: tunnel0_def)
  have d: "dispatch friendly (tn_session ?s1) (mk_cqe READ 1 (Some 0) True) (after_wait (tn_world ?s1)) =
      Some (Inr (), tn_session tunnel1, tn_world tunnel1)"
    using tunnel1_tx(1) by (simp add: tunnel0_def)
  have "tunnel1 = settle ?s1 (tn_session tunnel1) (tn_world tunnel1)"
    by (simp add: tunnel1_def settle_def)
  with tunnel_step.Handled [OF ev d] have "tunnel_step friendly tunnel0 tunnel1"
    by simp
  with tunnel0_reachable show ?thesis
    by (rule tunnel_reachable.Step)
qed

text \<open>The socket takes the whole frame at once.\<close>

lemma tunnel1_flight: "in_flight (tn_links tunnel1) (tn_tx tunnel1) = encode_stream [[7]]"
proof -
  have inv: "st_inv (tx_view tunnel1)"
    using tunnel_reachable_inv [OF tunnel1_reachable wf_friendly_cpu] by (simp add: tunnel_inv_def)
  then have idle: "tx_inv (tn_links tunnel1) (tn_tx tunnel1)" "flight_ok (tn_links tunnel1) (tn_tx tunnel1)"
    and sent: "unsent (tn_links tunnel1) (tn_tx tunnel1) = encode_stream [[7]]"
    using tunnel1_tx by (simp_all add: st_inv_def tx_idle_def tx_view_def)
  obtain st where st: "tx_current (tn_tx tunnel1) = Some st" "cf_bytes_sent st = 0"
    using tunnel1_tx(5) by auto
  show ?thesis
    using sent tunnel1_tx(4) by (simp add: unsent_def st flight_bytes [OF idle st(1)])
qed

lemma frame_sent:
  assumes "tx_inv L tx" and "tx_frame_queue tx = [f]" and "\<not> tx_cooling_down tx" and "tx_current tx = Some st"
    and "cf_bytes_sent st = 0" and "sint r = int (wire_size + unat (fr_size f))"
  shows "\<exists>tx' w'. tx_handle_cqe P L (mk_cqe SEND r None m) tx w = (Inr (), tx', w')"
proof -
  have f: "cf_frame st = f" "out_ok (tx_group L tx) f" "wf_group (tx_group L tx)" "tx_is_valid tx"
    using assms(1,2,4) by (auto simp: tx_inv_def)
  have n: "size_of_s32 r = wire_size + unat (fr_size f)"
    using assms(6) size_of_s32_int [of r] by simp
  have "\<exists>w'. return_buffer P (tx_group L tx) (fr_bid f) w = (Inr (), w')"
    using return_buffer_Inr [OF f(3), of "fr_bid f" P w] f(2) by (auto simp: out_ok_def)
  then show ?thesis
    using assms f(1,4) n
    by (auto simp: tx_handle_cqe_def handle_send_cqe_def Let_def cqe_ok_def book_sent_def tx_rearm_def kick_send_def wire_size_def)
qed

definition bytes_sent :: "(unit result \<times> session \<times> world) option" where
  "bytes_sent = dispatch friendly (tn_session tunnel1) (mk_cqe SEND 17 None False) (after_wait (tn_world tunnel1))"

definition tunnel2 :: tunnel where
  "tunnel2 = settle (tunnel1\<lparr>tn_sent := tn_sent tunnel1 @ take 17 (in_flight (tn_links tunnel1) (tn_tx tunnel1))\<rparr>)
     (fst (snd (the bytes_sent))) (snd (snd (the bytes_sent)))"

lemma tunnel2_reachable: "tunnel_reachable friendly tunnel2"
proof -
  let ?s1 = "tunnel1\<lparr>tn_sent := tn_sent tunnel1 @ take 17 (in_flight (tn_links tunnel1) (tn_tx tunnel1))\<rparr>"
  have inv: "tx_inv (tn_links tunnel1) (tn_tx tunnel1)" "tx_home (tn_session tunnel1)"
    using tunnel_reachable_inv [OF tunnel1_reachable wf_friendly_cpu] by (simp_all add: tunnel_inv_def st_inv_def tx_idle_def tx_view_def)
  obtain st where st: "tx_current (tn_tx tunnel1) = Some st" "cf_bytes_sent st = 0"
    using tunnel1_tx(5) by auto
  obtain tx' w' where "tx_handle_cqe friendly (tn_links tunnel1) (mk_cqe SEND 17 None False) (tn_tx tunnel1) (after_wait (tn_world tunnel1)) = (Inr (), tx', w')"
    using frame_sent [OF inv(1) tunnel1_tx(4,3) st, of 17 friendly False "after_wait (tn_world tunnel1)"] by (auto simp: wire_size_def)
  then have "bytes_sent = Some (Inr (), tn_session tunnel1\<lparr>ses_transmitter := tx'\<rparr>, w')"
    using inv(2) by (simp add: bytes_sent_def dispatch_def Let_def)
  then have d: "dispatch friendly (tn_session ?s1) (mk_cqe SEND 17 None False) (after_wait (tn_world ?s1)) =
      Some (Inr (), fst (snd (the bytes_sent)), snd (snd (the bytes_sent)))"
    by (simp add: bytes_sent_def)
  have "length (in_flight (tn_links tunnel1) (tn_tx tunnel1)) = 17"
    by (simp add: tunnel1_flight encode_stream_def encode_frame_def wire_size_def)
  then have ev: "kernel_event tunnel1 (mk_cqe SEND 17 None False) ?s1"
    by (intro kernel_event.Bytes_sent [where n = 17]) (simp_all add: tunnel1_tx)
  show ?thesis
    unfolding tunnel2_def by (rule tunnel_reachable.Step [OF tunnel1_reachable tunnel_step.Handled [OF ev d]])
qed

lemma length_stream_bytes: "length stream_bytes = 17"
  by (simp add: stream_bytes_def encode_stream_def encode_frame_def wire_size_def)

lemma tunnel3_reachable: "tunnel_reachable friendly tunnel3"
proof -
  let ?s1 = "tunnel0\<lparr>tn_session := session_fill 0 0 stream_bytes example_session, tn_rx_free := tn_rx_free tunnel0 - {0},
       tn_received := tn_received tunnel0 @ stream_bytes\<rparr>" and ?c = "mk_cqe RECV (of_nat (length stream_bytes)) (Some 0) True"
  have "kernel_event tunnel0 ?c (tunnel0\<lparr>tn_session := session_fill (the (rx_bg (tn_rx tunnel0))) 0 stream_bytes (tn_session tunnel0),
         tn_rx_free := tn_rx_free tunnel0 - {0}, tn_received := tn_received tunnel0 @ stream_bytes\<rparr>)"
    by (rule kernel_event.Stream_data) (use example_groups length_stream_bytes in \<open>simp_all add: tunnel0_def\<close>)
  then have ev: "kernel_event tunnel0 ?c ?s1"
    using example_groups by (simp add: tunnel0_def)
  obtain r s w where b: "bytes_received = Some (r, s, w)"
    using bytes_received_eval by (cases bytes_received) auto
  have "r = Inr ()"
    using bytes_received_eval by (cases r) (simp_all add: b)
  with b have "bytes_received = Some (Inr (), s, w)"
    by simp
  then have d: "dispatch friendly (tn_session ?s1) ?c (after_wait (tn_world ?s1)) =
      Some (Inr (), fst (snd (the bytes_received)), snd (snd (the bytes_received)))"
    by (simp add: tunnel0_def bytes_received_def)
  show ?thesis
    unfolding tunnel3_def by (rule tunnel_reachable.Step [OF tunnel0_reachable tunnel_step.Handled [OF ev d]])
qed

text \<open>A header of zeros is no header.\<close>

definition zeros_received :: "(unit result \<times> session \<times> world) option" where
  "zeros_received = dispatch friendly (session_fill 0 0 (replicate 16 0) example_session) (mk_cqe RECV 16 (Some 0) True)
     (after_wait (snd session_armed))"

lemma zeros_received_eval:
  "(case zeros_received of None \<Rightarrow> Inr () | Some (r, s, w) \<Rightarrow> r) = Inl (Error InvalidMagic)"
  by code_simp

section \<open>Properties\<close>

text \<open>
  C2: a running session carries both directions at once and mixes nothing up. In every reachable
  state, whatever has been received, read, sent and written in whatever order, the packets written to
  the device and those that wait for it are the frames of the bytes received, the rest being the
  incomplete last frame; and the bytes sent and those left to send are the encoding of the packets read.
\<close>

theorem tunnel_carries_both_ways:
  assumes "tunnel_reachable P s" and "wf_cpu (processor P)"
  shows "decode_stream (get_mtu (ses_tun (tn_session s))) (tn_received s) =
      (tn_written s @ payloads (tn_links s) (tn_rx s), undecoded (tn_links s) (tn_rx s), None) \<and>
    tn_sent s @ unsent (tn_links s) (tn_tx s) = encode_stream (tn_packets s)"
  using tunnel_reachable_inv [OF assms]
  by (simp add: tunnel_inv_def sys_inv_def st_inv_def rx_view_def tx_view_def sy_mtu_def links_of_def)

theorem tunnel_carries_both_ways_witness:
  "tunnel_reachable friendly tunnel3 \<and> tn_written tunnel3 @ payloads (tn_links tunnel3) (tn_rx tunnel3) =
     fst (decode_stream (get_mtu (ses_tun (tn_session tunnel3))) stream_bytes)"
proof -
  have "tn_received tunnel3 = stream_bytes"
    by (simp add: tunnel3_def settle_def tunnel0_def)
  with tunnel_carries_both_ways [OF tunnel3_reachable wf_friendly_cpu] show ?thesis
    using tunnel3_reachable by simp
qed

text \<open>
  C9: the two paths share the ring but never a buffer. The groups of the paths are different and have
  different ids; each buffer of a group is owned either by the kernel or by its path, and no step of
  the one path returns a buffer of the other.
\<close>

theorem tunnel_buffers_apart:
  assumes "tunnel_reachable P s" and "wf_cpu (processor P)"
  shows "rx_bg (tn_rx s) \<noteq> tx_bg (tn_tx s) \<and> rx_bgid (tn_session s) \<noteq> tx_bgid (tn_session s) \<and>
    tn_rx_free s \<inter> held (tn_rx s) = {} \<and>
    tn_rx_free s \<union> held (tn_rx s) = {b. b < bg_buffer_count (rx_group (tn_links s) (tn_rx s))} \<and>
    tn_tx_free s \<inter> owned (tn_tx s) = {} \<and>
    tn_tx_free s \<union> owned (tn_tx s) = {b. b < bg_buffer_count (tx_group (tn_links s) (tn_tx s))}"
  using tunnel_reachable_inv [OF assms]
  by (auto simp: tunnel_inv_def sys_inv_def st_inv_def rx_view_def tx_view_def sy_group_def st_group_def)

theorem tunnel_buffers_apart_witness:
  "tn_tx_free tunnel1 \<inter> {0} = {} \<and> rx_bgid (tn_session tunnel1) \<noteq> tx_bgid (tn_session tunnel1)"
  using tunnel_buffers_apart [OF tunnel1_reachable wf_friendly_cpu] tunnel1_tx(4) by (simp add: owned_def)



text \<open>The bytes that have arrived at \<open>b\<close> are a part of those that \<open>a\<close> has sent.\<close>

definition delivers :: "tunnel \<Rightarrow> tunnel \<Rightarrow> bool" where
  "delivers a b \<longleftrightarrow> take (length (tn_received b)) (tn_sent a) = tn_received b"

definition tunnel_mtu :: "tunnel \<Rightarrow> u32" where
  "tunnel_mtu s = get_mtu (ses_tun (tn_session s))"

text \<open>The packets that have come out of a session, and those that are about to.\<close>

definition tunnel_output :: "tunnel \<Rightarrow> u8 list list" where
  "tunnel_output s = tn_written s @ payloads (tn_links s) (tn_rx s)"

lemma one_way:
  assumes "tunnel_inv P a" and "tunnel_inv Q b" and "delivers a b" and "\<forall>p \<in> set (tn_packets a). packet_ok (tunnel_mtu b) p"
  shows "(\<exists>later. tn_packets a = tunnel_output b @ later) \<and>
    (tn_received b = encode_stream (tn_packets a) \<longrightarrow> tunnel_output b = tn_packets a)"
proof -
  let ?n = "length (tn_received b)"
  have dec: "decode_stream (tunnel_mtu b) (tn_received b) = (tunnel_output b, undecoded (tn_links b) (tn_rx b), None)"
    using assms(2) by (simp add: tunnel_inv_def sys_inv_def rx_view_def sy_mtu_def tunnel_mtu_def tunnel_output_def links_of_def)
  have "tn_sent a @ unsent (tn_links a) (tn_tx a) = encode_stream (tn_packets a)"
    using assms(1) by (simp add: tunnel_inv_def st_inv_def tx_view_def)
  moreover have "tn_sent a = tn_received b @ drop ?n (tn_sent a)"
    using assms(3) append_take_drop_id [of ?n "tn_sent a"] by (simp add: delivers_def)
  ultimately have "tn_received b @ drop ?n (tn_sent a) @ unsent (tn_links a) (tn_tx a) = encode_stream (tn_packets a)"
    by (metis append_assoc)
  from decode_part(1) [OF assms(4) this dec] show ?thesis
    using decode_part(2) [OF assms(4) _ dec, of "[]"] by simp
qed

text \<open>
  C1: two sessions make a tunnel. Whatever the delays, the partial sends and the splits of the two
  streams, in both directions at once, what has come out at the one end are the first packets that
  went in at the other, unchanged and in order; and when all bytes have arrived, they are all of them.
\<close>

theorem tunnels_exchange:
  assumes "tunnel_reachable P a" and "wf_cpu (processor P)" and "tunnel_reachable Q b" and "wf_cpu (processor Q)"
    and "delivers a b" and "delivers b a"
    and "\<forall>p \<in> set (tn_packets a). packet_ok (tunnel_mtu b) p" and "\<forall>p \<in> set (tn_packets b). packet_ok (tunnel_mtu a) p"
  shows "(\<exists>later. tn_packets a = tunnel_output b @ later) \<and> (\<exists>later. tn_packets b = tunnel_output a @ later) \<and>
    (tn_received b = encode_stream (tn_packets a) \<longrightarrow> tunnel_output b = tn_packets a) \<and>
    (tn_received a = encode_stream (tn_packets b) \<longrightarrow> tunnel_output a = tn_packets b)"
  using one_way [OF _ _ assms(5,7)] one_way [OF _ _ assms(6,8)]
    tunnel_reachable_inv [OF assms(1,2)] tunnel_reachable_inv [OF assms(3,4)] by blast

theorem tunnels_exchange_witness:
  "tunnel_reachable friendly tunnel2 \<and> tunnel_reachable friendly tunnel3 \<and> tn_packets tunnel2 = [[7]] \<and> tunnel_output tunnel3 = [[7]]"
proof -
  have sent: "tn_packets tunnel2 = [[7]]" "tn_sent tunnel2 = encode_stream [[7]]" "tn_received tunnel2 = []"
    using tunnel1_tx(6-8) length_stream_bytes
    by (simp_all add: tunnel2_def settle_def tunnel1_flight stream_bytes_def)
  have rec: "tn_received tunnel3 = encode_stream [[7]]" "tn_packets tunnel3 = []"
    by (simp_all add: tunnel3_def settle_def tunnel0_def stream_bytes_def)
  have mtu: "get_mtu (ses_tun example_session) = 32"
    by code_simp
  obtain r s w where b: "bytes_received = Some (r, s, w)"
    using bytes_received_eval by (cases bytes_received) auto
  have home: "rx_home (session_fill 0 0 stream_bytes example_session)"
    using tunnel_homes [OF tunnel_reachable_inv [OF tunnel0_reachable wf_friendly_cpu]] by (simp add: tunnel0_def)
  obtain rx' where "s = session_fill 0 0 stream_bytes example_session\<lparr>ses_receiver := rx'\<rparr>"
    using b [unfolded bytes_received_def] by (rule dispatch_rx) (simp_all add: home)
  then have "ses_tun s = ses_tun example_session"
    by simp
  then have "tunnel_mtu tunnel3 = 32"
    using mtu by (simp add: tunnel_mtu_def tunnel3_def settle_def b)
  then have "\<forall>p \<in> set (tn_packets tunnel2). packet_ok (tunnel_mtu tunnel3) p" "\<forall>p \<in> set (tn_packets tunnel3). packet_ok (tunnel_mtu tunnel2) p"
      "delivers tunnel2 tunnel3" "delivers tunnel3 tunnel2"
    using sent rec by (simp_all add: packet_ok_def delivers_def)
  from tunnels_exchange [OF tunnel2_reachable wf_friendly_cpu tunnel3_reachable wf_friendly_cpu this(3,4,1,2)]
  show ?thesis
    using sent rec tunnel2_reachable tunnel3_reachable by simp
qed

text \<open>
  C40: the buffer groups of a session point to a ring that is gone. They keep the address of the ring
  inside the local object of \<open>create_session\<close>; the object is moved into the result and ends, and no
  move corrects the pointers, so the destructors of the groups pass a dangling pointer to liburing.
\<close>

theorem session_groups_dangle:
  assumes "create_session P here there mtu0 ring tun sock txlen rxlen rxsize cfg w = (Inr s, w1)"
    and "buffer_groups ring = []" and "at_ring here \<noteq> at_ring there"
  shows "length (buffer_groups (ses_ring s)) = 2 \<and>
    (\<forall>g \<in> set (buffer_groups (ses_ring s)). bg_ring g = at_ring here \<and> bg_ring g \<noteq> ring_addr (ses_ring s))"
proof -
  let ?r0 = "fst (ring_move (at_ring here) ring)"
  obtain r1 r2 rx tx w2 where
      rx: "create_receiver P (at_ring here) (at_tun here) (at_socket here) rxlen rxsize ?r0 w = (Inr rx, r1, w2)"
    and tx: "create_transmitter P (at_ring here) (at_tun here) (at_socket here) tun txlen r1 w2 = (Inr tx, r2, w1)"
    and ses: "s = relink \<lparr>ses_at = there, ses_ring = fst (ring_move (at_ring there) r2), ses_tun = tun, ses_socket = sock,
      ses_cfg = Some cfg, ses_receiver = rx, ses_transmitter = tx\<rparr>"
    using create_session_Inr [OF assms(1)] by blast
  obtain g1 where g1: "made_group P ?r0 rxlen rxsize g1"
      "r1 = ?r0\<lparr>next_bgid := next_bgid ?r0 + 1, buffer_groups := buffer_groups ?r0 @ [g1]\<rparr>"
    using create_buffer_group_Inr [OF create_receiver_Inr(1) [OF rx]] by blast
  obtain g2 where g2: "made_group P r1 txlen (get_mtu tun) g2"
      "r2 = r1\<lparr>next_bgid := next_bgid r1 + 1, buffer_groups := buffer_groups r1 @ [g2]\<rparr>"
    using create_buffer_group_Inr [OF create_transmitter_Inr(1) [OF tx]] by blast
  show ?thesis
    using g1 g2 assms(2,3) by (simp add: ses relink_def Let_def ring_move_def made_group_def)
qed

theorem session_groups_dangle_witness:
  "\<exists>g \<in> set (buffer_groups (ses_ring example_session)). bg_ring g = 10 \<and> bg_ring g \<noteq> ring_addr (ses_ring example_session)"
proof -
  obtain r w where m: "example_made = (r, w)" by fastforce
  obtain s where r: "r = Inr s"
    using example_made_eval by (cases r) (simp_all add: m)
  have "length (buffer_groups (ses_ring s)) = 2 \<and>
      (\<forall>g \<in> set (buffer_groups (ses_ring s)). bg_ring g = 10 \<and> bg_ring g \<noteq> ring_addr (ses_ring s))"
    by (rule session_groups_dangle [OF m [unfolded example_made_def r], unfolded place.simps]) (simp_all add: example_ring_def)
  moreover from this have "hd (buffer_groups (ses_ring s)) \<in> set (buffer_groups (ses_ring s))"
    by (intro hd_in_set) auto
  moreover have "example_session = s"
    by (simp add: example_session_def m r)
  ultimately show ?thesis
    by blast
qed

end
