(* ===== verification/Session_Run.thy ===== *)
theory Session_Run
  imports Tunnel
begin

text \<open>
  \<open>Session::run\<close> as a whole (\<open>src/session/session.cpp\<close>): the function with its loop stays inside the state
  machine of \<open>Session_System\<close> until something fails.
\<close>

section \<open>The kernel\<close>

text \<open>
  The platform as the kernel documents it: a completion that a wait returns is one that can occur in the state of the
  session, and what the kernel has written to the buffers is what it reports.
\<close>

definition kernel_ok :: "platform \<Rightarrow> bool" where
  "kernel_ok P \<longleftrightarrow> (\<forall>s c w. tunnel_reachable P s \<longrightarrow> wait P (ses_ring (tn_session s)) (tn_world s) = (Inr c, w) \<longrightarrow>
     (\<exists>s1. kernel_event s c s1 \<and> tn_session s1 = kernel_writes P c (tn_session s) w))"

lemma wait_Inr: "wait P r w = (Inr c, w') \<Longrightarrow> w' = after_wait w"
  by (auto simp: wait_def after_wait_def call_def Let_def split: if_splits)

lemma event_world: "kernel_event s c s1 \<Longrightarrow> tn_world s1 = tn_world s"
  by (cases rule: kernel_event.cases) auto

section \<open>The loop\<close>

text \<open>
  How a run ends: in a reachable state the wait fails, or the handler of a completion that can occur
  there fails. The session and the world are those of this moment.
\<close>

definition stopped :: "platform \<Rightarrow> error \<Rightarrow> session \<Rightarrow> world \<Rightarrow> bool" where
  "stopped P e s' w' \<longleftrightarrow>
     (\<exists>s. tunnel_reachable P s \<and> tn_session s = s' \<and> wait P (ses_ring s') (tn_world s) = (Inl e, w')) \<or>
     (\<exists>s c s1. tunnel_reachable P s \<and> kernel_event s c s1 \<and>
        dispatch P (tn_session s1) c (after_wait (tn_world s1)) = Some (Inl e, s', w'))"

lemma round_reachable:
  assumes "tunnel_reachable P s" and "kernel_ok P" and "wait P (ses_ring (tn_session s)) (tn_world s) = (Inr c, w)"
    and "dispatch P (kernel_writes P c (tn_session s) w) c w = Some (rv, ses, w')"
  shows "(\<forall>u. rv = Inr u \<longrightarrow> (\<exists>s'. tunnel_reachable P s' \<and> tn_session s' = ses \<and> tn_world s' = w')) \<and>
    (\<forall>e. rv = Inl e \<longrightarrow> stopped P e ses w')"
proof -
  obtain s1 where s1: "kernel_event s c s1" "tn_session s1 = kernel_writes P c (tn_session s) w"
    using assms(1-3) unfolding kernel_ok_def by blast
  have d: "dispatch P (tn_session s1) c (after_wait (tn_world s1)) = Some (rv, ses, w')"
    using assms(4) s1(2) event_world [OF s1(1)] wait_Inr [OF assms(3)] by simp
  have "\<exists>s'. tunnel_reachable P s' \<and> tn_session s' = ses \<and> tn_world s' = w'" if "rv = Inr u" for u
  proof (intro exI conjI)
    show "tunnel_reachable P (settle s1 ses w')"
      by (rule tunnel_reachable.Step [OF assms(1) tunnel_step.Handled [OF s1(1)]]) (use d that in simp)
  qed (simp_all add: settle_def)
  then show ?thesis
    using d assms(1) s1(1) unfolding stopped_def by blast
qed

lemma run_loop_stops:
  assumes "run_loop P (tn_session s) (tn_world s) = Some (r, s', w')" and "tunnel_reachable P s" and "kernel_ok P"
  shows "\<exists>e. r = Inl e \<and> stopped P e s' w'"
proof -
  have "\<forall>s. tn_session s = fst x \<and> tn_world s = snd x \<and> tunnel_reachable P s \<and> kernel_ok P \<longrightarrow>
      (\<exists>e. fst y = Inl e \<and> stopped P e (fst (snd y)) (snd (snd y)))" if "run_loop P (fst x) (snd x) = Some y" for x y
  proof (rule run_loop.raw_induct [where Pa = "\<lambda>((P, ses), w) y. \<forall>s. tn_session s = ses \<and> tn_world s = w \<and> tunnel_reachable P s \<and>
        kernel_ok P \<longrightarrow> (\<exists>e. fst y = Inl e \<and> stopped P e (fst (snd y)) (snd (snd y)))", unfolded prod.case, OF _ that])
    fix loop :: "platform \<Rightarrow> session \<Rightarrow> world \<Rightarrow> (unit result \<times> session \<times> world) option" and P ses w y
    assume IH: "\<And>P ses w y. loop P ses w = Some y \<Longrightarrow> \<forall>s. tn_session s = ses \<and> tn_world s = w \<and> tunnel_reachable P s \<and>
        kernel_ok P \<longrightarrow> (\<exists>e. fst y = Inl e \<and> stopped P e (fst (snd y)) (snd (snd y)))"
      and body: "(case wait P (ses_ring ses) w of (Inl e, w) \<Rightarrow> Some (Inl e, ses, w)
        | (Inr c, w) \<Rightarrow> (case dispatch P (kernel_writes P c ses w) c w of None \<Rightarrow> None
          | Some (Inl e, s, w) \<Rightarrow> Some (Inl e, s, w) | Some (Inr _, s, w) \<Rightarrow> loop P s w)) = Some y"
    show "\<forall>s. tn_session s = ses \<and> tn_world s = w \<and> tunnel_reachable P s \<and> kernel_ok P \<longrightarrow>
        (\<exists>e. fst y = Inl e \<and> stopped P e (fst (snd y)) (snd (snd y)))"
    proof (intro allI impI, elim conjE)
      fix s assume s: "tn_session s = ses" "tn_world s = w" and r: "tunnel_reachable P s" and k: "kernel_ok P"
      obtain x w1 where wt: "wait P (ses_ring ses) w = (x, w1)" by fastforce
      show "\<exists>e. fst y = Inl e \<and> stopped P e (fst (snd y)) (snd (snd y))"
      proof (cases x)
        case (Inl e)
        then show ?thesis
          using body wt r s unfolding stopped_def by auto
      next
        case (Inr c)
        obtain rv s2 w2 where d: "dispatch P (kernel_writes P c ses w1) c w1 = Some (rv, s2, w2)"
          using body wt Inr by (cases "dispatch P (kernel_writes P c ses w1) c w1") auto
        note next_round = round_reachable [OF r k, of c w1 rv s2 w2, unfolded s, OF wt [unfolded Inr] d]
        show ?thesis
        proof (cases rv)
          case (Inl e)
          then show ?thesis
            using body wt Inr d next_round \<open>x = Inr c\<close> by auto
        next
          case (Inr u)
          then have "loop P s2 w2 = Some y"
            using body wt d \<open>x = Inr c\<close> by simp
          from IH [OF this] next_round Inr k show ?thesis by blast
        qed
      qed
    qed
  qed
  from this [of "(tn_session s, tn_world s)" "(r, s', w')"] assms show ?thesis
    by auto
qed

text \<open>Between arming and the loop the session prints the counters once and arms the timer.\<close>

lemma run_armed:
  assumes "run P s w1 = Some (r, s', w')" and "session_arm P s w1 = (Inr (), w2)" and "ses_cfg s = Some cfg"
  shows "(\<exists>e. r = Inl e \<and> s' = s \<and> (stats_failure e \<or> ring_failure e)) \<or>
    (\<exists>w3. quiet w2 w3 \<and> run_loop P s w3 = Some (r, s', w'))"
proof -
  let ?w = "set_tun_device (at_tun (ses_at s)) w2"
  have q: "quiet w2 ?w"
    by (simp add: quiet_def set_tun_device_def)
  obtain x w3 where p: "monitor_print P (device_at s) ?w = Some (x, w3)"
    using assms by (cases "monitor_print P (device_at s) ?w") (auto simp: run_def)
  have q3: "quiet w2 w3"
    by (rule quiet_trans [OF q monitor_print_quiet [OF p]])
  show ?thesis
  proof (cases x)
    case (Inl e)
    then have f: "stats_failure e"
      using p by (auto simp: monitor_print_def split: option.splits prod.splits sum.splits dest: get_stats_error)
    have "r = Inl e" "s' = s"
      using assms p Inl by (auto simp: run_def)
    with f show ?thesis by simp
  next
    case (Inr u)
    obtain y w4 where t: "arm_timeout P (ses_ring s) 1000 w3 = (y, w4)" by fastforce
    note a = arm_timeout_quiet [OF t]
    show ?thesis
      using assms p Inr t a q3 quiet_trans [OF q3 conjunct1 [OF a]]
      by (cases y) (auto simp: run_def split: if_splits)
  qed
qed


section \<open>An example\<close>

text \<open>
  A kernel that answers the request for the counters, and whose wait fails once something has been
  printed; until then every completion is empty. The answer is a message with counters in 32 bits, all zero.
\<close>

definition example_answer :: "u8 list" where
  "example_answer = [132, 0, 0, 0, 16, 0, 0, 0, 1, 0, 0, 0, 0, 0, 0, 0] @ [0, 0, 0, 0, 1, 0, 0, 0] @ replicate 8 0 @
     [100, 0, 7, 0] @ replicate 96 0"

definition is_printed :: "lib_call \<Rightarrow> bool" where
  "is_printed c = (case c of Write_stdout s \<Rightarrow> True | _ \<Rightarrow> False)"

definition brief_sys :: "lib_call list \<Rightarrow> int" where
  "brief_sys tr = (case last tr of
       Io_uring_wait_cqe \<Rightarrow> (if list_ex is_printed tr then - 5 else 0)
     | Sys_recv fd n fl \<Rightarrow> 132
     | _ \<Rightarrow> friendly_sys tr)"

definition brief :: platform where
  "brief = friendly\<lparr>sys := brief_sys, answer_bytes := \<lambda>_. example_answer\<rparr>"

lemma brief_fields [simp]:
  "sys brief = brief_sys" "byte_order brief = Little_endian" "answer_bytes brief tr = example_answer" "stale_bytes brief tr = []"
  "sizeof_stats64 brief = 200" "sizeof_stats32 brief = 96" "sys_cqe brief tr = \<lparr>user_data = 0, res = 0, flags = 0\<rparr>"
  by (simp_all add: brief_def friendly_def)

lemma brief_kernel_ok: "kernel_ok brief"
  unfolding kernel_ok_def
proof (intro allI impI)
  fix s :: tunnel and c w
  assume "wait brief (ses_ring (tn_session s)) (tn_world s) = (Inr c, w)"
  then have "c = cqe_of (sys_cqe brief (trace (tn_world s) @ [Io_uring_wait_cqe]))"
    by (auto simp: wait_def Let_def call_def split: if_splits)
  moreover have "cqe_of \<lparr>user_data = 0, res = 0, flags = 0\<rparr> = mk_cqe NONE 0 None False"
    by code_simp
  ultimately have c: "c = mk_cqe NONE 0 None False"
    by simp
  then have "kernel_event s c s"
    by (simp add: kernel_event.Nothing)
  moreover have "tn_session s = kernel_writes brief c (tn_session s) w"
    by (simp add: kernel_writes_def c Let_def)
  ultimately show "\<exists>s1. kernel_event s c s1 \<and> tn_session s1 = kernel_writes brief c (tn_session s) w"
    by blast
qed

definition brief_made :: "session result \<times> world" where
  "brief_made = create_session brief \<lparr>at_ring = 10, at_tun = 11, at_socket = 12\<rparr> \<lparr>at_ring = 20, at_tun = 21, at_socket = 22\<rparr> 0
     example_ring small_tun (make_socket 8 AF_INET) 2 2 32 example_cfg initial_world"

lemma brief_made_eval:
  "(case brief_made of (r, w) \<Rightarrow> (case r of Inl e \<Rightarrow> (Inl e, False, 0) | Inr s \<Rightarrow> (case session_arm brief s w of
      (x, w) \<Rightarrow> (x, ring_is_valid (ses_ring s), nl_seq w)))) = (Inr (), True, 1)"
  by code_simp

text \<open>The answer is understood, whatever was in the buffer before.\<close>

lemma slice_of_answer: "pos + n \<le> length xs \<Longrightarrow> slice_of pos n (xs @ rest) = slice_of pos n xs"
  by (simp add: slice_of_def)

lemma length_example_answer: "length example_answer = 132"
  by (simp add: example_answer_def)

lemma answer_fields:
  "nlmsg_len Little_endian (example_answer @ rest) 0 = 132" "nlmsg_seq Little_endian (example_answer @ rest) 0 = 1"
  "nlmsg_type Little_endian (example_answer @ rest) 0 = 16" "load32 Little_endian (slice_of 20 4 (example_answer @ rest)) = 1"
  "rta_len Little_endian (example_answer @ rest) 32 = 100" "rta_type Little_endian (example_answer @ rest) 32 = 7"
  unfolding nlmsg_len_def nlmsg_seq_def nlmsg_type_def rta_len_def rta_type_def
  by (subst slice_of_answer, simp add: length_example_answer, code_simp)+

lemma answer_walked:
  "\<exists>st. nl_walk Little_endian (example_answer @ rest) (stats_body brief (example_answer @ rest) 1 1) 0 132 = Reply (Inr st)"
proof -
  have "\<exists>st. rta_walk brief (example_answer @ rest) 32 100 = Reply (Inr st)"
    by (subst rta_walk.simps) (simp add: Let_def answer_fields length_example_answer IFLA_STATS64_def IFLA_STATS_def)
  then obtain st where st: "rta_walk brief (example_answer @ rest) 32 100 = Reply (Inr st)"
    by blast
  have "stats_body brief (example_answer @ rest) 1 1 0 = Some (Reply (Inr st))"
    using st by (simp add: stats_body_def Let_def answer_fields length_example_answer NLMSG_ERROR_def RTM_NEWLINK_def
        NLMSG_LENGTH_def NLMSG_HDRLEN_def sizeof_ifinfomsg_def)
  then show ?thesis
    by (subst nl_walk.simps) (simp add: Let_def answer_fields length_example_answer NLMSG_HDRLEN_def unsigned_of_def)
qed

lemma brief_stats:
  assumes "nl_seq w = 1" and "tun_index t = 1"
  shows "\<exists>st w'. get_stats brief t w = Some (Inr st, w')"
proof -
  have fill: "fill_rxbuf brief 132 v buf = example_answer @ drop 132 buf" if "length buf = 8192" for v buf
    using that by (simp add: fill_rxbuf_def store_at_def length_example_answer)
  have buf: "length (fresh_rxbuf brief v) = 8192" for v
    by (simp add: fresh_rxbuf_def rxbuf_size_def)
  have loop: "\<exists>st w'. nl_recv_loop brief fd (\<lambda>buf. stats_body brief buf 1 1) (fresh_rxbuf brief v) v = Some (Inr st, w')" for fd v
  proof -
    obtain st where "nl_walk Little_endian (example_answer @ drop 132 (fresh_rxbuf brief v))
        (stats_body brief (example_answer @ drop 132 (fresh_rxbuf brief v)) 1 1) 0 132 = Reply (Inr st)"
      using answer_walked by blast
    then show ?thesis
      by (subst nl_recv_loop.simps)
        (simp add: brief_sys_def fill buf Let_def is_unanswered_def is_endless_def walk_result_def)
  qed
  show ?thesis
    using assms loop by (simp add: get_stats_def next_seq_def nl_send_raw_def call_def brief_sys_def friendly_sys_def Let_def)
qed

text \<open>So the session reaches its loop, and the loop ends in its first wait.\<close>

lemma brief_wait: "ring_is_valid r \<Longrightarrow> list_ex is_printed (trace w) \<Longrightarrow>
    wait brief r w = (Inl (Error_no RingWaitFailed 5), log_call Io_uring_wait_cqe w)"
  by (simp add: wait_def call_def brief_sys_def)

lemma brief_run:
  assumes "session_arm brief s w = (Inr (), w2)" and "ring_is_valid (ses_ring s)" and "nl_seq w2 = 1" and "tun_index (ses_tun s) = 1"
    and "ses_cfg s = Some example_cfg"
  shows "\<exists>w'. run brief s w = Some (Inl (Error_no RingWaitFailed 5), s, w')"
proof -
  let ?w = "set_tun_device (at_tun (ses_at s)) w2"
  obtain st w3 where st: "get_stats brief (ses_tun s) ?w = Some (Inr st, w3)"
    using brief_stats [of ?w "ses_tun s"] assms(3,4) by (auto simp: set_tun_device_def)
  then have print: "monitor_print brief (device_at s) ?w = Some (Inr (), log_call (Write_stdout (totals_text st)) w3)"
    by (simp add: monitor_print_def set_tun_device_def device_at_def)
  have "\<exists>w4. arm_timeout brief (ses_ring s) 1000 v = (Inr (), w4) \<and> (list_ex is_printed (trace v) \<longrightarrow> list_ex is_printed (trace w4))" for v
    using assms(2) by (simp add: arm_timeout_def get_sqe_def submit_def call_def brief_sys_def friendly_sys_def Let_def)
  from this [of "log_call (Write_stdout (totals_text st)) w3"]
  obtain w4 where arm: "arm_timeout brief (ses_ring s) 1000 (log_call (Write_stdout (totals_text st)) w3) = (Inr (), w4)"
      and printed: "list_ex is_printed (trace w4)"
    by (auto simp: is_printed_def)
  have "run_loop brief s w4 = Some (Inl (Error_no RingWaitFailed 5), s, log_call Io_uring_wait_cqe w4)"
    by (subst run_loop.simps) (simp add: brief_wait [OF assms(2) printed])
  then show ?thesis
    using assms(1,5) print arm by (simp add: run_def example_cfg_def)
qed


end
