(* ===== verification/Main_Program.thy ===== *)
theory Main_Program
  imports Session Connection
begin

text \<open>
  The program (\<open>app/main.cpp\<close>): it reads the command line, makes the ring, the device and the
  connection, hands them to a session and runs it. Every return ends the objects that exist, the last
  one first. A result is the exit status; \<open>None\<close> means that the program never ends.
\<close>

section \<open>Messages\<close>

definition EXIT_SUCCESS :: int where "EXIT_SUCCESS = 0"
definition EXIT_FAILURE :: int where "EXIT_FAILURE = 1"

text \<open>What an exception says; the library adds the text of the error number to a system error.\<close>

definition what_text :: "(string \<Rightarrow> string) \<Rightarrow> cpp_exception \<Rightarrow> string" where
  "what_text with_errno x =
     (case x of Invalid_argument s \<Rightarrow> s | Logic_error s \<Rightarrow> s | Runtime_error s \<Rightarrow> s | Out_of_range s \<Rightarrow> s
      | System_error s \<Rightarrow> with_errno s)"

definition print_error :: "error \<Rightarrow> world \<Rightarrow> world" where
  "print_error e w = log_call (Write_stderr (error_to_string e @ newline)) w"

text \<open>
  A stream operator writes its left side before the right side is evaluated, so the word \<open>from\<close> has been
  written when the address cannot be printed.
\<close>

definition accepted_text :: "net_lib \<Rightarrow> (string \<Rightarrow> string) \<Rightarrow> sock_address \<Rightarrow> string" where
  "accepted_text N with_errno a =
     ''Accepted connection'' @
     (if is_valid a then
        '' from '' @ (case address_to_string N True (Sock_address a) of
           Inr s \<Rightarrow> s | Inl x \<Rightarrow> '' from <unprintable: '' @ what_text with_errno x @ ''>'')
      else []) @ newline"

section \<open>The connection\<close>

text \<open>
  Both modes fill the variable \<open>socket\<close> of the caller, or say that the program fails. The listener and
  the empty result of the accept end with the block.
\<close>

definition wait_for_peer :: "platform \<Rightarrow> (string \<Rightarrow> string) \<Rightarrow> address \<Rightarrow> socket \<Rightarrow> world \<Rightarrow> bool \<times> socket \<times> world" where
  "wait_for_peer P with_errno a sock w =
     (case create_listener P a w of
        (Inl e, w) \<Rightarrow> (False, sock, print_error e w)
      | (Inr listener, w) \<Rightarrow>
         (case accept_from P listener w of
            (Inl e, w) \<Rightarrow> (False, sock, socket_destroy listener (print_error e w))
          | (Inr peer, w) \<Rightarrow>
             (let (sock, peer, w) = socket_move_assign sock peer w
              in (case get_remote_address P sock w of
                    (Inl e, w) \<Rightarrow> (False, sock, socket_destroy listener (socket_destroy peer (print_error e w)))
                  | (Inr remote, w) \<Rightarrow>
                     (True, sock, socket_destroy listener (socket_destroy peer
                        (log_call (Write_stdout (accepted_text (net P) with_errno remote)) w)))))))"

text \<open>The address is printed outside of any handler.\<close>

definition reach_peer :: "platform \<Rightarrow> address \<Rightarrow> address list \<Rightarrow> socket \<Rightarrow> world \<Rightarrow> bool \<times> socket \<times> world" where
  "reach_peer P a hops sock w =
     (case connect_to P a hops w of
        (Inl e, w) \<Rightarrow> (False, sock, print_error e w)
      | (Inr peer, w) \<Rightarrow>
         (let (sock, peer, w) = socket_move_assign sock peer w
          in (case address_to_string (net P) True a of
                Inl _ \<Rightarrow> (case (terminate w :: unit result \<times> world) of (_, w) \<Rightarrow> (False, sock, w))
              | Inr s \<Rightarrow> (True, sock, socket_destroy peer (log_call (Write_stdout (''Connected to '' @ s @ newline)) w)))))"

definition make_connection :: "platform \<Rightarrow> (string \<Rightarrow> string) \<Rightarrow> config \<Rightarrow> socket \<Rightarrow> world \<Rightarrow> bool \<times> socket \<times> world" where
  "make_connection P with_errno cfg sock w =
     (case bind_address cfg of
        Some a \<Rightarrow> wait_for_peer P with_errno a sock w
      | None \<Rightarrow> (case connect_address cfg of
                   Some a \<Rightarrow> reach_peer P a (proxies cfg) sock w
                 | None \<Rightarrow> (True, sock, w)))"

section \<open>The main function\<close>

text \<open>
  Where the objects lie: the local ring, the local session of \<open>create_session\<close> and the one it returns;
  and what the memory of two devices held before their \<open>mtu_\<close> was set.
\<close>

record stack =
  at_local_ring :: addr
  at_made_session :: place
  at_session :: place
  old_mtu_tun :: u32
  old_mtu_session :: u32

text \<open>The objects of the function in the order in which it makes them, ended in the reverse order.\<close>

definition end_objects :: "platform \<Rightarrow> io_uring \<Rightarrow> tun_device \<Rightarrow> socket \<Rightarrow> world \<Rightarrow> world" where
  "end_objects P ring tun sock w = snd (ring_close P ring (tun_destroy tun (socket_destroy sock w)))"

text \<open>
  The second half: the session takes what the three objects hold and leaves them empty; it ends before
  they do.
\<close>

definition run_session :: "platform \<Rightarrow> stack \<Rightarrow> config \<Rightarrow> io_uring \<Rightarrow> tun_device \<Rightarrow> socket \<Rightarrow> world \<Rightarrow> (int \<times> world) option" where
  "run_session P m cfg ring tun sock w =
     (let old_ring = snd (ring_move (at_local_ring m) ring); old_tun = snd (tun_move tun); old_sock = snd (socket_move sock)
      in case create_session P (at_made_session m) (at_session m) (old_mtu_session m) ring tun sock 4096 4096 4096 cfg w of
           (Inl e, w) \<Rightarrow> Some (EXIT_FAILURE, end_objects P old_ring old_tun old_sock (print_error e w))
         | (Inr s, w) \<Rightarrow>
            (case run P s w of
               None \<Rightarrow> None
             | Some (Inl e, s, w) \<Rightarrow>
                Some (EXIT_FAILURE, end_objects P old_ring old_tun old_sock (session_destroy P s (print_error e w)))
             | Some (Inr _, s, w) \<Rightarrow>
                Some (EXIT_SUCCESS, end_objects P old_ring old_tun old_sock (session_destroy P s w))))"

definition main ::
    "platform \<Rightarrow> stack \<Rightarrow> build_info \<Rightarrow> (string \<Rightarrow> string) \<Rightarrow> string \<Rightarrow> string list \<Rightarrow> world \<Rightarrow> (int \<times> world) option" where
  "main P m B with_errno program_name args w =
     (case parse_cli_arguments (net P) B program_name args w of
        (Inl x, w) \<Rightarrow>
          Some (EXIT_FAILURE, log_call (Write_stderr (''CLI options error: '' @ what_text with_errno x @ newline)) w)
      | (Inr (cfg, True), w) \<Rightarrow> Some (EXIT_SUCCESS, w)
      | (Inr (cfg, False), w) \<Rightarrow>
         (case create_queue P (at_local_ring m) 64 w of
            (Inl e, w) \<Rightarrow> Some (EXIT_FAILURE, print_error e w)
          | (Inr ring, w) \<Rightarrow>
             (case create_tun_device P (old_mtu_tun m) (interface_name cfg) (inner_address cfg) (ucast (cfg_mtu cfg)) w of
                None \<Rightarrow> None
              | Some (Inl e, w) \<Rightarrow> Some (EXIT_FAILURE, snd (ring_close P ring (print_error e w)))
              | Some (Inr tun, w) \<Rightarrow>
                 (case make_connection P with_errno cfg socket_default w of
                    (False, sock, w) \<Rightarrow> Some (EXIT_FAILURE, end_objects P ring tun sock w)
                  | (True, sock, w) \<Rightarrow>
                     (case set_up P tun w of
                        None \<Rightarrow> None
                      | Some (Inl e, w) \<Rightarrow> Some (EXIT_FAILURE, end_objects P ring tun sock (print_error e w))
                      | Some (Inr _, w) \<Rightarrow> run_session P m cfg ring tun sock w)))))"

section \<open>The exit status\<close>

text \<open>The loop ends with an error or not at all.\<close>

lemma run_loop_fails: "run_loop P s w = Some (r, s', w') \<Longrightarrow> \<exists>e. r = Inl e"
proof -
  have "\<exists>e. fst y = Inl e" if "run_loop P s w = Some y" for y
  proof (rule run_loop.raw_induct [where Pa = "\<lambda>_ y. \<exists>e. fst y = Inl e", unfolded prod.case, OF _ that])
    fix loop :: "platform \<Rightarrow> session \<Rightarrow> world \<Rightarrow> (unit result \<times> session \<times> world) option" and P s w y
    assume "\<And>P s w y. loop P s w = Some y \<Longrightarrow> \<exists>e. fst y = Inl e"
      and "(case wait P (ses_ring s) w of (Inl e, w) \<Rightarrow> Some (Inl e, s, w)
        | (Inr c, w) \<Rightarrow> (case dispatch P (kernel_writes P c s w) c w of None \<Rightarrow> None
          | Some (Inl e, s, w) \<Rightarrow> Some (Inl e, s, w) | Some (Inr _, s, w) \<Rightarrow> loop P s w)) = Some y"
    then show "\<exists>e. fst y = Inl e"
      by (auto split: prod.splits sum.splits option.splits)
  qed
  then show "run_loop P s w = Some (r, s', w') \<Longrightarrow> \<exists>e. r = Inl e"
    by fastforce
qed

lemma run_fails: "run P s w = Some (r, s', w') \<Longrightarrow> \<exists>e. r = Inl e"
  by (auto simp: run_def Let_def undefined_behaviour_def split: prod.splits sum.splits option.splits if_splits dest: run_loop_fails)

lemma run_session_status: "run_session P m cfg ring tun sock w = Some (n, w') \<Longrightarrow> n = EXIT_FAILURE"
  by (auto simp: run_session_def Let_def split: prod.splits sum.splits option.splits dest: run_fails)


end
