(* ===== verification/Program_Balance.thy ===== *)
theory Program_Balance
  imports Main_Program Session_System
begin

text \<open>
  The balance of descriptors over the whole program. The calls of the data paths and of the ring open
  and close nothing, except for the check for multishot receives, which closes the two sockets it
  opens; so the data paths keep the balance, and with it the session and the program.
\<close>

section \<open>The ring\<close>

lemma neutral_ring_calls [simp]:
  "neutral P (Io_uring_queue_init n)" "neutral P Io_uring_queue_exit" "neutral P Io_uring_get_sqe" "neutral P (Sqe_set_data64 d)"
  "neutral P (Sqe_prep_recv fd)" "neutral P (Sqe_prep_recv_multishot fd)" "neutral P (Sqe_prep_read fd)"
  "neutral P (Sqe_prep_read_multishot fd b)" "neutral P (Sqe_prep_sendmsg fd v)" "neutral P (Sqe_prep_writev fd v)"
  "neutral P (Sqe_prep_timeout s1 s2 c)" "neutral P (Sqe_buffer_select b)" "neutral P Io_uring_submit" "neutral P Io_uring_wait_cqe"
  "neutral P Io_uring_cqe_seen" "neutral P (Setup_buf_ring n b)" "neutral P (Free_buf_ring n b)" "neutral P (Posix_memalign n n')"
  "neutral P Buf_ring_init" "neutral P (Register_buf_ring n b)" "neutral P (Unregister_buf_ring b)" "neutral P Std_free"
  "neutral P (Buf_ring_mask n)" "neutral P (Buf_ring_add b off len bid m i)" "neutral P (Buf_ring_advance b n)"
  "neutral P Sysconf_pagesize" "neutral P Get_probe" "neutral P Opcode_supported" "neutral P Free_probe" "neutral P (Send_byte fd)"
  by (simp_all add: neutral_def opened_by_def)

lemma balanced_cache_fields [simp]:
  "balanced P w0 h0 (w\<lparr>recv_multishot_cache := c\<rparr>) h = balanced P w0 h0 w h"
  "balanced P w0 h0 (w\<lparr>read_multishot_cache := c\<rparr>) h = balanced P w0 h0 w h"
  "balanced P w0 h0 (w\<lparr>monitor_device := d\<rparr>) h = balanced P w0 h0 w h"
  by (simp_all add: balanced_def opened_fds_def closed_fds_def)

lemma ring_balance [balance]:
  "alloc P w = (ok, w') \<Longrightarrow> balanced P w0 h0 w h \<Longrightarrow> balanced P w0 h0 w' h"
  "create_queue P a n w = (x, w') \<Longrightarrow> balanced P w0 h0 w h \<Longrightarrow> balanced P w0 h0 w' h"
  "get_sqe P r w = (y, w') \<Longrightarrow> balanced P w0 h0 w h \<Longrightarrow> balanced P w0 h0 w' h"
  "submit P r w = (z, w') \<Longrightarrow> balanced P w0 h0 w h \<Longrightarrow> balanced P w0 h0 w' h"
  "wait P r w = (c, w') \<Longrightarrow> balanced P w0 h0 w h \<Longrightarrow> balanced P w0 h0 w' h"
  "get_page_size P w = (n', w') \<Longrightarrow> balanced P w0 h0 w h \<Longrightarrow> balanced P w0 h0 w' h"
  by (auto simp: alloc_def create_queue_def get_sqe_def submit_def wait_def get_page_size_def call_def Let_def
      split: if_splits intro!: balanced_then)

lemma destroy_group_balance: "balanced P w0 h0 w h \<Longrightarrow> balanced P w0 h0 (destroy_group P g w) h"
  by (simp add: destroy_group_def balanced_then)

lemma destroy_groups_balance: "balanced P w0 h0 w h \<Longrightarrow> balanced P w0 h0 (fold (destroy_group P) gs w) h"
  by (induction gs arbitrary: w) (simp_all add: destroy_group_balance)

lemma ring_close_balance [balance]:
  "ring_close P r w = (r', w') \<Longrightarrow> balanced P w0 h0 w h \<Longrightarrow> balanced P w0 h0 w' h"
  by (auto simp: ring_close_def Let_def destroy_groups_balance balanced_then split: if_splits)

lemma ended_ring: "balanced P w0 h0 w h \<Longrightarrow> balanced P w0 h0 (snd (ring_close P r w)) h"
  by (rule ring_close_balance [OF prod.collapse [symmetric]])

lemma setup_ring_balance [balance]:
  "setup_ring P g w = (x, w') \<Longrightarrow> balanced P w0 h0 w h \<Longrightarrow> balanced P w0 h0 w' h"
  by (auto simp: setup_ring_def call_def Let_def split: if_splits prod.splits sum.splits intro!: balanced_then elim!: balance)

lemma provide_buffers_balance [balance]:
  "provide_buffers g bids w = (x, w') \<Longrightarrow> balanced P w0 h0 w h \<Longrightarrow> balanced P w0 h0 w' h"
  by (induction bids arbitrary: w) (auto simp: balanced_then split: sum.splits)

lemma create_buffer_group_balance [balance]:
  "create_buffer_group P len sz r w = (x, r', w') \<Longrightarrow> balanced P w0 h0 w h \<Longrightarrow> balanced P w0 h0 w' h"
  by (auto simp: create_buffer_group_def call_def Let_def split: if_splits prod.splits sum.splits
      intro!: balanced_then destroy_group_balance elim!: balance)

section \<open>The feature checks\<close>

lemma read_check_balance [balance]:
  "read_multishot P w = (x, w') \<Longrightarrow> balanced P w0 h0 w h \<Longrightarrow> balanced P w0 h0 w' h"
  by (auto simp: read_multishot_def call_def Let_def split: option.splits if_splits intro!: balanced_then)

lemma try_recv_balance [balance]:
  "try_recv_multishot P ss r w = (x, r', w') \<Longrightarrow> balanced P w0 h0 w h \<Longrightarrow> balanced P w0 h0 w' h"
  by (auto simp: try_recv_multishot_def call_def Let_def split: prod.splits sum.splits intro!: balanced_then elim!: balance)

lemma socketpair_balance:
  assumes "0 \<le> sys P (trace w @ [Socketpair])"
  shows "balanced P w {#} (log_call Socketpair w)
    (sock_held (make_socket (int (fst (pair_fd P (trace w @ [Socketpair])))) f) + sock_held (make_socket (int (snd (pair_fd P (trace w @ [Socketpair])))) g))"
  using assms by (simp add: balanced_def opened_by_def)

lemma end_of_check_balance:
  assumes "balanced P w0 h0 w (sock_held (fst ss) + sock_held (snd ss))"
  shows "balanced P w0 h0 (end_of_check P r ss w) {#}"
proof -
  have "balanced P w0 h0 (socket_destroy (snd ss) w) (sock_held (fst ss))"
    by (rule owned_socket.ended [OF assms])
  then have "balanced P w0 h0 (socket_destroy (fst ss) (socket_destroy (snd ss) w)) {#}"
    by (rule owned_socket.ended_last)
  then show ?thesis
    unfolding end_of_check_def by (rule ended_ring)
qed

lemma recv_check_balance:
  assumes "recv_multishot P w = (x, w')"
  shows "balanced P w {#} w' {#}"
proof (cases "recv_multishot_cache w = None \<and> HAVE_PREP_RECV_MULTISHOT P")
  case False
  then show ?thesis
    using assms by (auto simp: recv_multishot_def split: option.splits if_splits)
next
  case True
  obtain y w1 where q: "create_queue P local_ring 1 w = (y, w1)" by fastforce
  have b1: "balanced P w {#} w1 {#}"
    by (rule ring_balance(2) [OF q balanced_refl])
  show ?thesis
  proof (cases y)
    case (Inl e)
    then show ?thesis
      using assms True q b1 by (simp add: recv_multishot_def)
  next
    case (Inr r)
    let ?w2 = "log_call Socketpair w1"
    let ?fds = "pair_fd P (trace ?w2)"
    let ?ss = "(make_socket (int (fst ?fds)) AF_UNSPEC, make_socket (int (snd ?fds)) AF_UNSPEC)"
    obtain rv r' w3 where t: "try_recv_multishot P ?ss r ?w2 = (rv, r', w3)"
      by (metis prod_cases3)
    have run: "(x, w') = (if sys P (trace w1 @ [Socketpair]) < 0
        then (Inl (Error_no SocketPairFailed (errno_of P (trace ?w2))), snd (ring_close P r ?w2)) else (rv, end_of_check P r' ?ss w3))"
      using assms True q t by (auto simp: recv_multishot_def Inr call_def Let_def split: if_splits)
    show ?thesis
    proof (cases "sys P (trace w1 @ [Socketpair]) < 0")
      case True
      then have "balanced P w {#} ?w2 {#}"
        by (intro balanced_trans [OF b1]) (simp add: balanced_def opened_by_def)
      then have "balanced P w {#} (snd (ring_close P r ?w2)) {#}"
        by (rule ended_ring)
      with run True show ?thesis by simp
    next
      case False
      then have "balanced P w {#} ?w2 (sock_held (fst ?ss) + sock_held (snd ?ss))"
        using balanced_trans [OF b1 socketpair_balance [of P w1 AF_UNSPEC AF_UNSPEC]] by simp
      then have "balanced P w {#} (end_of_check P r' ?ss w3) {#}"
        by (intro end_of_check_balance try_recv_balance [OF t])
      with run False show ?thesis by simp
    qed
  qed
qed

section \<open>The data paths\<close>

lemma path_call_neutral: "path_call G c \<Longrightarrow> neutral P c"
  by (cases c) auto

interpretation fds: path_effects P UNIV "\<lambda>w w'. balanced P w {#} w' {#}" for P
proof
  show "balanced P w {#} (log_call c w) {#}" if "path_call UNIV c" for c w
    using path_call_neutral [OF that] by (rule balanced_neutral)
  show "balanced P w {#} w1 {#}" if "read_multishot P w = (b, w1)" for b w w1
    using read_check_balance [OF that] by simp
qed (simp, rule balanced_trans, assumption+, rule recv_check_balance)

lemma path_balance [balance]:
  "arm_recv P L rx w = (x, w') \<Longrightarrow> balanced P w0 h0 w h \<Longrightarrow> balanced P w0 h0 w' h"
  "arm_read P L tx w = (x, w') \<Longrightarrow> balanced P w0 h0 w h \<Longrightarrow> balanced P w0 h0 w' h"
  "rx_handle_cqe P L c rx w = (x, rx', w') \<Longrightarrow> balanced P w0 h0 w h \<Longrightarrow> balanced P w0 h0 w' h"
  "tx_handle_cqe P L c tx w = (x, tx', w') \<Longrightarrow> balanced P w0 h0 w h \<Longrightarrow> balanced P w0 h0 w' h"
  using fds.arm_recv_keeps [of P L rx w x w' w] fds.arm_read_keeps [of P L tx w x w' w]
    fds.rx_handle_keeps [of P L c rx w x rx' w' w] fds.tx_handle_keeps [of P L c tx w x tx' w' w]
  by (auto simp: rx_within_def tx_within_def intro: balanced_trans balanced_frame)

lemma create_paths_balance [balance]:
  "create_receiver P a b c len sz r w = (x, r', w') \<Longrightarrow> balanced P w0 h0 w h \<Longrightarrow> balanced P w0 h0 w' h"
  "create_transmitter P a b c t len r w = (y, r', w') \<Longrightarrow> balanced P w0 h0 w h \<Longrightarrow> balanced P w0 h0 w' h"
  by (auto simp: create_receiver_def create_transmitter_def Let_def split: if_splits prod.splits sum.splits elim!: balance)

section \<open>The session\<close>

definition session_held :: "session \<Rightarrow> int multiset" where
  "session_held s = tun_held (ses_tun s) + sock_held (ses_socket s)"

lemma objects_balance:
  assumes "balanced P w0 h0 w (tun_held t + sock_held k)"
  shows "balanced P w0 h0 (snd (ring_close P r (tun_destroy t (socket_destroy k w)))) {#}"
proof -
  have "balanced P w0 h0 (socket_destroy k w) (tun_held t)"
    by (rule owned_socket.ended [OF assms])
  then have "balanced P w0 h0 (tun_destroy t (socket_destroy k w)) {#}"
    by (rule owned_tun.ended_last)
  then show ?thesis
    by (rule ended_ring)
qed

lemma ring_move_assign_balance: "ring_move_assign P r other w = (x, w') \<Longrightarrow> balanced P w0 h0 w h \<Longrightarrow> balanced P w0 h0 w' h"
  by (auto simp: ring_move_assign_def Let_def split: prod.splits dest: ring_close_balance)

lemma relink_held [simp]: "session_held (relink s) = session_held s"
  by (simp add: session_held_def relink_def Let_def)

interpretation owned_session: fd_owner P session_held "session_destroy P" "session_move P there" "session_move_assign P" for P there
proof
  show "balanced P w (h + session_held s) (session_destroy P s w) h" for w h s
  proof -
    have "balanced P w (h + session_held s) (socket_destroy (ses_socket s) w) (h + tun_held (ses_tun s))"
      by (rule owned_socket.ended) (simp add: session_held_def ac_simps)
    then show ?thesis
      unfolding session_destroy_def by (intro ended_ring owned_tun.ended)
  qed
  show "balanced P w (h + session_held s) w' h" if a: "session_move_assign P s other w = (s', o', w')" for w h s other s' o' w'
  proof -
    obtain r w1 where r: "ring_move_assign P (ses_ring s) (ses_ring other) w = (r, w1)" by fastforce
    obtain t ot w2 where t: "tun_move_assign (ses_tun s) (ses_tun other) w1 = (t, ot, w2)" by (metis prod_cases3)
    obtain k ok where k: "socket_move_assign (ses_socket s) (ses_socket other) w2 = (k, ok, w')"
      using a r t by (cases "socket_move_assign (ses_socket s) (ses_socket other) w2") (auto simp: session_move_assign_def Let_def split_beta)
    have "balanced P w (h + session_held s) w1 (h + session_held s)"
      using ring_move_assign_balance [OF r] by simp
    also have "balanced P w1 (h + session_held s) w2 (h + sock_held (ses_socket s))"
      using owned_tun.assign_closes [OF t, of P "h + sock_held (ses_socket s)"] by (simp add: session_held_def ac_simps)
    also have "balanced P w2 (h + sock_held (ses_socket s)) w' h"
      by (rule owned_socket.assign_closes [OF k])
    finally show ?thesis .
  qed
  show "session_held s' = session_held other \<and> session_held o' = {#}" if "session_move_assign P s other w = (s', o', w')" for s other w s' o' w'
    using that by (auto simp: session_move_assign_def session_held_def relink_def Let_def dest!: owned_tun.assign_held owned_socket.assign_held split: prod.splits)
qed (use owned_tun.move_held owned_socket.move_held in \<open>auto simp: session_move_def session_held_def relink_def Let_def split_beta\<close>)



lemma create_session_balance:
  assumes "create_session P here there mtu0 ring tun sock txlen rxlen rxsize cfg w = (x, w')"
    and "balanced P w0 h0 w (tun_held tun + sock_held sock)"
  shows "balanced P w0 h0 w' (case x of Inl _ \<Rightarrow> {#} | Inr s \<Rightarrow> session_held s)"
proof (cases x)
  case (Inr s)
  then obtain r1 r2 rx tx w2 where
      rx: "create_receiver P (at_ring here) (at_tun here) (at_socket here) rxlen rxsize (fst (ring_move (at_ring here) ring)) w = (Inr rx, r1, w2)"
    and tx: "create_transmitter P (at_ring here) (at_tun here) (at_socket here) tun txlen r1 w2 = (Inr tx, r2, w')"
    and s: "s = relink \<lparr>ses_at = there, ses_ring = fst (ring_move (at_ring there) r2), ses_tun = tun, ses_socket = sock,
      ses_cfg = Some cfg, ses_receiver = rx, ses_transmitter = tx\<rparr>"
    using create_session_Inr [of P here there mtu0 ring tun sock txlen rxlen rxsize cfg w s w'] assms(1) by blast
  have "session_held s = tun_held tun + sock_held sock"
    by (simp add: s session_held_def relink_def Let_def)
  then show ?thesis
    using create_paths_balance(2) [OF tx create_paths_balance(1) [OF rx assms(2)]] Inr by simp
next
  case (Inl e)
  let ?r0 = "fst (ring_move (at_ring here) ring)"
  obtain a r1 w2 where rx: "create_receiver P (at_ring here) (at_tun here) (at_socket here) rxlen rxsize ?r0 w = (a, r1, w2)"
    by (metis prod_cases3)
  obtain b r2 w3 where tx: "create_transmitter P (at_ring here) (at_tun here) (at_socket here) tun txlen r1 w2 = (b, r2, w3)"
    by (metis prod_cases3)
  have b: "balanced P w0 h0 w2 (tun_held tun + sock_held sock)" "balanced P w0 h0 w3 (tun_held tun + sock_held sock)"
    using create_paths_balance(1) [OF rx assms(2)] create_paths_balance(2) [OF tx] by simp_all
  have "ring_move_assign P (new_ring (at_ring here)) ring w = (ring_move (at_ring here) ring, w)"
    by (simp add: ring_move_assign_def idle_objects(3)) (simp add: new_ring_def)
  then obtain s' v where "w' = session_destroy P s' v" "ses_tun s' = tun" "ses_socket s' = sock" "v = w2 \<or> v = w3"
    using assms(1) rx tx Inl
    by (cases a; cases b)
      (auto simp: create_session_def session_default_def idle_objects split_beta Let_def)
  with b Inl show ?thesis
    by (auto intro!: owned_session.ended_last simp: session_held_def)
qed

lemma session_arm_balance [balance]:
  "session_arm P s w = (x, w') \<Longrightarrow> balanced P w0 h0 w h \<Longrightarrow> balanced P w0 h0 w' h"
  by (auto simp: session_arm_def undefined_behaviour_def split: if_splits sum.splits prod.splits intro!: balanced_then elim!: balance)

lemma get_stats_balance:
  assumes "get_stats P t w = Some (x, w')"
  shows "balanced P w h w' h"
  using assms
  by (auto simp: get_stats_def Let_def split: prod.splits sum.splits
      dest!: next_seq_balance [where P = P and h = h] nl_send_raw_balance [where h = h] nl_recv_loop_balance [where h = h]
      intro: balanced_trans)

lemma monitor_print_balance [balance]:
  "monitor_print P D w = Some (x, w') \<Longrightarrow> balanced P w0 h0 w h \<Longrightarrow> balanced P w0 h0 w' h"
  by (auto simp: monitor_print_def split: option.splits prod.splits sum.splits dest!: get_stats_balance [where h = h]
      intro!: balanced_then intro: balanced_trans)

lemma arm_timeout_balance [balance]:
  "arm_timeout P r n w = (x, w') \<Longrightarrow> balanced P w0 h0 w h \<Longrightarrow> balanced P w0 h0 w' h"
  by (auto simp: arm_timeout_def Let_def split: sum.splits prod.splits intro!: balanced_then elim!: balance)

lemma monitor_handle_balance [balance]:
  "monitor_handle_cqe P D r c w = Some (x, w') \<Longrightarrow> balanced P w0 h0 w h \<Longrightarrow> balanced P w0 h0 w' h"
  by (auto simp: monitor_handle_cqe_def split: if_splits option.splits sum.splits prod.splits elim!: balance)

lemma dispatch_balance:
  assumes "dispatch P s c w = Some (x, s', w')" and "balanced P w0 h0 w h"
  shows "balanced P w0 h0 w' h \<and> session_held s' = session_held s"
proof -
  have "balanced P w0 h0 w' h"
    using assms
    by (auto simp: dispatch_def Let_def undefined_behaviour_def split: if_splits option.splits prod.splits
        intro!: balanced_then elim!: balance)
  moreover have "ses_tun s' = ses_tun s" "ses_socket s' = ses_socket s"
    using assms(1) by (auto simp: dispatch_def Let_def undefined_behaviour_def split: if_splits option.splits prod.splits)
  ultimately show ?thesis
    by (simp add: session_held_def)
qed

lemma kernel_writes_held [simp]: "session_held (kernel_writes P c s w) = session_held s"
  by (simp add: kernel_writes_def Let_def session_held_def split: option.split)

lemma run_loop_balance:
  assumes "run_loop P s w = Some (x, s', w')"
  shows "balanced P w {#} w' {#} \<and> session_held s' = session_held s"
proof -
  have "case y of (x, s', w') \<Rightarrow> balanced P w {#} w' {#} \<and> session_held s' = session_held s" if "run_loop P s w = Some y" for y
  proof (rule run_loop.raw_induct [where Pa = "\<lambda>((P, s), w) y. case y of (x, s', w') \<Rightarrow> balanced P w {#} w' {#} \<and> session_held s' = session_held s",
      unfolded prod.case, OF _ that])
    fix loop :: "platform \<Rightarrow> session \<Rightarrow> world \<Rightarrow> (unit result \<times> session \<times> world) option" and P s w y
    assume IH: "\<And>P s w y. loop P s w = Some y \<Longrightarrow> case y of (x, s', w') \<Rightarrow> balanced P w {#} w' {#} \<and> session_held s' = session_held s"
      and body: "(case wait P (ses_ring s) w of (Inl e, w) \<Rightarrow> Some (Inl e, s, w)
        | (Inr c, w) \<Rightarrow> (case dispatch P (kernel_writes P c s w) c w of None \<Rightarrow> None
          | Some (Inl e, s, w) \<Rightarrow> Some (Inl e, s, w) | Some (Inr _, s, w) \<Rightarrow> loop P s w)) = Some y"
    obtain a w1 where wt: "wait P (ses_ring s) w = (a, w1)" by fastforce
    have b1: "balanced P w {#} w1 {#}"
      by (rule ring_balance(5) [OF wt balanced_refl])
    show "case y of (x, s', w') \<Rightarrow> balanced P w {#} w' {#} \<and> session_held s' = session_held s"
    proof (cases a)
      case (Inl e)
      then show ?thesis using body b1 by (auto simp: wt)
    next
      case (Inr c)
      then obtain r2 s2 w2 where d: "dispatch P (kernel_writes P c s w1) c w1 = Some (r2, s2, w2)"
        using body by (cases "dispatch P (kernel_writes P c s w1) c w1") (auto simp: wt)
      have b2: "balanced P w {#} w2 {#}" "session_held s2 = session_held s"
        using dispatch_balance [OF d b1] by simp_all
      show ?thesis
      proof (cases r2)
        case (Inl e)
        with body wt Inr d b2 show ?thesis by auto
      next
        case r2: (Inr u)
        with body wt Inr d have "loop P s2 w2 = Some y" by simp
        from IH [OF this] b2 show ?thesis
          by (auto intro: balanced_trans)
      qed
    qed
  qed
  from this [OF assms] show ?thesis by simp
qed

lemma run_balance:
  assumes "run P s w = Some (x, s', w')" and "balanced P w0 h0 w h"
  shows "balanced P w0 h0 w' h \<and> session_held s' = session_held s"
proof -
  have l: "balanced P w0 h0 w' h" if "run_loop P s v = Some (x, s', w')" "balanced P w0 h0 v h" for v
    using run_loop_balance [OF that(1)] that(2) by (auto intro: balanced_trans balanced_frame)
  have "balanced P w0 h0 w' h"
    using assms
    by (auto simp: run_def Let_def set_tun_device_def undefined_behaviour_def split: sum.splits prod.splits option.splits if_splits
        intro!: balanced_then elim!: balance l)
  moreover have "session_held s' = session_held s"
    using assms(1) run_loop_balance [of P s _ x s' w']
    by (auto simp: run_def Let_def undefined_behaviour_def split: sum.splits prod.splits option.splits if_splits)
  ultimately show ?thesis ..
qed

section \<open>The program\<close>

lemma print_error_balance: "balanced P w0 h0 w h \<Longrightarrow> balanced P w0 h0 (print_error e w) h"
  by (simp add: print_error_def balanced_then)

lemma new_socket_balance:
  "create_listener P a w = (x, w') \<Longrightarrow> balanced P w0 h0 w {#} \<Longrightarrow> balanced P w0 h0 w' (handed x)"
  "connect_to P a ps w = (x, w') \<Longrightarrow> balanced P w0 h0 w {#} \<Longrightarrow> balanced P w0 h0 w' (handed x)"
  using create_listener_balance [of P a w x w'] connect_to_balance [of P a ps w x w'] by (auto intro: balanced_trans)

lemma accept_balance:
  assumes "accept_from P l w = (x, w')" and "balanced P w0 h0 w h"
  shows "balanced P w0 h0 w' (h + handed x)"
proof -
  have "balanced P w (h + {#}) w' (h + handed x)"
    using accept_from_balance [OF assms(1)] by (simp add: balanced_def ac_simps)
  with assms(2) show ?thesis
    by (auto intro: balanced_trans)
qed

lemma ask_address_balance [balance]:
  "get_remote_address P s w = (x, w') \<Longrightarrow> balanced P w0 h0 w h \<Longrightarrow> balanced P w0 h0 w' h"
  by (auto simp: get_remote_address_def ask_address_def call_def terminate_def Let_def split: if_splits prod.splits sum.splits
      intro!: balanced_then)

lemma wait_for_peer_balance:
  assumes "wait_for_peer P f a socket_default w = (ok, sock, w')" and "balanced P w0 h0 w {#}"
  shows "balanced P w0 h0 w' (sock_held sock)"
proof -
  obtain x w1 where l: "create_listener P a w = (x, w1)" by fastforce
  have b1: "balanced P w0 h0 w1 (handed x)"
    by (rule new_socket_balance(1) [OF l assms(2)])
  show ?thesis
  proof (cases x)
    case (Inl e)
    then show ?thesis
      using assms(1) b1 by (auto simp: wait_for_peer_def l intro: print_error_balance)
  next
    case (Inr listener)
    obtain y w2 where acc: "accept_from P listener w1 = (y, w2)" by fastforce
    have b2: "balanced P w0 h0 w2 (sock_held listener + handed y)"
      using accept_balance [OF acc b1] Inr by simp
    show ?thesis
    proof (cases y)
      case Inl': (Inl e)
      then show ?thesis
        using assms(1) b2 by (auto simp: wait_for_peer_def l acc Inr intro!: owned_socket.ended_last print_error_balance)
    next
      case Inr': (Inr peer)
      obtain z w3 where g: "get_remote_address P peer w2 = (z, w3)" by fastforce
      have b3: "balanced P w0 h0 w3 (sock_held peer + sock_held listener)"
        using ask_address_balance [OF g b2] Inr' by (simp add: add.commute)
      have ended: "balanced P w0 h0 (socket_destroy listener v) (sock_held k)"
        if "balanced P w0 h0 v (sock_held k + sock_held listener)" for k v
        by (rule owned_socket.ended [OF that])
      show ?thesis
        using assms(1) b3
        by (auto simp: wait_for_peer_def l acc g Inr Inr' idle_objects intro!: ended print_error_balance balanced_then split: sum.splits)
    qed
  qed
qed

lemma reach_peer_balance:
  assumes "reach_peer P a ps socket_default w = (ok, sock, w')" and "balanced P w0 h0 w {#}"
  shows "balanced P w0 h0 w' (sock_held sock)"
proof -
  obtain x w1 where c: "connect_to P a ps w = (x, w1)" by fastforce
  have b1: "balanced P w0 h0 w1 (handed x)"
    by (rule new_socket_balance(2) [OF c assms(2)])
  then show ?thesis
    using assms(1)
    by (cases x) (auto simp: reach_peer_def c idle_objects terminate_def intro!: print_error_balance balanced_then split: sum.splits)
qed

lemma make_connection_balance:
  assumes "make_connection P f cfg socket_default w = (ok, sock, w')" and "balanced P w0 h0 w h"
  shows "balanced P w0 h0 w' (h + sock_held sock)"
proof -
  have "balanced P w {#} w' (sock_held sock)"
    using assms(1) wait_for_peer_balance [of P f _ w ok sock w' w "{#}"] reach_peer_balance [of P _ _ w ok sock w' w "{#}"]
    by (auto simp: make_connection_def split: option.splits)
  then have "balanced P w (h + {#}) w' (h + sock_held sock)"
    by (simp add: balanced_def ac_simps)
  with assms(2) show ?thesis
    by (auto intro: balanced_trans)
qed

lemma end_objects_balance:
  "balanced P w0 h0 w (tun_held t + sock_held k) \<Longrightarrow> balanced P w0 h0 (end_objects P r t k w) {#}"
  unfolding end_objects_def by (rule objects_balance)

lemma empty_held: "tun_held (snd (tun_move t)) + sock_held (snd (socket_move k)) = {#}"
  by (simp add: moved_nothing tun_held_def tun_default_def)

lemma run_session_balance:
  assumes "run_session P m cfg ring tun sock w = Some (n, w')" and "balanced P w0 h0 w (tun_held tun + sock_held sock)"
  shows "balanced P w0 h0 w' {#}"
proof -
  obtain x w1 where c: "create_session P (at_made_session m) (at_session m) (old_mtu_session m) ring tun sock 4096 4096 4096 cfg w = (x, w1)"
    by fastforce
  note b1 = create_session_balance [OF c assms(2)]
  have gone: "balanced P w0 h0 (end_objects P r (snd (tun_move tun)) (snd (socket_move sock)) v) {#}" if "balanced P w0 h0 v {#}" for r v
    using end_objects_balance that empty_held by metis
  show ?thesis
  proof (cases x)
    case (Inl e)
    with assms(1) c b1 show ?thesis
      by (auto simp: run_session_def Let_def intro!: gone print_error_balance)
  next
    case (Inr s)
    then obtain y s' w2 where r: "run P s w1 = Some (y, s', w2)"
      using assms(1) c by (cases "run P s w1") (auto simp: run_session_def Let_def)
    have "balanced P w0 h0 w2 (session_held s')"
      using run_balance [OF r, of w0 h0 "session_held s"] b1 Inr by simp
    then show ?thesis
      using assms(1) c Inr r
      by (cases y) (auto simp: run_session_def Let_def intro!: gone owned_session.ended_last print_error_balance)
  qed
qed

lemma set_up_balance:
  "set_up P t w = Some (x, w') \<Longrightarrow> balanced P w h w' h"
  by (auto simp: set_up_def Let_def split: prod.splits dest!: next_seq_balance [where P = P and h = h] nl_send_acked_balance [where h = h]
      intro: balanced_trans)

lemma handle_option_neutral:
  "handle_option N B pn ev (cfg, e, w) = Inr (cfg', e', w') \<Longrightarrow> balanced P w h w' h"
  by (auto dest!: handle_option_world intro: balanced_neutral)

lemma handle_options_balance:
  "handle_options N B pn evs (cfg, e, w) = (x, w') \<Longrightarrow> balanced P w h w' h"
proof (induction evs arbitrary: cfg e w)
  case (Cons ev evs)
  show ?case
  proof (cases "handle_option N B pn ev (cfg, e, w)")
    case (Inr st)
    obtain cfg1 e1 w1 where st: "st = (cfg1, e1, w1)" by (cases st)
    have "balanced P w h w1 h"
      using handle_option_neutral Inr st by blast
    then show ?thesis
      using Cons Inr st by (auto intro: balanced_trans)
  qed (use Cons.prems in auto)
qed simp

lemma parse_cli_balance:
  "parse_cli_arguments N B pn args w = (x, w') \<Longrightarrow> balanced P w h w' h"
  by (auto simp: parse_cli_arguments_def Let_def split: prod.splits sum.splits if_splits dest: handle_options_balance)


text \<open>A system that has no TUN device: the program gives up, and nothing stays open.\<close>

definition no_tun_platform :: platform where
  "no_tun_platform = friendly\<lparr>net := small_net, sys := (\<lambda>tr. if last tr = Open_tun then - 1 else friendly_sys tr)\<rparr>"

definition example_stack :: stack where
  "example_stack = \<lparr>at_local_ring = 1, at_made_session = \<lparr>at_ring = 10, at_tun = 11, at_socket = 12\<rparr>,
     at_session = \<lparr>at_ring = 20, at_tun = 21, at_socket = 22\<rparr>, old_mtu_tun = 0, old_mtu_session = 0\<rparr>"

definition example_line :: "string list" where
  "example_line = command_line (config_options False example_config (''10.0.0.1'' @ ''/'' @ decimal 24) example_repr)"

lemma main_without_tun:
  "\<exists>w. main no_tun_platform example_stack example_build id ''zportal'' example_line initial_world = Some (EXIT_FAILURE, w)"
proof -
  have "parse_cli_arguments small_net example_build ''zportal'' example_line initial_world = (Inr (example_config, False), initial_world)"
    unfolding example_line_def by (rule command_line_read [OF example_facts(1,2) _ example_facts(3-8)]) simp
  then show ?thesis
    by (simp add: main_def no_tun_platform_def create_queue_def call_def friendly_sys_def create_tun_device_def Let_def
        fd_move_assign_def fd_close_def fd_reset_def fd_default_def fd_new_def fd_is_valid_def tun_default_def)
qed


end
